(* ===== verification/Prelude.thy ===== *)
theory Prelude
  imports "HOL-Library.Word" "HOL-Library.Sublist"
begin

unbundle bit_operations_syntax

section \<open>Prelude: machine types, fallible computations, shared automation\<close>

text \<open>
  What every component theory shares. The code's \<^verbatim>\<open>u8\<close> and \<^verbatim>\<open>i128\<close> are words of
  their width, because the decoders do wrap-around arithmetic on them. The unsigned counters
  and sizes (\<^verbatim>\<open>u32\<close>, \<^verbatim>\<open>u64\<close>, \<^verbatim>\<open>usize\<close>) are natural numbers, with the
  checked and saturating operations the source calls written out below. A fallible function
  returns \<open>'e + 'a\<close>, \<open>Inl\<close> for the error; \<open>rbind\<close> is the \<^verbatim>\<open>?\<close> operator and
  \<open>rmap\<close> is \<^verbatim>\<open>collect::<Result<Vec<_>, _>>\<close>.
\<close>

named_theorems result_simps "simplification of fallible computations"
named_theorems result_elims "elimination of successful fallible computations"

subsection \<open>Machine types\<close>

type_synonym u8 = "8 word"
type_synonym i128 = "128 word"

abbreviation u32_max :: nat where "u32_max \<equiv> 4294967295"
abbreviation u64_max :: nat where "u64_max \<equiv> 18446744073709551615"
abbreviation i64_min :: int where "i64_min \<equiv> - 9223372036854775808"
abbreviation i64_max :: int where "i64_max \<equiv> 9223372036854775807"
abbreviation i128_min :: int where "i128_min \<equiv> - 170141183460469231731687303715884105728"
abbreviation i128_max :: int where "i128_max \<equiv> 170141183460469231731687303715884105727"

text \<open>\<^verbatim>\<open>u32::checked_add\<close>, \<^verbatim>\<open>u32::saturating_mul\<close> and \<^verbatim>\<open>u64::saturating_add\<close>.\<close>

definition checked_add_u32 :: "nat \<Rightarrow> nat \<Rightarrow> nat option" where
  "checked_add_u32 a b = (if a + b \<le> u32_max then Some (a + b) else None)"

definition saturating_mul_u32 :: "nat \<Rightarrow> nat \<Rightarrow> nat" where
  "saturating_mul_u32 a b = min (a * b) u32_max"

definition saturating_add_u64 :: "nat \<Rightarrow> nat \<Rightarrow> nat" where
  "saturating_add_u64 a b = min (a + b) u64_max"

lemma checked_add_u32_Some [simp]:
  "checked_add_u32 a b = Some c \<longleftrightarrow> c = a + b \<and> c \<le> u32_max"
  by (auto simp: checked_add_u32_def)

text \<open>\<^verbatim>\<open>i64::try_from(i128)\<close>, as an integer in range.\<close>

definition to_i64 :: "int \<Rightarrow> int option" where
  "to_i64 n = (if i64_min \<le> n \<and> n \<le> i64_max then Some n else None)"

lemma to_i64_Some [simp]: "to_i64 n = Some m \<longleftrightarrow> m = n \<and> i64_min \<le> n \<and> n \<le> i64_max"
  by (auto simp: to_i64_def)

lemma to_i64_None [simp]: "to_i64 n = None \<longleftrightarrow> n < i64_min \<or> i64_max < n"
  by (auto simp: to_i64_def)

lemma sint_i128_bounds: "i128_min \<le> sint (v :: i128)" "sint (v :: i128) \<le> i128_max"
  using sint_greater_eq [of v] sint_less [of v] by simp_all

lemma sint_of_int_i128:
  assumes "i128_min \<le> n" and "n \<le> i128_max"
  shows "sint (word_of_int n :: i128) = n"
  using assms by (simp add: sint_sbintrunc' signed_take_bit_int_eq_self)

lemma unat_u8_less [simp]: "unat (b :: u8) < 256"
  by (rule order.strict_trans2 [OF unsigned_less]) simp

subsection \<open>Fallible computations\<close>

fun rbind :: "'e + 'a \<Rightarrow> ('a \<Rightarrow> 'e + 'b) \<Rightarrow> 'e + 'b" where
  "rbind (Inl e) f = Inl e"
| "rbind (Inr a) f = f a"

lemma rbind_cong [fundef_cong]:
  "m = m' \<Longrightarrow> (\<And>a. m' = Inr a \<Longrightarrow> f a = f' a) \<Longrightarrow> rbind m f = rbind m' f'"
  by (cases m') auto

lemma rbind_Inr_iff [result_simps]:
  "rbind m f = Inr b \<longleftrightarrow> (\<exists>a. m = Inr a \<and> f a = Inr b)"
  by (cases m) auto

lemma rbind_Inl_iff [result_simps]:
  "rbind m f = Inl e \<longleftrightarrow> m = Inl e \<or> (\<exists>a. m = Inr a \<and> f a = Inl e)"
  by (cases m) auto

lemma rbind_InrE [result_elims]:
  assumes "rbind m f = Inr b"
  obtains a where "m = Inr a" and "f a = Inr b"
  using assms by (auto simp: rbind_Inr_iff)

lemma rbind_assoc: "rbind (rbind m f) g = rbind m (\<lambda>a. rbind (f a) g)"
  by (cases m) auto

text \<open>\<^verbatim>\<open>if bad { return Err(e) }\<close>: a guard before the rest of a function.\<close>

definition guard :: "bool \<Rightarrow> 'e \<Rightarrow> 'e + 'a \<Rightarrow> 'e + 'a" where
  "guard bad e m = (if bad then Inl e else m)"

lemma guard_Inr_iff [result_simps]: "guard bad e m = Inr a \<longleftrightarrow> \<not> bad \<and> m = Inr a"
  by (simp add: guard_def)

lemma guard_Inl_iff [result_simps]:
  "guard bad e m = Inl e' \<longleftrightarrow> (bad \<and> e' = e) \<or> (\<not> bad \<and> m = Inl e')"
  by (auto simp: guard_def)

lemma guard_cong [fundef_cong]:
  "bad = bad' \<Longrightarrow> e = e' \<Longrightarrow> (\<not> bad' \<Longrightarrow> m = m') \<Longrightarrow> guard bad e m = guard bad' e' m'"
  by (simp add: guard_def)

text \<open>\<^verbatim>\<open>Result::map_err\<close> and \<^verbatim>\<open>Option::ok_or\<close>.\<close>

definition map_err :: "('e \<Rightarrow> 'f) \<Rightarrow> 'e + 'a \<Rightarrow> 'f + 'a" where
  "map_err h m = (case m of Inl e \<Rightarrow> Inl (h e) | Inr a \<Rightarrow> Inr a)"

definition ok_or :: "'e \<Rightarrow> 'a option \<Rightarrow> 'e + 'a" where
  "ok_or e x = (case x of None \<Rightarrow> Inl e | Some a \<Rightarrow> Inr a)"

lemma map_err_simps [simp]: "map_err h (Inl e) = Inl (h e)" "map_err h (Inr a) = Inr a"
  by (simp_all add: map_err_def)

lemma map_err_Inr_iff [result_simps]: "map_err h m = Inr a \<longleftrightarrow> m = Inr a"
  by (cases m) auto

lemma map_err_Inl_iff [result_simps]: "map_err h m = Inl f \<longleftrightarrow> (\<exists>e. m = Inl e \<and> f = h e)"
  by (cases m) auto

lemma ok_or_simps [simp]: "ok_or e None = Inl e" "ok_or e (Some a) = Inr a"
  by (simp_all add: ok_or_def)

lemma ok_or_Inr_iff [result_simps]: "ok_or e x = Inr a \<longleftrightarrow> x = Some a"
  by (cases x) auto

lemma ok_or_Inl_iff [result_simps]: "ok_or e x = Inl e' \<longleftrightarrow> x = None \<and> e' = e"
  by (cases x) auto

text \<open>Collecting the results of a function over a list stops at its first error.\<close>

fun rmap :: "('a \<Rightarrow> 'e + 'b) \<Rightarrow> 'a list \<Rightarrow> 'e + 'b list" where
  "rmap f [] = Inr []"
| "rmap f (x # xs) = rbind (f x) (\<lambda>y. rbind (rmap f xs) (\<lambda>ys. Inr (y # ys)))"

lemma rmap_cong [fundef_cong]:
  "xs = ys \<Longrightarrow> (\<And>x. x \<in> set ys \<Longrightarrow> f x = g x) \<Longrightarrow> rmap f xs = rmap g ys"
proof (induction ys arbitrary: xs)
  case Nil
  then show ?case by simp
next
  case (Cons y ys)
  have "rmap f ys = rmap g ys" using Cons.prems by (intro Cons.IH) auto
  with Cons.prems show ?case by simp
qed

lemma rmap_Inr_list_all2: "rmap f xs = Inr ys \<longleftrightarrow> list_all2 (\<lambda>x y. f x = Inr y) xs ys"
  by (induction xs arbitrary: ys) (auto simp: result_simps list_all2_Cons1)

lemma rmap_Inr_length: "rmap f xs = Inr ys \<Longrightarrow> length ys = length xs"
  by (auto simp: rmap_Inr_list_all2 dest: list_all2_lengthD)

lemma rmap_total: "(\<And>x. x \<in> set xs \<Longrightarrow> f x = Inr (g x)) \<Longrightarrow> rmap f xs = Inr (map g xs)"
  by (induction xs) auto

lemma rmap_Inl_first:
  "rmap f xs = Inl e \<Longrightarrow> \<exists>ys x zs. xs = ys @ x # zs \<and> f x = Inl e \<and> (\<forall>y \<in> set ys. \<exists>b. f y = Inr b)"
proof (induction xs)
  case Nil
  then show ?case by simp
next
  case (Cons x xs)
  show ?case
  proof (cases "f x")
    case (Inl e')
    with Cons.prems show ?thesis by (intro exI [of _ "[]"]) auto
  next
    case (Inr b)
    with Cons.prems have "rmap f xs = Inl e" by (auto simp: result_simps)
    from Cons.IH [OF this] obtain ys z zs
      where "xs = ys @ z # zs" "f z = Inl e" "\<forall>y \<in> set ys. \<exists>b. f y = Inr b" by blast
    with Inr show ?thesis by (intro exI [of _ "x # ys"]) auto
  qed
qed

lemma rmap_Inr_nth: "rmap f xs = Inr ys \<Longrightarrow> i < length xs \<Longrightarrow> f (xs ! i) = Inr (ys ! i)"
  by (auto simp: rmap_Inr_list_all2 dest: list_all2_nthD)

text \<open>\<^verbatim>\<open>Option<T>::map(f).transpose()?\<close>.\<close>

definition rtraverse :: "('a \<Rightarrow> 'e + 'b) \<Rightarrow> 'a option \<Rightarrow> 'e + 'b option" where
  "rtraverse f x = (case x of None \<Rightarrow> Inr None | Some a \<Rightarrow> rbind (f a) (\<lambda>b. Inr (Some b)))"

lemma rtraverse_simps [simp]:
  "rtraverse f None = Inr None"
  "rtraverse f (Some a) = rbind (f a) (\<lambda>b. Inr (Some b))"
  by (simp_all add: rtraverse_def)

lemma rtraverse_Inr_iff [result_simps]:
  "rtraverse f x = Inr y \<longleftrightarrow>
     (x = None \<and> y = None) \<or> (\<exists>a b. x = Some a \<and> f a = Inr b \<and> y = Some b)"
  by (cases x) (auto simp: result_simps)

subsection \<open>Slices\<close>

text \<open>
  \<^verbatim>\<open>&bytes[start..start + size]\<close> where the code guards the range itself, and
  \<^verbatim>\<open>bytes.get(start..end)\<close>, which is \<^verbatim>\<open>None\<close> out of range.
\<close>

definition slice :: "nat \<Rightarrow> nat \<Rightarrow> 'a list \<Rightarrow> 'a list" where
  "slice start n xs = take n (drop start xs)"

definition slice_get :: "nat \<Rightarrow> nat \<Rightarrow> 'a list \<Rightarrow> 'a list option" where
  "slice_get start stop xs =
     (if start \<le> stop \<and> stop \<le> length xs then Some (take (stop - start) (drop start xs)) else None)"

lemma length_slice: "start + n \<le> length xs \<Longrightarrow> length (slice start n xs) = n"
  by (simp add: slice_def)

lemma slice_append: "start + n \<le> length xs \<Longrightarrow> slice start n (xs @ ys) = slice start n xs"
  by (simp add: slice_def)

lemma slice_get_Some:
  "slice_get start stop xs = Some ys \<longleftrightarrow>
     start \<le> stop \<and> stop \<le> length xs \<and> ys = take (stop - start) (drop start xs)"
  by (auto simp: slice_get_def)

subsection \<open>Lists\<close>

lemma find_Some_first:
  "find P xs = Some x \<Longrightarrow> \<exists>ys zs. xs = ys @ x # zs \<and> P x \<and> (\<forall>y \<in> set ys. \<not> P y)"
proof (induction xs)
  case Nil
  then show ?case by simp
next
  case (Cons y ys)
  show ?case
  proof (cases "P y")
    case True
    with Cons.prems show ?thesis by (intro exI [of _ "[]"] exI [of _ ys]) auto
  next
    case False
    with Cons obtain as bs where "ys = as @ x # bs" "P x" "\<forall>a \<in> set as. \<not> P a" by auto
    with False show ?thesis by (intro exI [of _ "y # as"] exI [of _ bs]) auto
  qed
qed

lemma distinct_map_find:
  "distinct (map f xs) \<Longrightarrow> x \<in> set xs \<Longrightarrow> find (\<lambda>y. f y = f x) xs = Some x"
  by (induction xs) (auto simp: rev_image_eqI)

end
