(* ===== verification/Rust_Text.thy ===== *)
theory Rust_Text
  imports Prelude
begin

section \<open>Rust strings: the part of the standard library the program uses\<close>

text \<open>
  A Rust \<^verbatim>\<open>char\<close> is a Unicode scalar value and a \<^verbatim>\<open>str\<close> a sequence of them, so
  a string is a list of scalars (\<open>rstr\<close>), never of bytes. An ASCII literal of the source is
  \<open>lit ''...''\<close>. This theory models the library calls on strings: white space, control
  characters, trimming, case mapping, integer parsing and integer rendering, with the round
  trip between the last two.
\<close>

type_synonym uchar = nat
type_synonym rstr = "uchar list"

definition lit :: "string \<Rightarrow> rstr" where
  "lit s = map of_char s"

subsection \<open>Character classes\<close>

text \<open>\<^verbatim>\<open>char::is_whitespace\<close> is the Unicode property White\_Space.\<close>

definition is_whitespace :: "uchar \<Rightarrow> bool" where
  "is_whitespace c \<longleftrightarrow>
     (9 \<le> c \<and> c \<le> 13) \<or> c = 32 \<or> c = 133 \<or> c = 160 \<or> c = 5760 \<or> (8192 \<le> c \<and> c \<le> 8202) \<or>
     c = 8232 \<or> c = 8233 \<or> c = 8239 \<or> c = 8287 \<or> c = 12288"

text \<open>\<^verbatim>\<open>char::is_control\<close> is the general category Cc.\<close>

definition is_control :: "uchar \<Rightarrow> bool" where
  "is_control c \<longleftrightarrow> c \<le> 31 \<or> (127 \<le> c \<and> c \<le> 159)"

definition is_ascii_digit :: "uchar \<Rightarrow> bool" where
  "is_ascii_digit c \<longleftrightarrow> 48 \<le> c \<and> c \<le> 57"

text \<open>\<^verbatim>\<open>char::from_u32\<close>: neither a surrogate nor past the last code point.\<close>

definition char_from_u32 :: "nat \<Rightarrow> uchar option" where
  "char_from_u32 s = (if s < 55296 \<or> (57344 \<le> s \<and> s < 1114112) then Some s else None)"

subsection \<open>Trimming\<close>

definition trim_start :: "rstr \<Rightarrow> rstr" where
  "trim_start s = dropWhile is_whitespace s"

definition trim :: "rstr \<Rightarrow> rstr" where
  "trim s = rev (dropWhile is_whitespace (rev (dropWhile is_whitespace s)))"

lemma set_trim: "set (trim s) \<subseteq> set s"
  by (auto simp: trim_def dest!: set_dropWhileD)

lemma trim_hd: "trim s \<noteq> [] \<Longrightarrow> \<not> is_whitespace (hd (trim s))"
proof -
  assume ne: "trim s \<noteq> []"
  define u where "u = dropWhile is_whitespace s"
  have tr: "trim s = rev (dropWhile is_whitespace (rev u))" by (simp add: trim_def u_def)
  have "suffix (dropWhile is_whitespace (rev u)) (rev u)" by (rule suffix_dropWhile)
  then have "prefix (trim s) u" by (simp add: tr suffix_to_prefix)
  with ne have "hd (trim s) = hd u" by (auto simp: prefix_def)
  moreover from ne have "u \<noteq> []" by (auto simp: tr)
  ultimately show ?thesis using hd_dropWhile [of is_whitespace s] by (simp add: u_def)
qed

lemma trim_last: "trim s \<noteq> [] \<Longrightarrow> \<not> is_whitespace (last (trim s))"
  by (simp add: trim_def last_rev hd_dropWhile)

lemma trim_id:
  "s = [] \<or> (\<not> is_whitespace (hd s) \<and> \<not> is_whitespace (last s)) \<Longrightarrow> trim s = s"
proof (cases "s = []")
  case True
  then show ?thesis by (simp add: trim_def)
next
  case False
  assume "s = [] \<or> (\<not> is_whitespace (hd s) \<and> \<not> is_whitespace (last s))"
  with False have h: "\<not> is_whitespace (hd s)" and l: "\<not> is_whitespace (hd (rev s))"
    by (auto simp: hd_rev)
  have "dropWhile is_whitespace s = s" using h False by (cases s) auto
  moreover have "dropWhile is_whitespace (rev s) = rev s"
    using l False by (cases "rev s") auto
  ultimately show ?thesis by (simp add: trim_def)
qed

lemma trim_trim [simp]: "trim (trim s) = trim s"
  using trim_hd [of s] trim_last [of s] by (intro trim_id) auto

subsection \<open>Case mapping\<close>

text \<open>
  \<^verbatim>\<open>char::to_lowercase\<close> and \<^verbatim>\<open>char::to_uppercase\<close>. Both are exact on Latin-1 and on
  every character whose image holds an ASCII character (the Kelvin sign, the dotted and
  dotless i, the long s, the ligatures and the other special casings). Every other character
  is kept: its image has no ASCII character, and the source only ever compares a mapped string
  with ASCII literals and reads ASCII digits and symbols from it, so no branch depends on it.
\<close>

definition lower_char :: "uchar \<Rightarrow> rstr" where
  "lower_char c =
     (if 65 \<le> c \<and> c \<le> 90 then [c + 32]
      else if 192 \<le> c \<and> c \<le> 222 \<and> c \<noteq> 215 then [c + 32]
      else if c = 304 then [105, 775]
      else if c = 8490 then [107]
      else [c])"

definition upper_char :: "uchar \<Rightarrow> rstr" where
  "upper_char c =
     (if 97 \<le> c \<and> c \<le> 122 then [c - 32]
      else if c < 128 then [c]
      else if c = 181 then [924]
      else if c = 223 then [83, 83]
      else if 224 \<le> c \<and> c \<le> 254 \<and> c \<noteq> 247 then [c - 32]
      else if c = 255 then [376]
      else if c = 305 then [73]
      else if c = 329 then [700, 78]
      else if c = 383 then [83]
      else if c = 496 then [74, 780]
      else if c = 7830 then [72, 817]
      else if c = 7831 then [84, 776]
      else if c = 7832 then [87, 778]
      else if c = 7833 then [89, 778]
      else if c = 7834 then [65, 702]
      else if c = 64256 then [70, 70]
      else if c = 64257 then [70, 73]
      else if c = 64258 then [70, 76]
      else if c = 64259 then [70, 70, 73]
      else if c = 64260 then [70, 70, 76]
      else if c = 64261 \<or> c = 64262 then [83, 84]
      else [c])"

definition to_lowercase :: "rstr \<Rightarrow> rstr" where
  "to_lowercase s = concat (map lower_char s)"

definition to_uppercase :: "rstr \<Rightarrow> rstr" where
  "to_uppercase s = concat (map upper_char s)"

lemma to_uppercase_append: "to_uppercase (s @ t) = to_uppercase s @ to_uppercase t"
  by (simp add: to_uppercase_def)

lemma to_uppercase_id:
  "\<forall>c \<in> set s. c < 128 \<and> \<not> (97 \<le> c \<and> c \<le> 122) \<Longrightarrow> to_uppercase s = s"
  by (induction s) (auto simp: to_uppercase_def upper_char_def)

lemma to_lowercase_idem_ascii:
  "\<forall>c \<in> set s. c < 128 \<Longrightarrow> to_lowercase (to_lowercase s) = to_lowercase s"
  by (induction s) (auto simp: to_lowercase_def lower_char_def)

subsection \<open>Rendering integers\<close>

function render_nat :: "nat \<Rightarrow> rstr" where
  "render_nat n = (if n < 10 then [48 + n] else render_nat (n div 10) @ [48 + n mod 10])"
  by pat_completeness auto
termination
  by (relation "measure id") auto

declare render_nat.simps [simp del]

definition render_int :: "int \<Rightarrow> rstr" where
  "render_int n = (if n < 0 then 45 # render_nat (nat (- n)) else render_nat (nat n))"

lemma render_nat_nonempty [simp]: "render_nat n \<noteq> []"
  by (subst render_nat.simps) simp

lemma render_nat_digits: "c \<in> set (render_nat n) \<Longrightarrow> is_ascii_digit c"
proof (induction n rule: render_nat.induct)
  case (1 n)
  show ?case
  proof (cases "n < 10")
    case True
    with "1.prems" show ?thesis by (auto simp: render_nat.simps [of n] is_ascii_digit_def)
  next
    case False
    have "n mod 10 < 10" by simp
    with False 1 show ?thesis by (auto simp: render_nat.simps [of n] is_ascii_digit_def)
  qed
qed

lemma hd_render_nat_digit: "is_ascii_digit (hd (render_nat n))"
  by (rule render_nat_digits [OF hd_in_set]) simp

lemma render_nat_not: "\<not> is_ascii_digit c \<Longrightarrow> c \<notin> set (render_nat n)"
  using render_nat_digits by blast

subsection \<open>Parsing integers\<close>

text \<open>The value of a run of ASCII digits.\<close>

definition digits_value :: "rstr \<Rightarrow> nat" where
  "digits_value s = foldl (\<lambda>v c. v * 10 + (c - 48)) 0 s"

lemma digits_value_Nil [simp]: "digits_value [] = 0"
  by (simp add: digits_value_def)

lemma digits_value_snoc [simp]: "digits_value (s @ [c]) = digits_value s * 10 + (c - 48)"
  by (simp add: digits_value_def)

lemma digits_value_acc: "foldl (\<lambda>v c. v * 10 + (c - 48)) a s = a * 10 ^ length s + digits_value s"
proof (induction s rule: rev_induct)
  case Nil
  show ?case by simp
next
  case (snoc c s)
  then show ?case by (simp add: algebra_simps)
qed

lemma digits_value_append: "digits_value (s @ t) = digits_value s * 10 ^ length t + digits_value t"
proof -
  have "digits_value (s @ t) = foldl (\<lambda>v c. v * 10 + (c - 48)) (digits_value s) t"
    by (simp add: digits_value_def)
  then show ?thesis by (simp only: digits_value_acc)
qed

lemma digits_value_replicate_zero [simp]: "digits_value (replicate n 48) = 0"
proof (induction n)
  case (Suc n)
  have "replicate (Suc n) 48 = replicate n 48 @ [48 :: nat]" by (simp add: replicate_append_same)
  with Suc show ?case by (simp del: replicate.simps)
qed simp

lemma digits_value_render_nat [simp]: "digits_value (render_nat n) = n"
proof (induction n rule: render_nat.induct)
  case (1 n)
  show ?case
  proof (cases "n < 10")
    case True
    then show ?thesis by (simp add: render_nat.simps [of n] digits_value_def)
  next
    case False
    with 1 show ?thesis by (simp add: render_nat.simps [of n])
  qed
qed

lemma render_nat_inject [simp]: "render_nat m = render_nat n \<longleftrightarrow> m = n"
  by (metis digits_value_render_nat)

lemma digits_value_bound: "\<forall>c \<in> set s. is_ascii_digit c \<Longrightarrow> digits_value s < 10 ^ length s"
proof (induction s rule: rev_induct)
  case Nil
  show ?case by simp
next
  case (snoc c s)
  then have "digits_value s < 10 ^ length s" "c - 48 < 10" by (auto simp: is_ascii_digit_def)
  then have "digits_value s * 10 + (c - 48) < (digits_value s + 1) * 10" by simp
  also have "\<dots> \<le> 10 ^ length s * 10"
    using \<open>digits_value s < 10 ^ length s\<close> by (intro mult_right_mono) auto
  finally show ?case by (simp add: mult.commute)
qed

lemma length_render_nat: "n < 10 ^ k \<Longrightarrow> 0 < k \<Longrightarrow> length (render_nat n) \<le> k"
proof (induction n arbitrary: k rule: render_nat.induct)
  case (1 n)
  show ?case
  proof (cases "n < 10")
    case True
    with "1.prems" show ?thesis by (simp add: render_nat.simps [of n])
  next
    case False
    with "1.prems" have "k \<noteq> 1" by auto
    with "1.prems" obtain j where k: "k = Suc j" "0 < j" by (cases k) auto
    then have "n div 10 < 10 ^ j" using "1.prems" by (simp add: less_mult_imp_div_less mult.commute)
    with 1 False k show ?thesis by (simp add: render_nat.simps [of n])
  qed
qed

text \<open>
  \<^verbatim>\<open>str::parse\<close> on an unsigned and on a signed integer type: an optional sign (a minus
  only where the type is signed), at least one ASCII digit and nothing else, and the value in
  the type's range.
\<close>

definition parse_digits :: "rstr \<Rightarrow> nat option" where
  "parse_digits s = (if s \<noteq> [] \<and> list_all is_ascii_digit s then Some (digits_value s) else None)"

definition strip_plus :: "rstr \<Rightarrow> rstr" where
  "strip_plus s = (case s of [] \<Rightarrow> [] | c # r \<Rightarrow> if c = 43 then r else s)"

definition parse_unsigned :: "nat \<Rightarrow> rstr \<Rightarrow> nat option" where
  "parse_unsigned hi s =
     (case parse_digits (strip_plus s) of
        None \<Rightarrow> None
      | Some v \<Rightarrow> if v \<le> hi then Some v else None)"

definition parse_i128 :: "rstr \<Rightarrow> int option" where
  "parse_i128 s =
     (let (neg, body) = (case s of [] \<Rightarrow> (False, [])
                         | c # r \<Rightarrow> if c = 45 then (True, r) else (False, strip_plus s))
      in case parse_digits body of
           None \<Rightarrow> None
         | Some v \<Rightarrow>
             let n = (if neg then - int v else int v)
             in if i128_min \<le> n \<and> n \<le> i128_max then Some n else None)"

lemma parse_digits_render [simp]: "parse_digits (render_nat n) = Some n"
  by (auto simp: parse_digits_def list_all_iff dest: render_nat_digits)

lemma strip_plus_render [simp]: "strip_plus (render_nat n) = render_nat n"
  using hd_render_nat_digit [of n]
  by (cases "render_nat n") (auto simp: strip_plus_def is_ascii_digit_def)

lemma parse_unsigned_render: "n \<le> hi \<Longrightarrow> parse_unsigned hi (render_nat n) = Some n"
  by (simp add: parse_unsigned_def)

lemma parse_unsigned_le: "parse_unsigned hi s = Some n \<Longrightarrow> n \<le> hi"
  by (auto simp: parse_unsigned_def split: option.splits if_splits)

lemma render_nat_hd_ne: "render_nat n = c # r \<Longrightarrow> c \<noteq> 45"
  using hd_render_nat_digit [of n] by (auto simp: is_ascii_digit_def)

lemma parse_i128_render:
  assumes "i128_min \<le> n" and "n \<le> i128_max"
  shows "parse_i128 (render_int n) = Some n"
proof (cases "n < 0")
  case True
  with assms show ?thesis by (simp add: render_int_def parse_i128_def)
next
  case False
  obtain c r where r: "render_nat (nat n) = c # r"
    using render_nat_nonempty by (cases "render_nat (nat n)") auto
  have "parse_digits (c # r) = Some (nat n)" "strip_plus (c # r) = c # r"
    using parse_digits_render [of "nat n"] strip_plus_render [of "nat n"] by (simp_all add: r)
  moreover have "c \<noteq> 45" using r by (rule render_nat_hd_ne)
  ultimately show ?thesis using False assms by (simp add: render_int_def parse_i128_def r)
qed

lemma parse_i128_bounds: "parse_i128 s = Some n \<Longrightarrow> i128_min \<le> n \<and> n \<le> i128_max"
  by (auto simp: parse_i128_def Let_def split: list.splits option.splits if_splits)

lemma render_int_inject [simp]: "render_int m = render_int n \<longleftrightarrow> m = n"
proof
  assume eq: "render_int m = render_int n"
  have sgn: "45 # render_nat a \<noteq> render_nat b" "render_nat b \<noteq> 45 # render_nat a" for a b
    using render_nat_hd_ne [of b] by metis+
  show "m = n"
    using eq sgn by (auto simp: render_int_def split: if_splits)
qed simp

subsection \<open>Formatted messages\<close>

text \<open>
  A message the source builds with \<^verbatim>\<open>format!\<close> is the list of its parts: the literal
  text, and the interpolated values with the way each is shown (\<open>MStr\<close> for \<^verbatim>\<open>{}\<close> of a
  string, \<open>MDbg\<close> and \<open>MChr\<close> for \<^verbatim>\<open>{:?}\<close> of a string and of a character, \<open>MNat\<close> and
  \<open>MInt\<close> for integers, \<open>MNat02\<close> for \<^verbatim>\<open>{:02}\<close>).
\<close>

datatype msg_part =
    MLit string
  | MStr rstr
  | MDbg rstr
  | MChr uchar
  | MNat nat
  | MNat02 nat
  | MInt int

type_synonym msg = "msg_part list"

definition hex_digit :: "nat \<Rightarrow> uchar" where
  "hex_digit n = (if n < 10 then 48 + n else 87 + n)"

text \<open>\<^verbatim>\<open>{byte:02x}\<close>, and \<^verbatim>\<open>slice.join(sep)\<close>.\<close>

definition hex_byte :: "u8 \<Rightarrow> rstr" where
  "hex_byte b = [hex_digit (unat b div 16), hex_digit (unat b mod 16)]"

fun join :: "rstr \<Rightarrow> rstr list \<Rightarrow> rstr" where
  "join sep [] = []"
| "join sep [x] = x"
| "join sep (x # y # ys) = x @ sep @ join sep (y # ys)"

lemma hex_byte_inject: "hex_byte a = hex_byte b \<longleftrightarrow> a = b"
proof
  assume eq: "hex_byte a = hex_byte b"
  have inj: "hex_digit m = hex_digit n \<Longrightarrow> m < 16 \<Longrightarrow> n < 16 \<Longrightarrow> m = n" for m n
    by (auto simp: hex_digit_def split: if_splits)
  have "unat a div 16 < 16" "unat b div 16 < 16" by (simp_all add: less_mult_imp_div_less)
  with eq have "unat a div 16 = unat b div 16" "unat a mod 16 = unat b mod 16"
    by (auto simp: hex_byte_def intro: inj)
  then have "unat a = unat b" by (metis div_mult_mod_eq)
  then show "a = b" by (simp add: word_unat_eq_iff)
qed simp

end
