(* ===== verification/Codec.thy ===== *)
theory Codec
  imports Codepages
begin

section \<open>EBCDIC codecs: resolving a code page, decoding and encoding\<close>

text \<open>
  The model of \<^verbatim>\<open>src/codec.rs\<close>. A \<^verbatim>\<open>Codec\<close> is a reference to one of the static
  \<^verbatim>\<open>CODE_PAGES\<close>, so a codec is a member of that list. The lazily built, cached reverse map is
  the pure function \<open>reverse_map\<close> of its page. The interface other components use is the
  locale \<open>text_codec\<close>, interpreted at the end on \<open>decode\<close> and \<open>encode\<close>.
\<close>

definition DEFAULT_ENCODING :: rstr where
  "DEFAULT_ENCODING = lit ''cp037''"

record code_page =
  page_name :: rstr
  page_table :: "nat list"

type_synonym codec = code_page

definition CODE_PAGES :: "code_page list" where
  "CODE_PAGES = [
     \<lparr>page_name = lit ''cp037'', page_table = CP037\<rparr>,
     \<lparr>page_name = lit ''cp273'', page_table = CP273\<rparr>,
     \<lparr>page_name = lit ''cp424'', page_table = CP424\<rparr>,
     \<lparr>page_name = lit ''cp500'', page_table = CP500\<rparr>,
     \<lparr>page_name = lit ''cp875'', page_table = CP875\<rparr>,
     \<lparr>page_name = lit ''cp1026'', page_table = CP1026\<rparr>,
     \<lparr>page_name = lit ''cp1140'', page_table = CP1140\<rparr>]"

definition ALIASES :: "(rstr \<times> rstr) list" where
  "ALIASES = [
     (lit ''037'', lit ''cp037''),
     (lit ''ibm037'', lit ''cp037''),
     (lit ''ibm-037'', lit ''cp037''),
     (lit ''ebcdiccpus'', lit ''cp037''),
     (lit ''ebcdiccpca'', lit ''cp037''),
     (lit ''ebcdiccpwt'', lit ''cp037''),
     (lit ''ebcdiccpnl'', lit ''cp037''),
     (lit ''csibm037'', lit ''cp037''),
     (lit ''273'', lit ''cp273''),
     (lit ''ibm273'', lit ''cp273''),
     (lit ''csibm273'', lit ''cp273''),
     (lit ''424'', lit ''cp424''),
     (lit ''ibm424'', lit ''cp424''),
     (lit ''ebcdiccphe'', lit ''cp424''),
     (lit ''csibm424'', lit ''cp424''),
     (lit ''500'', lit ''cp500''),
     (lit ''ibm500'', lit ''cp500''),
     (lit ''ebcdiccpbe'', lit ''cp500''),
     (lit ''ebcdiccpch'', lit ''cp500''),
     (lit ''csibm500'', lit ''cp500''),
     (lit ''875'', lit ''cp875''),
     (lit ''ibm875'', lit ''cp875''),
     (lit ''ebcdicgreek'', lit ''cp875''),
     (lit ''1026'', lit ''cp1026''),
     (lit ''ibm1026'', lit ''cp1026''),
     (lit ''csibm1026'', lit ''cp1026''),
     (lit ''1140'', lit ''cp1140''),
     (lit ''ibm1140'', lit ''cp1140''),
     (lit ''ebcdicuscanadaeuro'', lit ''cp1140'')]"

text \<open>\<open>UndefinedByte\<close> carries the encoding, the byte and its index, as in the source.\<close>

datatype codec_error =
    UnknownEncoding rstr
  | UndefinedByte rstr u8 nat

definition supported_encodings :: "rstr list" where
  "supported_encodings = map page_name CODE_PAGES"

text \<open>\<^verbatim>\<open>Display for CodecError\<close>.\<close>

fun codec_error_message :: "codec_error \<Rightarrow> msg" where
  "codec_error_message (UnknownEncoding requested) =
     [MLit ''unknown EBCDIC code page '', MDbg requested, MLit ''; this build carries '',
      MStr (join (lit '', '') supported_encodings)]"
| "codec_error_message (UndefinedByte encoding byte index) =
     [MLit ''byte 0x'', MStr (hex_byte byte), MLit '' at index '', MNat index,
      MLit '' is unassigned in '', MStr encoding]"

subsection \<open>Resolving a name\<close>

definition normalize :: "rstr \<Rightarrow> rstr" where
  "normalize name =
     concat (map lower_char (filter (\<lambda>c. \<not> (c = 45 \<or> c = 95 \<or> c = 32 \<or> c = 46)) name))"

definition resolve_codec :: "rstr \<Rightarrow> codec_error + codec" where
  "resolve_codec name =
     (let wanted = (if trim name = [] then DEFAULT_ENCODING else trim name);
          key = normalize wanted;
          canonical = (case find (\<lambda>(a, _). a = key) ALIASES of None \<Rightarrow> key | Some (_, c) \<Rightarrow> c)
      in ok_or (UnknownEncoding wanted) (find (\<lambda>page. page_name page = canonical) CODE_PAGES))"

subsection \<open>Decoding and encoding\<close>

text \<open>
  The loop of \<^verbatim>\<open>Codec::decode\<close> with its running index. The table is indexed by a byte,
  so the index is below 256 and every table has 256 entries.
\<close>

fun decode_from :: "codec \<Rightarrow> nat \<Rightarrow> u8 list \<Rightarrow> codec_error + rstr" where
  "decode_from c index [] = Inr []"
| "decode_from c index (byte # rest) =
     (let scalar = page_table c ! unat byte in
      if scalar = UNDEFINED then Inl (UndefinedByte (page_name c) byte index)
      else rbind (decode_from c (Suc index) rest)
             (\<lambda>out. Inr ((case char_from_u32 scalar of None \<Rightarrow> 0xFFFD | Some ch \<Rightarrow> ch) # out)))"

definition decode :: "codec \<Rightarrow> u8 list \<Rightarrow> codec_error + rstr" where
  "decode c bytes = decode_from c 0 bytes"

text \<open>
  \<^verbatim>\<open>reverse_map\<close>: bytes in ascending order, an entry written only where the scalar has
  none yet (\<^verbatim>\<open>entry(..).or_insert_with(..)\<close>), so the lowest byte wins.
\<close>

definition reverse_map :: "codec \<Rightarrow> nat \<Rightarrow> u8 option" where
  "reverse_map c =
     foldl (\<lambda>m (byte, scalar).
              if scalar \<noteq> UNDEFINED \<and> m scalar = None then m(scalar \<mapsto> word_of_nat byte) else m)
           Map.empty (enumerate 0 (page_table c))"

definition encode_char :: "codec \<Rightarrow> uchar \<Rightarrow> uchar + u8" where
  "encode_char c ch = ok_or ch (if ch < 65536 then reverse_map c ch else None)"

definition encode :: "codec \<Rightarrow> rstr \<Rightarrow> uchar + u8 list" where
  "encode c s = rmap (encode_char c) s"

subsection \<open>Code pages are well formed\<close>

lemma CODE_PAGES_well_formed: "c \<in> set CODE_PAGES \<Longrightarrow> well_formed_table (page_table c)"
  by (auto simp: CODE_PAGES_def well_formed_tables)

lemma table_length: "c \<in> set CODE_PAGES \<Longrightarrow> length (page_table c) = 256"
  by (drule CODE_PAGES_well_formed) (simp add: well_formed_table_def)

lemma table_index: "c \<in> set CODE_PAGES \<Longrightarrow> unat (b :: u8) < length (page_table c)"
  by (simp add: table_length)

lemma table_scalar:
  "c \<in> set CODE_PAGES \<Longrightarrow> s \<in> set (page_table c) \<Longrightarrow> s \<noteq> UNDEFINED \<Longrightarrow> s < 55296"
  by (drule CODE_PAGES_well_formed) (auto simp: well_formed_table_def list_all_iff)

lemma char_from_table:
  "c \<in> set CODE_PAGES \<Longrightarrow> page_table c ! unat b \<noteq> UNDEFINED \<Longrightarrow>
     char_from_u32 (page_table c ! unat (b :: u8)) = Some (page_table c ! unat b)"
  using table_scalar [OF _ nth_mem [OF table_index]] by (simp add: char_from_u32_def)

subsection \<open>What decoding computes\<close>

lemma decode_from_Inr_iff:
  assumes "c \<in> set CODE_PAGES"
  shows "decode_from c i bs = Inr t \<longleftrightarrow>
     t = map (\<lambda>b. page_table c ! unat b) bs \<and> UNDEFINED \<notin> set t"
proof (induction bs arbitrary: i t)
  case Nil
  show ?case by auto
next
  case (Cons b bs)
  show ?case
  proof (cases "page_table c ! unat b = UNDEFINED")
    case True
    then show ?thesis by (auto simp: Let_def)
  next
    case False
    then show ?thesis
      using assms Cons.IH by (auto simp: Let_def result_simps char_from_table)
  qed
qed

lemma decode_Inr_iff:
  assumes "c \<in> set CODE_PAGES"
  shows "decode c bs = Inr t \<longleftrightarrow>
     t = map (\<lambda>b. page_table c ! unat b) bs \<and> UNDEFINED \<notin> set t"
  using assms by (simp add: decode_def decode_from_Inr_iff)

lemma decode_from_Inl:
  assumes "c \<in> set CODE_PAGES"
  shows "decode_from c i bs = Inl (UndefinedByte enc b k) \<longleftrightarrow>
     enc = page_name c \<and> i \<le> k \<and> k - i < length bs \<and> bs ! (k - i) = b \<and>
     page_table c ! unat b = UNDEFINED \<and>
     (\<forall>j < k - i. page_table c ! unat (bs ! j) \<noteq> UNDEFINED)"
proof (induction bs arbitrary: i)
  case Nil
  show ?case by simp
next
  case (Cons x xs)
  show ?case
  proof (cases "page_table c ! unat x = UNDEFINED")
    case True
    then show ?thesis
      by (cases "k - i") (auto simp: Let_def)
  next
    case False
    have "(k - i < length (x # xs) \<and> (x # xs) ! (k - i) = b \<and> page_table c ! unat b = UNDEFINED \<and>
        (\<forall>j < k - i. page_table c ! unat ((x # xs) ! j) \<noteq> UNDEFINED) \<and> i \<le> k) \<longleftrightarrow>
      (Suc i \<le> k \<and> k - Suc i < length xs \<and> xs ! (k - Suc i) = b \<and>
        page_table c ! unat b = UNDEFINED \<and>
        (\<forall>j < k - Suc i. page_table c ! unat (xs ! j) \<noteq> UNDEFINED))" (is "?l \<longleftrightarrow> ?r")
    proof (cases "k - i")
      case 0
      with False show ?thesis by auto
    next
      case (Suc m)
      then have "m = k - Suc i" "Suc i \<le> k" by auto
      with Suc False show ?thesis by (auto simp: less_Suc_eq_0_disj)
    qed
    moreover have "decode_from c i (x # xs) = Inl (UndefinedByte enc b k) \<longleftrightarrow>
        decode_from c (Suc i) xs = Inl (UndefinedByte enc b k)"
      using False by (auto simp: Let_def result_simps)
    ultimately show ?thesis using Cons.IH [of "Suc i"] by blast
  qed
qed

lemma decode_from_error: "decode_from c i bs \<noteq> Inl (UnknownEncoding n)"
  by (induction bs arbitrary: i) (auto simp: Let_def result_simps)

subsection \<open>The reverse map\<close>

text \<open>The first index of an element, when one more is put behind the list.\<close>

lemma least_index_snoc:
  assumes "s \<in> set xs \<or> s = x"
  shows "(LEAST i. i < Suc (length xs) \<and> (xs @ [x]) ! i = s) =
    (if s \<in> set xs then (LEAST i. i < length xs \<and> xs ! i = s) else length xs)"
proof (cases "s \<in> set xs")
  case True
  then obtain k where k: "k < length xs" "xs ! k = s" by (auto simp: in_set_conv_nth)
  define l where "l = (LEAST i. i < length xs \<and> xs ! i = s)"
  have l: "l < length xs" "xs ! l = s"
    using LeastI [of "\<lambda>i. i < length xs \<and> xs ! i = s" k] k by (simp_all add: l_def)
  have le: "l \<le> j" if "j < length xs" "xs ! j = s" for j
    unfolding l_def using that by (intro Least_le) simp
  have "(LEAST i. i < Suc (length xs) \<and> (xs @ [x]) ! i = s) = l"
  proof (rule Least_equality)
    show "l < Suc (length xs) \<and> (xs @ [x]) ! l = s" using l by (simp add: nth_append)
  next
    fix j assume "j < Suc (length xs) \<and> (xs @ [x]) ! j = s"
    then show "l \<le> j" using l le [of j] by (cases "j < length xs") (simp_all add: nth_append)
  qed
  with True show ?thesis by (simp add: l_def)
next
  case False
  with assms show ?thesis
    by (auto simp: nth_append less_Suc_eq intro!: Least_equality split: if_splits)
qed

lemma reverse_fold_invariant:
  assumes "length xs \<le> 256"
  shows "foldl (\<lambda>m (byte, scalar).
            if scalar \<noteq> UNDEFINED \<and> m scalar = None then m(scalar \<mapsto> (word_of_nat byte :: u8)) else m)
           Map.empty (enumerate 0 xs) s =
         (if s \<noteq> UNDEFINED \<and> s \<in> set xs
          then Some (word_of_nat (LEAST i. i < length xs \<and> xs ! i = s)) else None)"
  using assms
proof (induction xs arbitrary: s rule: rev_induct)
  case Nil
  show ?case by simp
next
  case (snoc x xs)
  let ?step = "\<lambda>m (byte, scalar).
    if scalar \<noteq> UNDEFINED \<and> m scalar = None then m(scalar \<mapsto> (word_of_nat byte :: u8)) else m"
  define m where "m = foldl ?step Map.empty (enumerate 0 xs)"
  have m: "m t = (if t \<noteq> UNDEFINED \<and> t \<in> set xs
      then Some (word_of_nat (LEAST i. i < length xs \<and> xs ! i = t)) else None)" for t
    using snoc by (simp add: m_def)
  have step: "foldl ?step Map.empty (enumerate 0 (xs @ [x])) =
      (if x \<noteq> UNDEFINED \<and> m x = None then m(x \<mapsto> word_of_nat (length xs)) else m)"
    by (simp add: enumerate_append_eq m_def)
  have len: "length (xs @ [x]) = Suc (length xs)" by simp
  show ?case
  proof (cases "s \<noteq> UNDEFINED \<and> s \<in> set (xs @ [x])")
    case False
    then show ?thesis unfolding step using m [of s] by auto
  next
    case True
    then have l: "(LEAST i. i < Suc (length xs) \<and> (xs @ [x]) ! i = s) =
        (if s \<in> set xs then (LEAST i. i < length xs \<and> xs ! i = s) else length xs)"
      by (intro least_index_snoc) auto
    show ?thesis unfolding step len l using True m [of s] m [of x] by (cases "s \<in> set xs") auto
  qed
qed

lemma reverse_map_eq:
  assumes "c \<in> set CODE_PAGES"
  shows "reverse_map c s =
     (if s \<noteq> UNDEFINED \<and> s \<in> set (page_table c)
      then Some (word_of_nat (LEAST i. i < 256 \<and> page_table c ! i = s)) else None)"
  using assms reverse_fold_invariant [of "page_table c" s]
  by (simp add: reverse_map_def table_length)

lemma reverse_map_Some:
  assumes "c \<in> set CODE_PAGES" and "reverse_map c s = Some b"
  shows "page_table c ! unat b = s" and "s \<noteq> UNDEFINED"
    and "\<And>b'. page_table c ! unat (b' :: u8) = s \<Longrightarrow> unat b \<le> unat b'"
proof -
  let ?i = "LEAST i. i < 256 \<and> page_table c ! i = s"
  from assms have s: "s \<noteq> UNDEFINED" "s \<in> set (page_table c)" and b: "b = word_of_nat ?i"
    by (auto simp: reverse_map_eq split: if_splits)
  from s(2) obtain k where "k < 256 \<and> page_table c ! k = s"
    using assms(1) by (auto simp: in_set_conv_nth table_length)
  then have i: "?i < 256 \<and> page_table c ! ?i = s" by (rule LeastI)
  then have ub: "unat b = ?i" by (simp add: b unat_of_nat)
  show "page_table c ! unat b = s" using i ub by simp
  show "s \<noteq> UNDEFINED" by (rule s)
  show "unat b \<le> unat b'" if "page_table c ! unat (b' :: u8) = s" for b'
    unfolding ub using that by (intro Least_le) simp
qed

lemma reverse_map_table:
  assumes "c \<in> set CODE_PAGES" and "page_table c ! unat (b :: u8) \<noteq> UNDEFINED"
  shows "\<exists>b'. reverse_map c (page_table c ! unat b) = Some b'"
  using assms nth_mem [OF table_index [OF assms(1)]] by (simp add: reverse_map_eq)

subsection \<open>The codec interface\<close>

text \<open>
  What the field decoders rely on: encoding is undone by decoding, whatever decodes can be
  encoded again, decoding is byte by byte, and it yields one character per byte. The client
  lemmas are proved from these laws alone.
\<close>

locale text_codec =
  fixes carried :: "'c \<Rightarrow> bool"
    and dec :: "'c \<Rightarrow> u8 list \<Rightarrow> 'e + rstr"
    and enc :: "'c \<Rightarrow> rstr \<Rightarrow> uchar + u8 list"
  assumes dec_enc: "carried c \<Longrightarrow> enc c t = Inr bs \<Longrightarrow> dec c bs = Inr t"
    and enc_dec: "carried c \<Longrightarrow> dec c bs = Inr t \<Longrightarrow> \<exists>bs'. enc c t = Inr bs'"
    and dec_append: "carried c \<Longrightarrow>
      dec c (bs @ bs') = Inr t \<longleftrightarrow> (\<exists>u v. dec c bs = Inr u \<and> dec c bs' = Inr v \<and> t = u @ v)"
    and dec_length: "carried c \<Longrightarrow> dec c bs = Inr t \<Longrightarrow> length t = length bs"
begin

lemma enc_length: "carried c \<Longrightarrow> enc c t = Inr bs \<Longrightarrow> length bs = length t"
  using dec_enc dec_length by metis

lemma enc_inject: "carried c \<Longrightarrow> enc c t = Inr bs \<Longrightarrow> enc c u = Inr bs \<Longrightarrow> t = u"
  using dec_enc by (metis sum.inject(2))

lemma dec_normal_form:
  assumes "carried c" and "dec c bs = Inr t"
  shows "\<exists>bs'. enc c t = Inr bs' \<and> dec c bs' = Inr t \<and> length bs' = length bs"
  using assms enc_dec dec_enc dec_length by metis

lemma dec_prefix: "carried c \<Longrightarrow> dec c (bs @ bs') = Inr t \<Longrightarrow> dec c bs = Inr (take (length bs) t)"
  using dec_append dec_length by fastforce

end

text \<open>A codec whose pages are one-to-one: every byte string decodes, and encoding gives back its bytes.\<close>

locale bijective_codec = text_codec +
  assumes dec_total: "carried c \<Longrightarrow> \<exists>t. dec c bs = Inr t"
    and enc_back: "carried c \<Longrightarrow> dec c bs = Inr t \<Longrightarrow> enc c t = Inr bs"
begin

lemma bytes_roundtrip: "carried c \<Longrightarrow> \<exists>t. dec c bs = Inr t \<and> enc c t = Inr bs"
  using dec_total enc_back by blast

lemma dec_inject: "carried c \<Longrightarrow> dec c bs = Inr t \<Longrightarrow> dec c bs' = Inr t \<Longrightarrow> bs = bs'"
  using enc_back by (metis sum.inject(2))

lemma enc_iff_dec: "carried c \<Longrightarrow> enc c t = Inr bs \<longleftrightarrow> dec c bs = Inr t"
  using enc_back dec_enc by blast

end

lemma encode_Inr_decode:
  assumes "c \<in> set CODE_PAGES" and "encode c t = Inr bs"
  shows "decode c bs = Inr t"
proof -
  have rel: "list_all2 (\<lambda>ch b. encode_char c ch = Inr b) t bs"
    using assms(2) by (simp add: encode_def rmap_Inr_list_all2)
  have "page_table c ! unat b = ch \<and> ch \<noteq> UNDEFINED" if "encode_char c ch = Inr b" for ch b
    using that assms(1)
    by (auto simp: encode_char_def result_simps reverse_map_Some split: if_splits)
  with rel have "list_all2 (\<lambda>ch b. page_table c ! unat b = ch \<and> ch \<noteq> UNDEFINED) t bs"
    by (rule list_all2_mono)
  then have "t = map (\<lambda>b. page_table c ! unat b) bs \<and> UNDEFINED \<notin> set t"
    by (induction rule: list_all2_induct) auto
  then show ?thesis using decode_Inr_iff [OF assms(1)] by blast
qed

lemma decode_Inr_encode:
  assumes "c \<in> set CODE_PAGES" and "decode c bs = Inr t"
  shows "\<exists>bs'. encode c t = Inr bs'"
proof -
  have "\<exists>b. encode_char c ch = Inr b" if ch: "ch \<in> set t" for ch
  proof -
    from assms have t: "t = map (\<lambda>b. page_table c ! unat b) bs" "UNDEFINED \<notin> set t"
      by (auto simp: decode_Inr_iff)
    with ch obtain b :: u8 where b: "ch = page_table c ! unat b" by auto
    moreover from ch t(2) have "ch \<noteq> UNDEFINED" by auto
    ultimately have b: "ch = page_table c ! unat b" "ch \<noteq> UNDEFINED" by simp_all
    then obtain b' where "reverse_map c ch = Some b'"
      using reverse_map_table [OF assms(1)] by blast
    moreover have "ch < 65536"
      using table_scalar [OF assms(1) nth_mem [OF table_index [OF assms(1), of b]]] b by simp
    ultimately show ?thesis by (simp add: encode_char_def)
  qed
  then obtain g where "\<And>ch. ch \<in> set t \<Longrightarrow> encode_char c ch = Inr (g ch)" by metis
  then show ?thesis unfolding encode_def by (metis rmap_total)
qed

interpretation pages: text_codec "\<lambda>c. c \<in> set CODE_PAGES" decode encode
proof
  fix c bs bs' t
  assume c: "c \<in> set CODE_PAGES"
  show "decode c (bs @ bs') = Inr t \<longleftrightarrow>
      (\<exists>u v. decode c bs = Inr u \<and> decode c bs' = Inr v \<and> t = u @ v)"
    using c by (auto simp: decode_Inr_iff)
  show "decode c bs = Inr t \<Longrightarrow> length t = length bs"
    using c by (simp add: decode_Inr_iff)
  show "decode c bs = Inr t \<Longrightarrow> \<exists>bs'. encode c t = Inr bs'"
    by (rule decode_Inr_encode [OF c])
  show "encode c t = Inr bs \<Longrightarrow> decode c bs = Inr t"
    by (rule encode_Inr_decode [OF c])
qed

subsection \<open>Pages that are one-to-one\<close>

lemma decode_encode_injective:
  assumes c: "c \<in> set CODE_PAGES" and inj: "distinct (page_table c)"
    and dec: "decode c bs = Inr t"
  shows "encode c t = Inr bs"
proof -
  obtain bs' where bs': "encode c t = Inr bs'" "decode c bs' = Inr t"
    using pages.dec_normal_form [OF c dec] by blast
  have "map (\<lambda>b. page_table c ! unat b) bs = map (\<lambda>b. page_table c ! unat b) bs'"
    using dec bs'(2) c by (auto simp: decode_Inr_iff)
  moreover have "inj (\<lambda>b :: u8. page_table c ! unat b)"
    by (rule injI)
      (simp add: nth_eq_iff_index_eq [OF inj table_index [OF c] table_index [OF c]] word_unat_eq_iff)
  ultimately have "bs = bs'" by (simp add: inj_map_eq_map)
  with bs' show ?thesis by simp
qed

definition bijective_pages :: "rstr list" where
  "bijective_pages = [lit ''cp037'', lit ''cp273'', lit ''cp500'', lit ''cp1026'', lit ''cp1140'']"

lemma bijective_pages_distinct:
  "c \<in> set CODE_PAGES \<Longrightarrow> page_name c \<in> set bijective_pages \<Longrightarrow>
     distinct (page_table c) \<and> UNDEFINED \<notin> set (page_table c)"
  by (auto simp: CODE_PAGES_def bijective_pages_def lit_def distinct_tables assigned_tables)

interpretation bijective: bijective_codec
  "\<lambda>c. c \<in> set CODE_PAGES \<and> page_name c \<in> set bijective_pages" decode encode
proof
  fix c bs bs' t
  assume a: "c \<in> set CODE_PAGES \<and> page_name c \<in> set bijective_pages"
  then have c: "c \<in> set CODE_PAGES" and tab: "distinct (page_table c)" "UNDEFINED \<notin> set (page_table c)"
    using bijective_pages_distinct by simp_all
  show "encode c t = Inr bs \<Longrightarrow> decode c bs = Inr t" by (rule pages.dec_enc [OF c])
  show "decode c bs = Inr t \<Longrightarrow> \<exists>bs'. encode c t = Inr bs'" by (rule pages.enc_dec [OF c])
  show "decode c (bs @ bs') = Inr t \<longleftrightarrow>
      (\<exists>u v. decode c bs = Inr u \<and> decode c bs' = Inr v \<and> t = u @ v)" by (rule pages.dec_append [OF c])
  show "decode c bs = Inr t \<Longrightarrow> length t = length bs" by (rule pages.dec_length [OF c])
  have "UNDEFINED \<notin> set (map (\<lambda>b. page_table c ! unat b) bs)"
    using tab(2) nth_mem [OF table_index [OF c]] by (metis (no_types, lifting) ex_map_conv)
  then show "\<exists>t. decode c bs = Inr t" using decode_Inr_iff [OF c] by blast
  show "decode c bs = Inr t \<Longrightarrow> encode c t = Inr bs" by (rule decode_encode_injective [OF c tab(1)])
qed

subsection \<open>Resolving names\<close>

lemma normalize_no_hyphen: "c \<in> set (normalize s) \<Longrightarrow> c \<noteq> 45"
  by (auto simp: normalize_def lower_char_def split: if_splits)

lemma resolve_codec_carried: "resolve_codec n = Inr c \<Longrightarrow> c \<in> set CODE_PAGES"
  by (auto simp: resolve_codec_def Let_def result_simps find_Some_iff)

lemmas CODE_PAGES_names = CODE_PAGES_def lit_def

lemma names_trimmed:
  "c \<in> set CODE_PAGES \<Longrightarrow> trim (page_name c) = page_name c \<and> page_name c \<noteq> []"
  by (auto simp: CODE_PAGES_names trim_def is_whitespace_def)

lemma names_normal: "c \<in> set CODE_PAGES \<Longrightarrow> normalize (page_name c) = page_name c"
  by (auto simp: CODE_PAGES_names normalize_def lower_char_def)

lemma names_no_alias:
  "c \<in> set CODE_PAGES \<Longrightarrow> find (\<lambda>(a, _). a = page_name c) ALIASES = None"
  by (auto simp: CODE_PAGES_names ALIASES_def)

lemma distinct_names: "distinct (map page_name CODE_PAGES)"
  by (simp add: CODE_PAGES_names)

lemma find_page: "c \<in> set CODE_PAGES \<Longrightarrow> find (\<lambda>p. page_name p = page_name c) CODE_PAGES = Some c"
  by (rule distinct_map_find [OF distinct_names])

lemma resolve_canonical: "c \<in> set CODE_PAGES \<Longrightarrow> resolve_codec (page_name c) = Inr c"
  by (simp add: resolve_codec_def Let_def names_trimmed names_normal names_no_alias find_page)

subsection \<open>Properties\<close>

text \<open>
  C32. Round trip: for every carried code page, text the encoder accepts decodes to itself, one
  byte per character.
\<close>

theorem codec_roundtrip:
  assumes "c \<in> set CODE_PAGES" and "encode c t = Inr bs"
  shows "decode c bs = Inr t \<and> length bs = length t"
  using assms by (simp add: pages.dec_enc pages.enc_length)

theorem codec_roundtrip_witness:
  "decode (CODE_PAGES ! 0) [0xc1, 0xf5] = Inr (lit ''A5'') \<and>
   length [0xc1, 0xf5 :: u8] = length (lit ''A5'')"
proof -
  have c: "CODE_PAGES ! 0 \<in> set CODE_PAGES" by (simp add: CODE_PAGES_def)
  have "decode (CODE_PAGES ! 0) [0xc1, 0xf5] = Inr (lit ''A5'')"
    by (simp add: decode_Inr_iff [OF c]) (simp add: CODE_PAGES_def CP037_def lit_def UNDEFINED_def)
  then have "encode (CODE_PAGES ! 0) (lit ''A5'') = Inr [0xc1, 0xf5]"
    by (rule decode_encode_injective [OF c, rotated]) (simp add: CODE_PAGES_def distinct_CP037)
  then show ?thesis by (rule codec_roundtrip [OF c])
qed

text \<open>
  The one-to-one code pages (cp037, cp273, cp500, cp1026 and cp1140) decode every byte string,
  and encoding gives back the very bytes: no two byte strings decode to the same text.
\<close>

theorem bijective_page_roundtrip:
  assumes "c \<in> set CODE_PAGES" and "page_name c \<in> set bijective_pages"
  shows "\<exists>t. decode c bs = Inr t \<and> encode c t = Inr bs"
  using bijective.bytes_roundtrip assms by blast

theorem bijective_page_roundtrip_witness:
  "\<exists>t. decode (CODE_PAGES ! 6) [0x9f, 0xff] = Inr t \<and> encode (CODE_PAGES ! 6) t = Inr [0x9f, 0xff]"
  by (rule bijective_page_roundtrip) (simp_all add: CODE_PAGES_def bijective_pages_def)

text \<open>
  C36. Strict decoding: decoding fails exactly on a byte string with an unassigned byte, and the
  error names the code page, the first such byte and its index.
\<close>

theorem decode_strict:
  assumes "c \<in> set CODE_PAGES"
  shows "decode c bs = Inl e \<longleftrightarrow>
    (\<exists>k < length bs. e = UndefinedByte (page_name c) (bs ! k) k \<and>
       page_table c ! unat (bs ! k) = UNDEFINED \<and>
       (\<forall>j < k. page_table c ! unat (bs ! j) \<noteq> UNDEFINED))"
  using assms decode_from_Inl [OF assms, of 0 bs] decode_from_error [of c 0 bs]
  by (cases e) (auto simp: decode_def)

theorem decode_strict_witness:
  "decode (CODE_PAGES ! 2) [0xc1, 0x70, 0x70] = Inl (UndefinedByte (lit ''cp424'') 0x70 1)"
proof -
  have c: "CODE_PAGES ! 2 \<in> set CODE_PAGES" by (simp add: CODE_PAGES_def)
  show ?thesis
    by (subst decode_strict [OF c], intro exI [of _ 1])
       (simp add: CODE_PAGES_def CP424_def UNDEFINED_def)
qed

text \<open>
  Name resolution only ever yields a carried code page, resolving its canonical name again
  gives the same page, and a blank name selects cp037; every name \<open>GetServiceInfo\<close> reports
  resolves to the page of that name.
\<close>

theorem resolve_codec_correct:
  "(resolve_codec n = Inr c \<longrightarrow> c \<in> set CODE_PAGES \<and> resolve_codec (page_name c) = Inr c) \<and>
   (trim n = [] \<longrightarrow> resolve_codec n = Inr (CODE_PAGES ! 0)) \<and>
   (n \<in> set supported_encodings \<longrightarrow> (\<exists>c. resolve_codec n = Inr c \<and> page_name c = n))"
proof (intro conjI impI)
  assume "resolve_codec n = Inr c"
  then show "c \<in> set CODE_PAGES" by (rule resolve_codec_carried)
  then show "resolve_codec (page_name c) = Inr c" by (rule resolve_canonical)
next
  assume "trim n = []"
  moreover have "resolve_codec (page_name (CODE_PAGES ! 0)) = Inr (CODE_PAGES ! 0)"
    by (rule resolve_canonical) (simp add: CODE_PAGES_def)
  moreover have "page_name (CODE_PAGES ! 0) = DEFAULT_ENCODING"
    by (simp add: CODE_PAGES_def DEFAULT_ENCODING_def)
  moreover have "trim DEFAULT_ENCODING = DEFAULT_ENCODING" "DEFAULT_ENCODING \<noteq> []"
    by (simp_all add: DEFAULT_ENCODING_def lit_def trim_def is_whitespace_def)
  ultimately show "resolve_codec n = Inr (CODE_PAGES ! 0)" by (simp add: resolve_codec_def)
next
  assume "n \<in> set supported_encodings"
  then obtain p where "p \<in> set CODE_PAGES" "page_name p = n" by (auto simp: supported_encodings_def)
  then show "\<exists>c. resolve_codec n = Inr c \<and> page_name c = n" using resolve_canonical by blast
qed

theorem resolve_codec_correct_witness:
  "resolve_codec (lit '' IBM-037 '') = Inr (CODE_PAGES ! 0) \<and>
   resolve_codec (page_name (CODE_PAGES ! 0)) = Inr (CODE_PAGES ! 0) \<and>
   resolve_codec [] = Inr (CODE_PAGES ! 0)"
proof -
  have "resolve_codec (lit '' IBM-037 '') = Inr (CODE_PAGES ! 0)"
    by (simp add: resolve_codec_def lit_def trim_def is_whitespace_def normalize_def lower_char_def
        ALIASES_def CODE_PAGES_def)
  moreover have "trim [] = []" by (simp add: trim_def)
  ultimately show ?thesis
    using resolve_codec_correct [of "lit '' IBM-037 ''" "CODE_PAGES ! 0"] resolve_codec_correct [of "[]"]
    by simp
qed

end
