(* ===== verification/Errors.thy ===== *)
theory Errors
  imports Codec
begin

section \<open>The error type and its gRPC status codes\<close>

text \<open>
  The model of \<^verbatim>\<open>src/error.rs\<close>: the five constructors of \<^verbatim>\<open>ParseError\<close>, each with
  its message, and their single mapping onto gRPC status codes. A message is the list of the
  parts \<^verbatim>\<open>format!\<close> puts together (\<open>Rust_Text\<close>).
\<close>

datatype parse_error =
    Invalid msg
  | Unsupported msg
  | Exhausted msg
  | TimedOut msg
  | Internal msg

datatype grpc_code =
    InvalidArgument
  | Unimplemented
  | ResourceExhausted
  | DeadlineExceeded
  | InternalCode

fun code :: "parse_error \<Rightarrow> grpc_code" where
  "code (Invalid _) = InvalidArgument"
| "code (Unsupported _) = Unimplemented"
| "code (Exhausted _) = ResourceExhausted"
| "code (TimedOut _) = DeadlineExceeded"
| "code (Internal _) = InternalCode"

text \<open>\<^verbatim>\<open>Display\<close> writes the message, whatever the constructor.\<close>

fun message :: "parse_error \<Rightarrow> msg" where
  "message (Invalid m) = m"
| "message (Unsupported m) = m"
| "message (Exhausted m) = m"
| "message (TimedOut m) = m"
| "message (Internal m) = m"

type_synonym status = "grpc_code \<times> msg"

text \<open>\<^verbatim>\<open>impl From<ParseError> for tonic::Status\<close>.\<close>

definition to_status :: "parse_error \<Rightarrow> status" where
  "to_status e = (code e, message e)"

text \<open>\<^verbatim>\<open>impl From<CodecError> for ParseError\<close>: both codec failures are the caller's.\<close>

definition from_codec_error :: "codec_error \<Rightarrow> parse_error" where
  "from_codec_error e = Invalid (codec_error_message e)"

lemma to_status_inject: "to_status e = to_status f \<longleftrightarrow> e = f"
  by (cases e; cases f) (simp_all add: to_status_def)

lemma code_from_codec_error [simp]: "code (from_codec_error e) = InvalidArgument"
  by (simp add: from_codec_error_def)

end
