(* ===== verification/Wire.thy ===== *)
theory Wire
  imports Errors
begin

section \<open>The protobuf messages of ai.pipestream.ebcdic.v1\<close>

text \<open>
  The messages of \<^verbatim>\<open>proto/ai/pipestream/ebcdic/v1\<close> as the Rust code sees them: an
  \<^verbatim>\<open>optional\<close> scalar is an \<open>option\<close>, a \<^verbatim>\<open>repeated\<close> field a list, a \<^verbatim>\<open>oneof\<close> a
  datatype, an enum field the \<^verbatim>\<open>i32\<close> it is carried as. Unsigned integers are natural
  numbers; what bounds them is stated where the code relies on it.
\<close>

datatype field_type =
    TypeUnspecified
  | TypeString
  | TypeInteger
  | TypeUnsignedInteger
  | TypePackedDecimal
  | TypeZonedDecimal
  | TypeSkip

fun field_type_number :: "field_type \<Rightarrow> int" where
  "field_type_number TypeUnspecified = 0"
| "field_type_number TypeString = 1"
| "field_type_number TypeInteger = 2"
| "field_type_number TypeUnsignedInteger = 3"
| "field_type_number TypePackedDecimal = 4"
| "field_type_number TypeZonedDecimal = 5"
| "field_type_number TypeSkip = 6"

lemma UNIV_field_type:
  "UNIV = {TypeUnspecified, TypeString, TypeInteger, TypeUnsignedInteger, TypePackedDecimal,
     TypeZonedDecimal, TypeSkip}"
  using field_type.exhaust by blast

instantiation field_type :: enum
begin

definition enum_field_type :: "field_type list" where
  "enum_field_type =
     [TypeUnspecified, TypeString, TypeInteger, TypeUnsignedInteger, TypePackedDecimal,
      TypeZonedDecimal, TypeSkip]"

definition enum_all_field_type :: "(field_type \<Rightarrow> bool) \<Rightarrow> bool" where
  "enum_all_field_type P \<longleftrightarrow> list_all P enum_class.enum"

definition enum_ex_field_type :: "(field_type \<Rightarrow> bool) \<Rightarrow> bool" where
  "enum_ex_field_type P \<longleftrightarrow> list_ex P enum_class.enum"

instance
  by standard (auto simp: UNIV_field_type enum_field_type_def enum_all_field_type_def enum_ex_field_type_def)

end

text \<open>\<^verbatim>\<open>FieldType::try_from(i32)\<close>.\<close>

definition field_type_try_from :: "int \<Rightarrow> field_type option" where
  "field_type_try_from n = find (\<lambda>t. field_type_number t = n) enum_class.enum"

lemma field_type_try_from_number [simp]: "field_type_try_from (field_type_number t) = Some t"
  by (cases t) (simp_all add: field_type_try_from_def enum_field_type_def)

lemma field_type_number_inject [simp]: "field_type_number s = field_type_number t \<longleftrightarrow> s = t"
  by (metis field_type_try_from_number option.inject)

datatype layout_source =
    SourceUnspecified
  | SourceProto
  | SourceJson
  | SourceCopybook

subsection \<open>The request\<close>

record ebcdic_field =
  ef_name :: rstr
  ef_size :: nat
  ef_type :: int
  ef_scale :: nat
  ef_picture :: rstr
  ef_offset :: "nat option"

record ebcdic_record_layout =
  erl_fields :: "ebcdic_field list"
  erl_name :: rstr
  erl_selector :: "rstr option"

record ebcdic_layout =
  el_records :: "ebcdic_record_layout list"
  el_description :: rstr
  el_header_size :: nat
  el_footer_size :: nat
  el_record_length_field :: "ebcdic_field option"
  el_record_type_field :: "ebcdic_field option"

datatype layout_form =
    LayoutForm ebcdic_layout
  | LayoutJson "u8 list"
  | CopybookForm rstr

record parse_options =
  po_encoding :: rstr
  po_layout_source :: "layout_form option"
  po_max_records :: nat
  po_strip_control_characters :: "bool option"
  po_abort_on_error :: bool
  po_max_document_mib :: nat
  po_emit_document :: bool

datatype request_frame =
    OptionsFrame parse_options
  | ChunkFrame "u8 list"

subsection \<open>The response events\<close>

record decimal =
  dec_text :: rstr
  dec_scale :: nat
  dec_unscaled :: "int option"

datatype cell_value =
    TextValue rstr
  | DecimalValue decimal
  | IntegerValue int

record cell =
  cell_name :: rstr
  cell_type :: int
  cell_val :: "cell_value option"

record wire_condition_value =
  wcv_low :: rstr
  wcv_high :: "rstr option"

record wire_condition_name =
  wcn_name :: rstr
  wcn_values :: "rstr list"
  wcn_ranges :: "wire_condition_value list"

record field_schema =
  fs_name :: rstr
  fs_offset :: nat
  fs_size :: nat
  fs_type :: int
  fs_scale :: nat
  fs_picture :: rstr
  fs_level :: "nat option"
  fs_path :: rstr
  fs_occurs_index :: "nat option"
  fs_occurs_group :: "rstr option"
  fs_conditions :: "wire_condition_name list"

record record_schema =
  rs_name :: rstr
  rs_record_length :: nat
  rs_fields :: "field_schema list"
  rs_selector :: "rstr option"

record layout_info =
  li_encoding :: rstr
  li_records :: "record_schema list"
  li_description :: rstr
  li_header_size :: nat
  li_footer_size :: nat
  li_prefix_size :: nat
  li_source :: layout_source

record record_row =
  row_record_type :: rstr
  row_index :: nat
  row_record_index :: nat
  row_byte_offset :: nat
  row_cells :: "cell list"
  row_byte_length :: nat

datatype warning_code =
    WarningUnspecified
  | TrailingPartialRecord
  | MaxRecordsReached
  | InputShorterThanBoundaries
  | DocumentRowsTruncated

record parse_warning =
  warning_code :: warning_code
  warning_message :: msg
  warning_offset :: nat

record parse_status =
  ps_records_kept :: nat
  ps_bytes_received :: nat
  ps_bytes_consumed :: nat
  ps_trailing_bytes :: nat
  ps_truncated :: bool
  ps_warnings :: "parse_warning list"
  ps_rows_per_record_type :: "rstr \<rightharpoonup> nat"

end
