(* ===== verification/Decode.thy ===== *)
theory Decode
  imports Errors
begin

section \<open>Field decoders: one function per COBOL storage usage\<close>

text \<open>
  The model of \<^verbatim>\<open>src/decode.rs\<close>. Numbers are \<^verbatim>\<open>i128\<close> words, so the accumulation
  of digits wraps as the compiled code does; the lemmas show that within the widths the layout
  validator admits nothing wraps, and that each decoder computes the number its COBOL usage
  denotes. The reference notions are \<open>dec_value\<close> (the value of a digit run), \<open>be_value\<close>
  (a big-endian byte string) and \<open>nibbles\<close> (the half bytes in order).
\<close>

definition NEGATIVE_SIGNS :: "u8 list" where
  "NEGATIVE_SIGNS = [0x0b, 0x0d]"

definition MAX_PACKED_BYTES :: nat where
  "MAX_PACKED_BYTES = 19"

definition MAX_ZONED_BYTES :: nat where
  "MAX_ZONED_BYTES = 37"

definition MAX_BINARY_BYTES :: nat where
  "MAX_BINARY_BYTES = 16"

datatype field_value =
    Text rstr
  | Number i128 nat

definition hex :: "u8 list \<Rightarrow> rstr" where
  "hex bytes = concat (map hex_byte bytes)"

subsection \<open>Rendering a scaled number\<close>

definition render_decimal :: "i128 \<Rightarrow> nat \<Rightarrow> rstr" where
  "render_decimal unscaled scale =
     (if scale = 0 then render_int (sint unscaled)
      else let negative = sint unscaled < 0;
               digits = render_nat (nat \<bar>sint unscaled\<bar>);
               padded = (if length digits \<le> scale
                         then replicate (scale + 1 - length digits) 48 @ digits else digits);
               split = length padded - scale;
               sign = (if negative then [45] else [])
           in sign @ take split padded @ [46] @ drop split padded)"

fun to_display_string :: "field_value \<Rightarrow> rstr" where
  "to_display_string (Text text) = text"
| "to_display_string (Number unscaled scale) = render_decimal unscaled scale"

subsection \<open>Character data\<close>

definition decode_text :: "codec \<Rightarrow> u8 list \<Rightarrow> bool \<Rightarrow> parse_error + rstr" where
  "decode_text codec bytes strip_control =
     rbind (map_err from_codec_error (decode codec bytes)) (\<lambda>text.
       Inr (trim (if strip_control then filter (\<lambda>c. \<not> is_control c) text else text)))"

subsection \<open>Packed decimal\<close>

definition packed_nibble ::
  "u8 list \<Rightarrow> nat \<Rightarrow> nat \<Rightarrow> nat \<Rightarrow> u8 \<Rightarrow> i128 \<Rightarrow> parse_error + i128" where
  "packed_nibble bytes last_index index nibble_index nibble value =
     (if index = last_index \<and> nibble_index = last_index * 2 + 1 then Inr value
      else if 9 < nibble then
        Inl (Invalid [MLit ''packed decimal nibble '', MNat nibble_index, MLit '' is 0x'',
                      MStr [hex_digit (unat nibble)], MLit '', not a digit (bytes '',
                      MStr (hex bytes), MLit '')''])
      else Inr (value * 10 + ucast nibble))"

fun packed_loop :: "u8 list \<Rightarrow> nat \<Rightarrow> nat \<Rightarrow> u8 list \<Rightarrow> i128 \<Rightarrow> parse_error + i128" where
  "packed_loop bytes last_index index [] value = Inr value"
| "packed_loop bytes last_index index (byte # rest) value =
     rbind (packed_nibble bytes last_index index (index * 2) (drop_bit 4 byte) value) (\<lambda>value.
     rbind (packed_nibble bytes last_index index (index * 2 + 1) (byte AND 0x0f) value) (\<lambda>value.
     packed_loop bytes last_index (Suc index) rest value))"

definition decode_packed :: "u8 list \<Rightarrow> parse_error + i128" where
  "decode_packed bytes =
     (if bytes = [] then Inl (Invalid [MLit ''a packed decimal field needs at least one byte''])
      else let last_index = length bytes - 1 in
        rbind (packed_loop bytes last_index 0 bytes 0) (\<lambda>value.
          let sign = (bytes ! last_index) AND 0x0f in
          Inr (if sign \<in> set NEGATIVE_SIGNS then - value else value)))"

subsection \<open>Zoned decimal\<close>

fun zoned_loop :: "u8 list \<Rightarrow> nat \<Rightarrow> u8 list \<Rightarrow> i128 \<Rightarrow> parse_error + i128" where
  "zoned_loop bytes index [] value = Inr value"
| "zoned_loop bytes index (byte # rest) value =
     (let digit = byte AND 0x0f in
      if 9 < digit then
        Inl (Invalid [MLit ''zoned decimal digit '', MNat index, MLit '' is 0x'',
                      MStr [hex_digit (unat digit)], MLit '', not a digit (bytes '',
                      MStr (hex bytes), MLit '')''])
      else zoned_loop bytes (Suc index) rest (value * 10 + ucast digit))"

definition decode_zoned :: "u8 list \<Rightarrow> parse_error + i128" where
  "decode_zoned bytes =
     (if bytes = [] then Inl (Invalid [MLit ''a zoned decimal field needs at least one byte''])
      else rbind (zoned_loop bytes 0 bytes 0) (\<lambda>value.
        let sign = drop_bit 4 (bytes ! (length bytes - 1)) in
        Inr (if sign \<in> set NEGATIVE_SIGNS then - value else value)))"

subsection \<open>Binary\<close>

definition decode_binary :: "u8 list \<Rightarrow> bool \<Rightarrow> parse_error + i128" where
  "decode_binary bytes is_signed =
     (if bytes = [] then Inl (Invalid [MLit ''a binary field needs at least one byte''])
      else if MAX_BINARY_BYTES < length bytes then
        Inl (Unsupported [MLit ''binary fields wider than '', MNat MAX_BINARY_BYTES,
                          MLit '' bytes are not supported (got '', MNat (length bytes), MLit '')''])
      else if \<not> is_signed \<and> length bytes = MAX_BINARY_BYTES \<and> (bytes ! 0) AND 0x80 \<noteq> 0 then
        Inl (Unsupported [MLit ''unsigned binary value '', MStr (hex bytes),
                          MLit '' exceeds the largest number this build carries''])
      else let negative = is_signed \<and> (bytes ! 0) AND 0x80 \<noteq> 0;
               value = (if negative then - 1 else 0)
           in Inr (foldl (\<lambda>value byte. push_bit 8 value OR ucast byte) value bytes))"

subsection \<open>Reference notions\<close>

definition nibbles :: "u8 list \<Rightarrow> nat list" where
  "nibbles bs = concat (map (\<lambda>b. [unat b div 16, unat b mod 16]) bs)"

definition dec_value :: "nat list \<Rightarrow> nat" where
  "dec_value ds = foldl (\<lambda>a d. a * 10 + d) 0 ds"

definition be_value :: "u8 list \<Rightarrow> nat" where
  "be_value bs = foldl (\<lambda>a b. a * 256 + unat b) 0 bs"

definition signed_by :: "nat \<Rightarrow> nat \<Rightarrow> int" where
  "signed_by sign n = (if sign = 11 \<or> sign = 13 then - int n else int n)"

definition packed_value :: "u8 list \<Rightarrow> int" where
  "packed_value bs = signed_by (last (nibbles bs)) (dec_value (butlast (nibbles bs)))"

definition zoned_digits :: "u8 list \<Rightarrow> nat list" where
  "zoned_digits bs = map (\<lambda>b. unat b mod 16) bs"

definition zoned_value :: "u8 list \<Rightarrow> int" where
  "zoned_value bs = signed_by (unat (last bs) div 16) (dec_value (zoned_digits bs))"

text \<open>The two's complement value of a big-endian byte string.\<close>

definition twos_value :: "u8 list \<Rightarrow> int" where
  "twos_value bs =
     (if 128 \<le> unat (hd bs) then int (be_value bs) - 256 ^ length bs else int (be_value bs))"

lemma dec_value_Nil [simp]: "dec_value [] = 0"
  by (simp add: dec_value_def)

lemma dec_value_digits_value: "dec_value ds = digits_value (map (\<lambda>d. 48 + d) ds)"
  by (induction ds rule: rev_induct) (simp_all add: dec_value_def)

lemma dec_value_bound: "\<forall>d \<in> set ds. d \<le> 9 \<Longrightarrow> dec_value ds < 10 ^ length ds"
  using digits_value_bound [of "map (\<lambda>d. 48 + d) ds"]
  by (simp add: dec_value_digits_value is_ascii_digit_def)

lemma dec_value_snoc: "dec_value (ds @ [d]) = dec_value ds * 10 + d"
  by (simp add: dec_value_def)

lemma be_value_Nil [simp]: "be_value [] = 0"
  by (simp add: be_value_def)

lemma be_value_snoc [simp]: "be_value (bs @ [b]) = be_value bs * 256 + unat b"
  by (simp add: be_value_def)

lemma be_value_bound: "be_value bs < 256 ^ length bs"
proof (induction bs rule: rev_induct)
  case Nil
  show ?case by simp
next
  case (snoc b bs)
  have "be_value bs * 256 + unat b < (be_value bs + 1) * 256" by simp
  also have "\<dots> \<le> 256 ^ length bs * 256" using snoc by (intro mult_right_mono) auto
  finally show ?case by (simp add: mult.commute)
qed

lemma be_value_Cons: "be_value (b # bs) = unat b * 256 ^ length bs + be_value bs"
  by (induction bs rule: rev_induct) (simp_all add: be_value_def algebra_simps)

lemma unat_high [simp]: "unat (drop_bit 4 (b :: u8)) = unat b div 16"
  by (simp add: drop_bit_eq_div unat_div)

lemma unat_low [simp]: "unat ((b :: u8) AND 15) = unat b mod 16"
proof -
  have "b AND 15 = take_bit 4 b" by (simp add: take_bit_eq_mask mask_eq_exp_minus_1)
  then show ?thesis by (simp add: take_bit_eq_mod unat_mod)
qed

lemma nibbles_Nil [simp]: "nibbles [] = []"
  by (simp add: nibbles_def)

lemma nibbles_Cons [simp]: "nibbles (b # bs) = unat b div 16 # unat b mod 16 # nibbles bs"
  by (simp add: nibbles_def)

lemma nibbles_append: "nibbles (as @ bs) = nibbles as @ nibbles bs"
  by (simp add: nibbles_def)

lemma length_nibbles: "length (nibbles bs) = 2 * length bs"
  by (induction bs) simp_all

lemma nibbles_empty [simp]: "nibbles bs = [] \<longleftrightarrow> bs = []"
  by (cases bs) simp_all

lemma last_nibbles: "bs \<noteq> [] \<Longrightarrow> last (nibbles bs) = unat (last bs) mod 16"
  by (cases bs rule: rev_cases) (simp_all add: nibbles_append)

lemma negative_sign_iff: "w \<in> set NEGATIVE_SIGNS \<longleftrightarrow> unat w = 11 \<or> unat w = 13"
  by (auto simp: NEGATIVE_SIGNS_def word_unat_eq_iff)

text \<open>Accumulating digits in an \<^verbatim>\<open>i128\<close> is accumulation modulo \<open>2 ^ 128\<close>.\<close>

lemma fold_digits_word:
  "foldl (\<lambda>a d. a * 10 + word_of_nat d) (word_of_nat v) ds =
     (word_of_nat (foldl (\<lambda>a d. a * 10 + d) v ds) :: i128)"
proof (induction ds rule: rev_induct)
  case Nil
  show ?case by simp
next
  case (snoc d ds)
  then show ?case by (simp add: of_nat_mult)
qed

lemma sint_signed_by:
  assumes "n < 2 ^ 127"
  shows "sint (if sign = 11 \<or> sign = 13 then - word_of_nat n else (word_of_nat n :: i128)) =
    signed_by sign n"
proof -
  have n: "int n \<le> i128_max" using assms by simp
  have "sint (word_of_int (int n) :: i128) = int n"
    by (rule sint_of_int_i128) (use n in simp_all)
  moreover have "sint (word_of_int (- int n) :: i128) = - int n"
    by (rule sint_of_int_i128) (use n in simp_all)
  ultimately show ?thesis by (simp add: signed_by_def)
qed

text \<open>The first nibble of a run that is not a digit, with its position.\<close>

fun first_bad :: "nat \<Rightarrow> nat list \<Rightarrow> (nat \<times> nat) option" where
  "first_bad pos [] = None"
| "first_bad pos (d # ds) = (if 9 < d then Some (pos, d) else first_bad (Suc pos) ds)"

definition packed_error :: "u8 list \<Rightarrow> nat \<times> nat \<Rightarrow> parse_error" where
  "packed_error bytes bad =
     Invalid [MLit ''packed decimal nibble '', MNat (fst bad), MLit '' is 0x'',
              MStr [hex_digit (snd bad)], MLit '', not a digit (bytes '',
              MStr (hex bytes), MLit '')'']"

definition zoned_error :: "u8 list \<Rightarrow> nat \<times> nat \<Rightarrow> parse_error" where
  "zoned_error bytes bad =
     Invalid [MLit ''zoned decimal digit '', MNat (fst bad), MLit '' is 0x'',
              MStr [hex_digit (snd bad)], MLit '', not a digit (bytes '',
              MStr (hex bytes), MLit '')'']"

lemma first_bad_None: "first_bad pos ds = None \<longleftrightarrow> (\<forall>d \<in> set ds. d \<le> 9)"
  by (induction ds arbitrary: pos) auto

lemma first_bad_Some:
  "first_bad pos ds = Some (p, d) \<longleftrightarrow>
     (\<exists>i < length ds. p = pos + i \<and> d = ds ! i \<and> 9 < d \<and> (\<forall>j < i. ds ! j \<le> 9))"
proof (induction ds arbitrary: pos)
  case (Cons x ds)
  show ?case
  proof (cases "9 < x")
    case True
    have "i = 0" if "\<forall>j < i. (x # ds) ! j \<le> 9" for i
    proof (rule ccontr)
      assume "i \<noteq> 0"
      with that have "(x # ds) ! 0 \<le> 9" by blast
      with True show False by simp
    qed
    with True show ?thesis by fastforce
  next
    case False
    then have "first_bad pos (x # ds) = Some (p, d) \<longleftrightarrow>
        (\<exists>i < length ds. p = Suc pos + i \<and> d = ds ! i \<and> 9 < d \<and> (\<forall>j < i. ds ! j \<le> 9))"
      using Cons by simp
    also have "\<dots> \<longleftrightarrow> (\<exists>i < length (x # ds). p = pos + i \<and> d = (x # ds) ! i \<and> 9 < d \<and>
        (\<forall>j < i. (x # ds) ! j \<le> 9))" (is "?L = ?R")
    proof
      assume ?L
      then obtain i where "i < length ds" "p = Suc pos + i" "d = ds ! i" "9 < d"
        "\<forall>j < i. ds ! j \<le> 9" by blast
      with False show ?R by (intro exI [of _ "Suc i"]) (auto simp: less_Suc_eq_0_disj)
    next
      assume ?R
      then obtain i where i: "i < length (x # ds)" "p = pos + i" "d = (x # ds) ! i" "9 < d"
        "\<forall>j < i. (x # ds) ! j \<le> 9" by blast
      with False obtain k where "i = Suc k" by (cases i) auto
      with i show ?L by (intro exI [of _ k]) auto
    qed
    finally show ?thesis .
  qed
qed simp

lemma ucast_nibble: "(ucast (w :: u8) :: i128) = word_of_nat (unat w)"
  by (rule word_unat_eq_iff [THEN iffD2])
    (simp add: unsigned_ucast_eq unsigned_of_nat take_bit_nat_eq_self_iff
      less_trans [OF unat_u8_less])

lemma word_of_nat_step: "(word_of_nat v :: i128) * 10 + ucast (w :: u8) = word_of_nat (v * 10 + unat w)"
  by (simp only: ucast_nibble of_nat_add of_nat_mult of_nat_numeral)

lemma word_less_nibble: "9 < (w :: u8) \<longleftrightarrow> 9 < unat w"
  by (simp add: word_less_nat_alt)

lemma packed_nibble_eq:
  "packed_nibble bytes l i p w (word_of_nat v) =
     (if i = l \<and> p = l * 2 + 1 then Inr (word_of_nat v)
      else case first_bad p [unat w] of
        Some b \<Rightarrow> Inl (packed_error bytes b) | None \<Rightarrow> Inr (word_of_nat (v * 10 + unat w)))"
  unfolding packed_nibble_def word_of_nat_step
  by (simp add: word_less_nibble packed_error_def)

lemma packed_loop_eq:
  assumes "bs \<noteq> []" and "i + length bs = Suc l"
  shows "packed_loop bytes l i bs (word_of_nat v) =
    (case first_bad (i * 2) (butlast (nibbles bs)) of
       Some b \<Rightarrow> Inl (packed_error bytes b)
     | None \<Rightarrow> Inr (word_of_nat (foldl (\<lambda>a d. a * 10 + d) v (butlast (nibbles bs)))))"
  using assms
proof (induction bs arbitrary: i v)
  case (Cons b bs)
  show ?case
  proof (cases "bs = []")
    case True
    with Cons.prems have "i = l" by simp
    with True show ?thesis
      by (simp add: packed_nibble_eq del: of_nat_add of_nat_mult of_nat_numeral)
  next
    case False
    with Cons.prems have "i \<noteq> l" "Suc i + length bs = Suc l" by auto
    with False Cons.IH [of "Suc i"] show ?thesis
      by (simp add: packed_nibble_eq del: of_nat_add of_nat_mult of_nat_numeral
          split: option.split)
  qed
qed simp

lemma zoned_loop_eq:
  "zoned_loop bytes i bs (word_of_nat v) =
    (case first_bad i (zoned_digits bs) of
       Some b \<Rightarrow> Inl (zoned_error bytes b)
     | None \<Rightarrow> Inr (word_of_nat (foldl (\<lambda>a d. a * 10 + d) v (zoned_digits bs))))"
proof (induction bs arbitrary: i v)
  case (Cons b bs)
  show ?case
    using Cons [of "Suc i"]
    by (simp add: Let_def word_of_nat_step word_less_nibble zoned_error_def zoned_digits_def
        del: of_nat_add of_nat_mult of_nat_numeral split: option.split)
qed (simp add: zoned_digits_def)

subsection \<open>Packed and zoned decimal compute the number they denote\<close>

lemma dec_value_fold: "foldl (\<lambda>a d. a * 10 + d) 0 ds = dec_value ds"
  by (simp add: dec_value_def)

lemma sign_last_low:
  "bs \<noteq> [] \<Longrightarrow> bs ! (length bs - Suc 0) AND 15 \<in> set NEGATIVE_SIGNS \<longleftrightarrow>
     last (nibbles bs) = 11 \<or> last (nibbles bs) = 13"
  using last_conv_nth [of bs, symmetric] by (simp add: negative_sign_iff last_nibbles)

lemma decode_packed_eq:
  assumes "bs \<noteq> []"
  shows "decode_packed bs =
    (case first_bad 0 (butlast (nibbles bs)) of
       Some b \<Rightarrow> Inl (packed_error bs b)
     | None \<Rightarrow> Inr (if last (nibbles bs) = 11 \<or> last (nibbles bs) = 13
                    then - word_of_nat (dec_value (butlast (nibbles bs)))
                    else word_of_nat (dec_value (butlast (nibbles bs)))))"
proof -
  have "packed_loop bs (length bs - 1) 0 bs (word_of_nat 0) =
    (case first_bad (0 * 2) (butlast (nibbles bs)) of
       Some b \<Rightarrow> Inl (packed_error bs b)
     | None \<Rightarrow> Inr (word_of_nat (foldl (\<lambda>a d. a * 10 + d) 0 (butlast (nibbles bs)))))"
    using assms by (intro packed_loop_eq) auto
  with assms show ?thesis
    by (simp add: decode_packed_def sign_last_low dec_value_fold split: option.split)
qed

lemma decode_zoned_eq:
  assumes "bs \<noteq> []"
  shows "decode_zoned bs =
    (case first_bad 0 (zoned_digits bs) of
       Some b \<Rightarrow> Inl (zoned_error bs b)
     | None \<Rightarrow> Inr (if unat (last bs) div 16 = 11 \<or> unat (last bs) div 16 = 13
                    then - word_of_nat (dec_value (zoned_digits bs))
                    else word_of_nat (dec_value (zoned_digits bs))))"
  using assms zoned_loop_eq [of bs 0 bs 0]
  by (simp add: decode_zoned_def negative_sign_iff dec_value_fold last_conv_nth split: option.split)

lemma dec_value_i128:
  assumes "\<forall>d \<in> set ds. d \<le> 9" and "length ds \<le> 37"
  shows "dec_value ds < 2 ^ 127"
proof -
  have "dec_value ds < 10 ^ length ds" using assms(1) by (rule dec_value_bound)
  also have "(10 :: nat) ^ length ds \<le> 10 ^ 37" using assms(2) by (intro power_increasing) auto
  also have "\<dots> < 2 ^ 127" by simp
  finally show ?thesis .
qed

lemma decode_packed_spec:
  assumes "bs \<noteq> []" and "length bs \<le> MAX_PACKED_BYTES"
  shows "case decode_packed bs of
      Inr v \<Rightarrow> (\<forall>d \<in> set (butlast (nibbles bs)). d \<le> 9) \<and> sint v = packed_value bs
    | Inl e \<Rightarrow> (\<exists>i < length (nibbles bs) - 1. 9 < nibbles bs ! i \<and>
        (\<forall>j < i. nibbles bs ! j \<le> 9) \<and> e = packed_error bs (i, nibbles bs ! i))"
proof (cases "first_bad 0 (butlast (nibbles bs))")
  case None
  then have digits: "\<forall>d \<in> set (butlast (nibbles bs)). d \<le> 9" by (simp add: first_bad_None)
  with assms have "dec_value (butlast (nibbles bs)) < 2 ^ 127"
    by (intro dec_value_i128) (auto simp: length_nibbles MAX_PACKED_BYTES_def)
  with None digits assms show ?thesis
    by (simp add: decode_packed_eq packed_value_def sint_signed_by)
next
  case (Some b)
  obtain p d where b: "b = (p, d)" by (cases b)
  with Some have "\<exists>i < length (nibbles bs) - 1. p = i \<and> d = nibbles bs ! i \<and> 9 < nibbles bs ! i \<and>
      (\<forall>j < i. nibbles bs ! j \<le> 9)"
    by (auto simp: first_bad_Some nth_butlast)
  with Some b assms show ?thesis by (auto simp: decode_packed_eq)
qed

text \<open>C11. A packed decimal field of at most \<^verbatim>\<open>MAX_PACKED_BYTES\<close> bytes decodes exactly when
every nibble before the sign nibble is a digit, and then to the number the digits and the sign
denote, with no wrap-around of the \<^verbatim>\<open>i128\<close>; otherwise the error quotes the position and the
value of the first nibble that is not a digit.\<close>

theorem decode_packed_correct:
  assumes "bs \<noteq> []" and "length bs \<le> MAX_PACKED_BYTES"
  shows "case decode_packed bs of
      Inr v \<Rightarrow> (\<forall>d \<in> set (butlast (nibbles bs)). d \<le> 9) \<and> sint v = packed_value bs
    | Inl e \<Rightarrow> (\<exists>i < length (nibbles bs) - 1. 9 < nibbles bs ! i \<and>
        (\<forall>j < i. nibbles bs ! j \<le> 9) \<and> e = packed_error bs (i, nibbles bs ! i))"
  using assms by (rule decode_packed_spec)

theorem decode_packed_correct_witness:
  "sint (projr (decode_packed [0x12, 0x34, 0x5d])) = - 12345 \<and>
   decode_packed [0x1a, 0x34, 0x5c] = Inl (packed_error [0x1a, 0x34, 0x5c] (1, 10))"
proof
  have v: "packed_value [0x12, 0x34, 0x5d] = - 12345"
    by (simp add: packed_value_def signed_by_def dec_value_def)
  have "\<forall>d \<in> set (butlast (nibbles [0x12, 0x34, 0x5d])). d \<le> 9" by simp
  then obtain w where w: "decode_packed [0x12, 0x34, 0x5d] = Inr w"
    by (simp add: decode_packed_eq)
  show "sint (projr (decode_packed [0x12, 0x34, 0x5d])) = - 12345"
    using decode_packed_correct [of "[0x12, 0x34, 0x5d]"] w v by (simp add: MAX_PACKED_BYTES_def)
  show "decode_packed [0x1a, 0x34, 0x5c] = Inl (packed_error [0x1a, 0x34, 0x5c] (1, 10))"
    by (simp add: decode_packed_eq)
qed

lemma decode_zoned_spec:
  assumes "bs \<noteq> []" and "length bs \<le> MAX_ZONED_BYTES"
  shows "case decode_zoned bs of
      Inr v \<Rightarrow> (\<forall>b \<in> set bs. unat b mod 16 \<le> 9) \<and> sint v = zoned_value bs
    | Inl e \<Rightarrow> (\<exists>i < length bs. 9 < unat (bs ! i) mod 16 \<and>
        (\<forall>j < i. unat (bs ! j) mod 16 \<le> 9) \<and> e = zoned_error bs (i, unat (bs ! i) mod 16))"
proof (cases "first_bad 0 (zoned_digits bs)")
  case None
  then have digits: "\<forall>d \<in> set (zoned_digits bs). d \<le> 9" by (simp add: first_bad_None)
  with assms have "dec_value (zoned_digits bs) < 2 ^ 127"
    by (intro dec_value_i128) (auto simp: zoned_digits_def MAX_ZONED_BYTES_def)
  with None digits assms show ?thesis
    by (simp add: decode_zoned_eq zoned_value_def sint_signed_by) (simp add: zoned_digits_def)
next
  case (Some b)
  obtain p d where b: "b = (p, d)" by (cases b)
  with Some have "\<exists>i < length bs. p = i \<and> d = unat (bs ! i) mod 16 \<and> 9 < unat (bs ! i) mod 16 \<and>
      (\<forall>j < i. unat (bs ! j) mod 16 \<le> 9)"
    by (auto simp: first_bad_Some zoned_digits_def)
  with Some b assms show ?thesis by (auto simp: decode_zoned_eq)
qed

text \<open>C20. A zoned decimal field of at most \<^verbatim>\<open>MAX_ZONED_BYTES\<close> bytes decodes exactly when
every low nibble is a digit, whatever the zones are, and then to the number the low nibbles and
the zone of the last byte denote; otherwise the error quotes the first bad position.\<close>

theorem decode_zoned_correct:
  assumes "bs \<noteq> []" and "length bs \<le> MAX_ZONED_BYTES"
  shows "case decode_zoned bs of
      Inr v \<Rightarrow> (\<forall>b \<in> set bs. unat b mod 16 \<le> 9) \<and> sint v = zoned_value bs
    | Inl e \<Rightarrow> (\<exists>i < length bs. 9 < unat (bs ! i) mod 16 \<and>
        (\<forall>j < i. unat (bs ! j) mod 16 \<le> 9) \<and> e = zoned_error bs (i, unat (bs ! i) mod 16))"
  using assms by (rule decode_zoned_spec)

theorem decode_zoned_correct_witness:
  "sint (projr (decode_zoned [0x40, 0xf4, 0xd5])) = - 45"
proof -
  have v: "zoned_value [0x40, 0xf4, 0xd5] = - 45"
    by (simp add: zoned_value_def signed_by_def dec_value_def zoned_digits_def)
  have "\<forall>d \<in> set (zoned_digits [0x40, 0xf4, 0xd5]). d \<le> 9" by (simp add: zoned_digits_def)
  then obtain w where w: "decode_zoned [0x40, 0xf4, 0xd5] = Inr w"
    by (simp add: decode_zoned_eq zoned_digits_def)
  show ?thesis
    using decode_zoned_correct [of "[0x40, 0xf4, 0xd5]"] w v by (simp add: MAX_ZONED_BYTES_def)
qed

text \<open>The reference encoder: a number in a packed field of \<open>w\<close> bytes, preferred signs.\<close>

fun pad_digits :: "nat \<Rightarrow> nat \<Rightarrow> nat list" where
  "pad_digits 0 n = []"
| "pad_digits (Suc k) n = pad_digits k (n div 10) @ [n mod 10]"

fun pack :: "nat list \<Rightarrow> u8 list" where
  "pack (a # b # ns) = word_of_nat (a * 16 + b) # pack ns"
| "pack _ = []"

definition encode_packed :: "nat \<Rightarrow> int \<Rightarrow> u8 list" where
  "encode_packed w n = pack (pad_digits (2 * w - 1) (nat \<bar>n\<bar>) @ [if n < 0 then 13 else 12])"

definition encode_zoned :: "nat \<Rightarrow> int \<Rightarrow> u8 list" where
  "encode_zoned w n =
     (let ds = pad_digits w (nat \<bar>n\<bar>)
      in map (\<lambda>d. word_of_nat (0xf0 + d)) (butlast ds) @
         [word_of_nat ((if n < 0 then 0xd0 else 0xc0) + last ds)])"

lemma length_pad_digits [simp]: "length (pad_digits k n) = k"
  by (induction k arbitrary: n) simp_all

lemma pad_digits_digit: "d \<in> set (pad_digits k n) \<Longrightarrow> d \<le> 9"
  by (induction k arbitrary: n) auto

lemma dec_value_pad_digits_mod: "dec_value (pad_digits k n) = n mod 10 ^ k"
  by (induction k arbitrary: n) (simp_all add: dec_value_snoc mod_mult2_eq)

lemma dec_value_pad_digits: "n < 10 ^ k \<Longrightarrow> dec_value (pad_digits k n) = n"
  by (simp add: dec_value_pad_digits_mod)

lemma nibbles_pack:
  "even (length ns) \<Longrightarrow> \<forall>n \<in> set ns. n < 16 \<Longrightarrow> nibbles (pack ns) = ns"
proof (induction ns rule: pack.induct)
  case (1 a b ns)
  then have "a * 16 + b < 256" by simp
  then have "unat (word_of_nat (a * 16 + b) :: u8) = a * 16 + b"
    by (simp only: unsigned_of_nat) (simp add: take_bit_nat_eq_self_iff)
  with 1 show ?case by (simp del: of_nat_add of_nat_mult of_nat_numeral)
qed auto

lemma length_pack: "even (length ns) \<Longrightarrow> length (pack ns) = length ns div 2"
  by (induction ns rule: pack.induct) auto

lemma decode_encode_packed:
  assumes "0 < w" and "w \<le> MAX_PACKED_BYTES" and "\<bar>n\<bar> < 10 ^ (2 * w - 1)"
  shows "length (encode_packed w n) = w \<and> decode_packed (encode_packed w n) = Inr (word_of_int n)"
proof -
  let ?ds = "pad_digits (2 * w - 1) (nat \<bar>n\<bar>)"
  let ?sign = "if n < 0 then 13 else 12 :: nat"
  have even: "even (length (?ds @ [?sign]))" using assms(1) by simp
  have small: "\<forall>d \<in> set (?ds @ [?sign]). d < 16" by (auto dest: pad_digits_digit)
  have len: "length (encode_packed w n) = w"
    using assms(1) even by (simp add: encode_packed_def length_pack)
  have nib: "nibbles (encode_packed w n) = ?ds @ [?sign]"
    unfolding encode_packed_def using even small by (rule nibbles_pack)
  have "nat \<bar>n\<bar> < 10 ^ (2 * w - 1)" using assms(3) by (simp add: nat_less_iff)
  then have val: "dec_value ?ds = nat \<bar>n\<bar>" by (rule dec_value_pad_digits)
  have abs: "word_of_int n = (if n < 0 then - word_of_nat (nat \<bar>n\<bar>) else word_of_nat (nat \<bar>n\<bar>) :: i128)"
    by (simp add: of_nat_nat)
  have "first_bad 0 ?ds = None" by (auto simp: first_bad_None dest: pad_digits_digit)
  moreover have "encode_packed w n \<noteq> []" using len assms(1) by auto
  ultimately have "decode_packed (encode_packed w n) =
      Inr (if n < 0 then - word_of_nat (nat \<bar>n\<bar>) else word_of_nat (nat \<bar>n\<bar>))"
    using val [symmetric] by (auto simp: decode_packed_eq nib)
  also have "\<dots> = Inr (word_of_int n)" by (simp only: abs)
  finally show ?thesis using len by simp
qed

subsection \<open>Binary fields\<close>

lemma push_or_ucast: "push_bit 8 (v :: i128) OR ucast (b :: u8) = v * 256 + word_of_int (uint b)"
proof -
  have "push_bit 8 v AND (ucast b :: i128) = 0"
    by (rule bit_eqI) (auto simp: bit_simps dest: bit_imp_le_length)
  then have "push_bit 8 v OR ucast b = push_bit 8 v + (ucast b :: i128)"
    by (rule disjunctive_add_eq_or [symmetric])
  moreover have "push_bit 8 v = v * 256" by (simp add: push_bit_eq_mult)
  moreover have "(ucast b :: i128) = word_of_int (uint b)" by (rule ucast_eq)
  ultimately show ?thesis by (simp only:)
qed

lemma fold_binary:
  "foldl (\<lambda>v b. push_bit 8 v OR ucast b) (word_of_int k) bs =
     (word_of_int (k * 256 ^ length bs + int (be_value bs)) :: i128)"
proof (induction bs rule: rev_induct)
  case (snoc b bs)
  have "word_of_int (k * 256 ^ length bs + int (be_value bs)) * 256 + word_of_int (uint b) =
      (word_of_int ((k * 256 ^ length bs + int (be_value bs)) * 256 + uint b) :: i128)"
    by (simp only: of_int_add of_int_mult of_int_numeral)
  with snoc show ?case by (simp add: push_or_ucast algebra_simps del: of_int_add of_int_mult)
qed simp

lemma top_bit: "(b :: u8) AND 0x80 \<noteq> 0 \<longleftrightarrow> 128 \<le> unat b"
proof -
  have "b AND 2 ^ 7 = 0 \<longleftrightarrow> \<not> bit b 7" by (rule and_exp_eq_0_iff_not_bit)
  moreover have "bit b 7 \<longleftrightarrow> bit (unat b) 7" by (simp add: bit_unsigned_iff)
  moreover have "bit (unat b) 7 \<longleftrightarrow> unat b div 128 = 1"
  proof -
    have "unat b div 128 < 2" using unat_u8_less [of b] by (simp add: less_mult_imp_div_less)
    then have "unat b div 128 = 0 \<or> unat b div 128 = 1" by linarith
    then show ?thesis by (auto simp: bit_iff_odd)
  qed
  moreover have "unat b div 128 = 1 \<longleftrightarrow> 128 \<le> unat b" using unat_u8_less [of b] by linarith
  ultimately show ?thesis by simp
qed

lemma first_byte: "(bs :: u8 list) \<noteq> [] \<Longrightarrow> (bs ! 0 AND 0x80 \<noteq> 0) \<longleftrightarrow> 128 \<le> unat (hd bs)"
  using top_bit [of "bs ! 0"] by (simp add: hd_conv_nth)

lemma be_value_hd:
  assumes "bs \<noteq> []"
  shows "128 * 256 ^ (length bs - 1) \<le> be_value bs \<longleftrightarrow> 128 \<le> unat (hd bs)"
proof -
  obtain b r where bs: "bs = b # r" using assms by (cases bs) auto
  have bound: "be_value r < 256 ^ length r" by (rule be_value_bound)
  have "128 * 256 ^ length r \<le> unat b * 256 ^ length r + be_value r \<longleftrightarrow> 128 \<le> unat b"
  proof
    assume "128 \<le> unat b"
    then have "128 * 256 ^ length r \<le> unat b * 256 ^ length r" by (intro mult_right_mono) auto
    then show "128 * 256 ^ length r \<le> unat b * 256 ^ length r + be_value r" by linarith
  next
    assume le: "128 * 256 ^ length r \<le> unat b * 256 ^ length r + be_value r"
    show "128 \<le> unat b"
    proof (rule ccontr)
      assume "\<not> 128 \<le> unat b"
      then have "(unat b + 1) * 256 ^ length r \<le> 128 * 256 ^ length r"
        by (intro mult_right_mono) auto
      then have "unat b * 256 ^ length r + 256 ^ length r \<le> 128 * 256 ^ length r"
        by (simp only: add_mult_distrib mult_1)
      with le bound show False by linarith
    qed
  qed
  then show ?thesis by (simp add: bs be_value_Cons)
qed

text \<open>The half range of \<open>n\<close> bytes, which bounds a two's complement number and fits an \<^verbatim>\<open>i128\<close>.\<close>

lemma half_range: "0 < n \<Longrightarrow> (256 :: nat) ^ n = 2 * (128 * 256 ^ (n - 1))"
  by (cases n) auto

lemma half_range_i128: "0 < n \<Longrightarrow> n \<le> 16 \<Longrightarrow> (128 :: nat) * 256 ^ (n - 1) \<le> 2 ^ 127"
proof -
  assume "0 < n" "n \<le> 16"
  then have "(256 :: nat) ^ (n - 1) \<le> 256 ^ 15" by (intro power_increasing) auto
  then have "(128 :: nat) * 256 ^ (n - 1) \<le> 128 * 256 ^ 15" by (rule mult_left_mono) simp
  also have "\<dots> = 2 ^ 127" by simp
  finally show ?thesis .
qed

lemma twos_value_range:
  assumes "bs \<noteq> []"
  shows "- int (128 * 256 ^ (length bs - 1)) \<le> twos_value bs"
    and "twos_value bs < int (128 * 256 ^ (length bs - 1))"
proof -
  define h where "h = (128 * 256 ^ (length bs - 1) :: nat)"
  have len: "0 < length bs" using assms(1) by simp
  have full: "(256 :: nat) ^ length bs = 2 * h" unfolding h_def using len by (rule half_range)
  have v: "be_value bs < 2 * h" using be_value_bound [of bs] by (simp only: full)
  have "int (256 ^ length bs) = int (2 * h)" by (simp only: full)
  then have fulli: "(256 :: int) ^ length bs = 2 * int h" by simp
  have iff: "h \<le> be_value bs \<longleftrightarrow> 128 \<le> unat (hd bs)"
    unfolding h_def using assms(1) by (rule be_value_hd)
  have "- int h \<le> twos_value bs \<and> twos_value bs < int h"
    using v iff unfolding twos_value_def fulli by (cases "128 \<le> unat (hd bs)") auto
  then show "- int (128 * 256 ^ (length bs - 1)) \<le> twos_value bs"
    and "twos_value bs < int (128 * 256 ^ (length bs - 1))" by (simp_all only: h_def)
qed

lemma unsigned_value_fits:
  assumes "bs \<noteq> []" and "length bs \<le> 16" and "length bs < 16 \<or> unat (hd bs) < 128"
  shows "be_value bs < 2 ^ 127"
proof (cases "length bs = 16")
  case True
  with assms have "\<not> 128 * 256 ^ (length bs - 1) \<le> be_value bs" using be_value_hd [of bs] by simp
  moreover have "(128 :: nat) * 256 ^ (length bs - 1) \<le> 2 ^ 127"
    using assms by (intro half_range_i128) auto
  ultimately show ?thesis by linarith
next
  case False
  with assms have "(256 :: nat) ^ length bs \<le> 256 ^ 15" by (intro power_increasing) auto
  also have "\<dots> < 2 ^ 127" by simp
  finally show ?thesis using be_value_bound [of bs] by linarith
qed

text \<open>What the decoder does not refuse fits an \<^verbatim>\<open>i128\<close>.\<close>

lemma binary_value_fits:
  assumes "bs \<noteq> []" and "length bs \<le> 16" and "is_signed \<or> length bs < 16 \<or> unat (hd bs) < 128"
  shows "i128_min \<le> (if is_signed then twos_value bs else int (be_value bs)) \<and>
    (if is_signed then twos_value bs else int (be_value bs)) \<le> i128_max"
proof (cases is_signed)
  case True
  have "(128 :: nat) * 256 ^ (length bs - 1) \<le> 2 ^ 127" using assms by (intro half_range_i128) auto
  then have "int (128 * 256 ^ (length bs - 1)) \<le> int (2 ^ 127)" by (simp only: of_nat_le_iff)
  then have "- (2 ^ 127) \<le> twos_value bs" "twos_value bs < 2 ^ 127"
    using twos_value_range [OF assms(1)] by simp_all
  then show ?thesis using True by simp
next
  case False
  then show ?thesis using unsigned_value_fits [OF assms(1,2)] assms(3) by simp
qed

lemma decode_binary_spec:
  "case decode_binary bs is_signed of
      Inr v \<Rightarrow> bs \<noteq> [] \<and> length bs \<le> 16 \<and>
        sint v = (if is_signed then twos_value bs else int (be_value bs))
    | Inl (Invalid m) \<Rightarrow> bs = []
    | Inl (Unsupported m) \<Rightarrow> 16 < length bs \<or> (\<not> is_signed \<and> 2 ^ 127 \<le> be_value bs)
    | Inl e \<Rightarrow> False"
proof -
  consider "bs = []" | "bs \<noteq> []" "16 < length bs"
    | "bs \<noteq> []" "length bs = 16" "\<not> is_signed" "128 \<le> unat (hd bs)"
    | "bs \<noteq> []" "length bs \<le> 16" "is_signed \<or> length bs < 16 \<or> unat (hd bs) < 128"
    by linarith
  then show ?thesis
  proof cases
    case 3
    then have "128 * 256 ^ 15 \<le> be_value bs" using be_value_hd [of bs] by simp
    with 3 show ?thesis
      using first_byte [of bs] by (simp add: decode_binary_def MAX_BINARY_BYTES_def)
  next
    case 4
    let ?k = "if is_signed \<and> 128 \<le> unat (hd bs) then - 1 else 0 :: int"
    let ?v = "?k * 256 ^ length bs + int (be_value bs)"
    have num: "?v = (if is_signed then twos_value bs else int (be_value bs))"
      by (simp add: twos_value_def)
    have dec: "decode_binary bs is_signed = Inr (word_of_int ?v)"
      using 4 first_byte [of bs]
      by (auto simp: decode_binary_def MAX_BINARY_BYTES_def fold_binary [of 0, simplified]
          fold_binary [of "-1", simplified])
    have "i128_min \<le> ?v \<and> ?v \<le> i128_max" unfolding num by (rule binary_value_fits [OF 4])
    then have "sint (word_of_int ?v :: i128) = ?v" by (intro sint_of_int_i128) auto
    with dec num 4 show ?thesis by simp
  qed (simp_all add: decode_binary_def MAX_BINARY_BYTES_def)
qed

text \<open>C21. A binary field of one to sixteen bytes decodes to its big-endian value, in two's
complement when signed, and never to a wrapped number: an unsigned sixteen-byte value above
\<^verbatim>\<open>i128::MAX\<close> and a wider field are refused as unsupported, an empty one as invalid.\<close>

theorem decode_binary_correct:
  "case decode_binary bs is_signed of
      Inr v \<Rightarrow> bs \<noteq> [] \<and> length bs \<le> 16 \<and>
        sint v = (if is_signed then twos_value bs else int (be_value bs))
    | Inl (Invalid m) \<Rightarrow> bs = []
    | Inl (Unsupported m) \<Rightarrow> 16 < length bs \<or> (\<not> is_signed \<and> 2 ^ 127 \<le> be_value bs)
    | Inl e \<Rightarrow> False"
  by (rule decode_binary_spec)

subsection \<open>Rendering\<close>

abbreviation ascii_digits :: "nat list \<Rightarrow> rstr" where
  "ascii_digits ds \<equiv> map (\<lambda>d. 48 + d) ds"

lemma pad_digits_zero: "ascii_digits (pad_digits k 0) = replicate k 48"
  by (induction k) (simp_all add: replicate_append_same)

lemma render_nat_padded:
  "replicate (k + 1 - length (render_nat m)) 48 @ render_nat m =
     (if length (render_nat m) \<le> k then render_nat (m div 10 ^ k) @ ascii_digits (pad_digits k m)
      else render_nat m)
   \<and> (k < length (render_nat m) \<longrightarrow>
        render_nat m = render_nat (m div 10 ^ k) @ ascii_digits (pad_digits k m))"
proof (induction k arbitrary: m)
  case 0
  show ?case using render_nat_nonempty [of m] by (cases "render_nat m") auto
next
  case (Suc k)
  show ?case
  proof (cases "m < 10")
    case True
    have "replicate (Suc k) 48 = render_nat 0 @ replicate k (48 :: nat)"
      by (simp add: render_nat.simps [of 0])
    with True show ?thesis
      by (simp add: render_nat.simps [of m] pad_digits_zero div_less power_Suc_less_one
          order.strict_trans2 [of m 10] del: replicate.simps)
  next
    case False
    then have D: "render_nat m = render_nat (m div 10) @ [48 + m mod 10]"
      by (simp add: render_nat.simps [of m])
    have "m div (10 * 10 ^ k) = m div 10 div 10 ^ k" by (simp add: div_mult2_eq)
    with Suc [of "m div 10"] show ?thesis by (auto simp: D)
  qed
qed

lemma padded_digits:
  "(if length (render_nat m) \<le> k
    then replicate (k + 1 - length (render_nat m)) 48 @ render_nat m else render_nat m) =
   render_nat (m div 10 ^ k) @ ascii_digits (pad_digits k m)"
  using render_nat_padded [of k m] by auto

lemma render_decimal_closed:
  "render_decimal u sc =
     (if sint u < 0 then [45] else []) @ render_nat (nat \<bar>sint u\<bar> div 10 ^ sc) @
     (if sc = 0 then [] else 46 # ascii_digits (pad_digits sc (nat \<bar>sint u\<bar>)))"
proof (cases "sc = 0")
  case True
  then show ?thesis by (simp add: render_decimal_def render_int_def)
next
  case False
  then show ?thesis by (simp add: render_decimal_def Let_def padded_digits)
qed

lemma render_decimal_parse:
  "parse_i128 (filter (\<lambda>c. c \<noteq> 46) (render_decimal u sc)) = Some (sint u)"
proof -
  let ?m = "nat \<bar>sint u\<bar>"
  let ?w = "render_nat (?m div 10 ^ sc)" and ?f = "ascii_digits (pad_digits sc ?m)"
  let ?s = "if sint u < 0 then [45] else [] :: rstr"
  have wf: "digits_value (?w @ ?f) = ?m"
    using div_mult_mod_eq [of ?m "10 ^ sc"]
    by (simp only: digits_value_append digits_value_render_nat dec_value_digits_value [symmetric]
        dec_value_pad_digits_mod length_map length_pad_digits)
  have dig: "list_all is_ascii_digit (?w @ ?f)"
    by (auto simp: list_all_iff is_ascii_digit_def dest: render_nat_digits pad_digits_digit)
  have nodot: "filter (\<lambda>c. c \<noteq> 46) (?w @ ?f) = ?w @ ?f"
    using dig unfolding list_all_iff
    by (intro filter_True ballI) (auto simp: is_ascii_digit_def simp del: set_append)
  then have filt: "filter (\<lambda>c. c \<noteq> 46) (render_decimal u sc) = ?s @ ?w @ ?f"
    unfolding render_decimal_closed by simp
  obtain c r where cr: "?w @ ?f = c # r" using render_nat_nonempty by (cases "?w @ ?f") auto
  with dig have c: "c \<noteq> 45" "strip_plus (c # r) = c # r"
    by (auto simp: is_ascii_digit_def strip_plus_def)
  have pd: "parse_digits (?w @ ?f) = Some ?m"
    using dig wf by (simp add: parse_digits_def)
  have "parse_i128 (?s @ ?w @ ?f) = Some (sint u)"
    using sint_i128_bounds [of u] pd c unfolding parse_i128_def cr by auto
  then show ?thesis unfolding filt .
qed

lemma render_small: "render_decimal 1 8 = lit ''0.00000001''"
  by (simp add: render_decimal_def render_nat.simps lit_def eval_nat_numeral)

text \<open>C33. \<^verbatim>\<open>render_decimal\<close> is exact, in plain notation, for every \<^verbatim>\<open>i128\<close>, \<^verbatim>\<open>i128::MIN\<close>
included, and every scale: the sign, the whole part without leading zeros, and exactly \<open>scale\<close> digits
after the point. Reading the text back without its point gives the unscaled number. The comment of
the function says that the text is that of Python's \<^verbatim>\<open>str(Decimal(n).scaleb(-scale))\<close> at every scale
of a copybook; it is not where Python writes an exponent: for 1 at scale 8, a \<^verbatim>\<open>PIC V9(8)\<close>, the text
is 0.00000001 and Python's is 1E-8.\<close>

theorem render_decimal_exact:
  "render_decimal u sc =
     (if sint u < 0 then [45] else []) @ render_nat (nat \<bar>sint u\<bar> div 10 ^ sc) @
     (if sc = 0 then [] else 46 # ascii_digits (pad_digits sc (nat \<bar>sint u\<bar>)))
   \<and> parse_i128 (filter (\<lambda>c. c \<noteq> 46) (render_decimal u sc)) = Some (sint u)
   \<and> render_decimal 1 8 = lit ''0.00000001''"
  using render_decimal_closed render_decimal_parse render_small by blast

text \<open>Both the number and the scale can be read back from the text.\<close>

definition fraction_digits :: "rstr \<Rightarrow> nat" where
  "fraction_digits s = (if 46 \<in> set s then length (takeWhile (\<lambda>c. c \<noteq> 46) (rev s)) else 0)"

lemma fraction_digits_render [simp]: "fraction_digits (render_decimal u s) = s"
proof (cases "s = 0")
  case True
  then have "46 \<notin> set (render_decimal u s)"
    using render_nat_not [of 46] by (auto simp: render_decimal_closed is_ascii_digit_def)
  with True show ?thesis by (simp add: fraction_digits_def)
next
  case False
  have "\<forall>c \<in> set (ascii_digits (pad_digits s n)). c \<noteq> 46" for n
    by (auto dest: pad_digits_digit)
  then have "takeWhile (\<lambda>c. c \<noteq> 46) (rev (ascii_digits (pad_digits s n)) @ 46 # w) =
      rev (ascii_digits (pad_digits s n))" for n w
    by (subst takeWhile_append2) auto
  with False show ?thesis by (simp add: fraction_digits_def render_decimal_closed)
qed

lemma render_decimal_inject:
  assumes eq: "render_decimal u s = render_decimal v t"
  shows "u = v \<and> s = t"
proof
  have "Some (sint u) = Some (sint v)"
    using render_decimal_parse [of u s] render_decimal_parse [of v t] unfolding eq by metis
  then show "u = v" by (simp add: signed_word_eqI)
  show "s = t" using fraction_digits_render [of u s] fraction_digits_render [of v t] unfolding eq by simp
qed

subsection \<open>Character fields\<close>

text \<open>What stripping and trimming keep of a decoded text.\<close>

definition strip_text :: "bool \<Rightarrow> rstr \<Rightarrow> rstr" where
  "strip_text strip_control t = trim (if strip_control then filter (\<lambda>c. \<not> is_control c) t else t)"

lemma decode_text_eq:
  "decode_text c bs strip = rbind (map_err from_codec_error (decode c bs)) (\<lambda>t. Inr (strip_text strip t))"
  by (simp add: decode_text_def strip_text_def)

lemma length_trim: "length (trim s) \<le> length s"
  by (simp add: trim_def) (metis le_trans length_dropWhile_le length_rev)

lemma trim_append_whitespace: "\<forall>c \<in> set w. is_whitespace c \<Longrightarrow> trim (s @ w) = trim s"
proof -
  assume w: "\<forall>c \<in> set w. is_whitespace c"
  show ?thesis
  proof (cases "\<exists>c \<in> set s. \<not> is_whitespace c")
    case True
    then have "dropWhile is_whitespace (s @ w) = dropWhile is_whitespace s @ w"
      using dropWhile_append1 by metis
    moreover have "dropWhile is_whitespace (rev w @ v) = dropWhile is_whitespace v" for v
      using w by (intro dropWhile_append2) auto
    ultimately show ?thesis by (simp add: trim_def)
  next
    case False
    with w have "dropWhile is_whitespace (s @ w) = []" "dropWhile is_whitespace s = []"
      by (auto simp: dropWhile_eq_Nil_conv)
    then show ?thesis by (simp only: trim_def)
  qed
qed

lemma blank_is_space: "c \<in> set CODE_PAGES \<Longrightarrow> page_table c ! 64 = 32"
  by (auto simp: CODE_PAGES_def CP037_def CP273_def CP424_def CP500_def CP875_def CP1026_def
      CP1140_def)

lemma decode_blanks: "c \<in> set CODE_PAGES \<Longrightarrow> decode c (replicate n 0x40) = Inr (replicate n 32)"
  by (simp add: decode_Inr_iff blank_is_space UNDEFINED_def)

text \<open>A text field holds what was written into it: text that the code page can encode, with
no control characters and no white space at its ends, comes back unchanged from a field padded
with EBCDIC blanks, whether or not control characters are stripped.\<close>

theorem text_field_roundtrip:
  assumes "c \<in> set CODE_PAGES" and "encode c t = Inr bs"
    and "trim t = t" and "\<forall>ch \<in> set t. \<not> is_control ch"
  shows "decode_text c (bs @ replicate n 0x40) strip = Inr t"
proof -
  have "decode c bs = Inr t" using assms(1,2) by (rule encode_Inr_decode)
  then have dec: "decode c (bs @ replicate n 0x40) = Inr (t @ replicate n 32)"
    using decode_blanks [OF assms(1), of n] by (auto simp: decode_Inr_iff [OF assms(1)])
  have "filter (\<lambda>ch. \<not> is_control ch) (t @ replicate n 32) = t @ replicate n 32"
    using assms(4) by (auto simp: filter_id_conv is_control_def)
  moreover have "trim (t @ replicate n 32) = t"
    using assms(3) by (simp add: trim_append_whitespace is_whitespace_def)
  ultimately show ?thesis by (simp add: decode_text_eq strip_text_def dec)
qed

theorem text_field_roundtrip_witness:
  "decode_text (CODE_PAGES ! 0) [0xc1, 0x40, 0xf5, 0x40, 0x40] True = Inr (lit ''A 5'')"
proof -
  have c: "CODE_PAGES ! 0 \<in> set CODE_PAGES" by (simp add: CODE_PAGES_def)
  have "decode (CODE_PAGES ! 0) [0xc1, 0x40, 0xf5] = Inr (lit ''A 5'')"
    by (simp add: decode_Inr_iff [OF c]) (simp add: CODE_PAGES_def CP037_def lit_def UNDEFINED_def)
  then have "encode (CODE_PAGES ! 0) (lit ''A 5'') = Inr [0xc1, 0x40, 0xf5]"
    by (rule decode_encode_injective [OF c, rotated]) (simp add: CODE_PAGES_def distinct_CP037)
  moreover have "trim (lit ''A 5'') = lit ''A 5''" "\<forall>ch \<in> set (lit ''A 5''). \<not> is_control ch"
    by (simp_all add: lit_def trim_def is_whitespace_def is_control_def)
  ultimately have "decode_text (CODE_PAGES ! 0) ([0xc1, 0x40, 0xf5] @ replicate 2 0x40) True =
      Inr (lit ''A 5'')"
    by (rule text_field_roundtrip [OF c])
  then show ?thesis by (simp only: numeral_2_eq_2 replicate.simps append.simps)
qed

lemma decode_text_shape:
  assumes "c \<in> set CODE_PAGES" and "decode_text c bs strip = Inr t"
  shows "length t \<le> length bs" and "trim t = t" and "strip \<Longrightarrow> \<forall>ch \<in> set t. \<not> is_control ch"
proof -
  obtain u where u: "decode c bs = Inr u" "t = strip_text strip u"
    using assms(2) by (auto simp: decode_text_eq result_simps)
  have "length (filter P u) \<le> length u" for P by (rule length_filter_le)
  then have "length t \<le> length u"
    unfolding u(2) strip_text_def using le_trans [OF length_trim] by (cases strip) simp_all
  moreover have "length u = length bs" using u(1) by (auto simp: decode_Inr_iff [OF assms(1)])
  ultimately show "length t \<le> length bs" by simp
  show "trim t = t" by (simp add: u(2) strip_text_def)
  show "\<forall>ch \<in> set t. \<not> is_control ch" if strip
    using that set_trim [of "filter (\<lambda>c. \<not> is_control c) u"] by (auto simp: u(2) strip_text_def)
qed

end
