(* ===== verification/Layout.thy ===== *)
theory Layout
  imports Wire Decode
begin

section \<open>The normalized layout and its validation\<close>

text \<open>
  The model of \<^verbatim>\<open>src/layout.rs\<close>: the internal layout, its protobuf views, the raw layout the
  three request forms reduce to, and \<open>validate\<close>, which turns one into the other or says why
  it cannot. The loop of \<^verbatim>\<open>validate\<close> over the records is \<open>validate_records\<close>, the loop over
  the fields of a record \<open>validate_fields\<close>; the \<^verbatim>\<open>BTreeSet\<close>s are sets and are threaded as
  arguments. \<open>wf_layout\<close> is what every validated layout satisfies.
\<close>

definition DEFAULT_RECORD_NAME :: rstr where
  "DEFAULT_RECORD_NAME = lit ''record''"

definition MAX_RECORD_BYTES :: nat where
  "MAX_RECORD_BYTES = 16 * 1024 * 1024"

definition MAX_LAYOUT_FIELDS :: nat where
  "MAX_LAYOUT_FIELDS = 65536"

definition MAX_FOOTER_BYTES :: nat where
  "MAX_FOOTER_BYTES = 16 * 1024 * 1024"

definition MAX_BINARY_DIGITS :: nat where
  "MAX_BINARY_DIGITS = 39"

subsection \<open>Fields\<close>

datatype field_kind =
    KText
  | KInteger
  | KUnsignedInteger
  | KPackedDecimal
  | KZonedDecimal
  | KSkip

fun kind_to_proto :: "field_kind \<Rightarrow> field_type" where
  "kind_to_proto KText = TypeString"
| "kind_to_proto KInteger = TypeInteger"
| "kind_to_proto KUnsignedInteger = TypeUnsignedInteger"
| "kind_to_proto KPackedDecimal = TypePackedDecimal"
| "kind_to_proto KZonedDecimal = TypeZonedDecimal"
| "kind_to_proto KSkip = TypeSkip"

definition kind_from_proto :: "int \<Rightarrow> parse_error + field_kind" where
  "kind_from_proto value =
     (case field_type_try_from value of
        Some TypeUnspecified \<Rightarrow> Inr KText
      | Some TypeString \<Rightarrow> Inr KText
      | Some TypeInteger \<Rightarrow> Inr KInteger
      | Some TypeUnsignedInteger \<Rightarrow> Inr KUnsignedInteger
      | Some TypePackedDecimal \<Rightarrow> Inr KPackedDecimal
      | Some TypeZonedDecimal \<Rightarrow> Inr KZonedDecimal
      | Some TypeSkip \<Rightarrow> Inr KSkip
      | None \<Rightarrow> Inl (Unsupported [MLit ''field type '', MInt value,
                                  MLit '' is not one this build decodes'']))"

definition is_numeric :: "field_kind \<Rightarrow> bool" where
  "is_numeric kind =
     (kind = KInteger \<or> kind = KUnsignedInteger \<or> kind = KPackedDecimal \<or> kind = KZonedDecimal)"

record condition_value =
  cv_low :: rstr
  cv_high :: "rstr option"

definition condition_literal :: "rstr \<Rightarrow> condition_value" where
  "condition_literal low = \<lparr>cv_low = low, cv_high = None\<rparr>"

definition condition_to_flat :: "condition_value \<Rightarrow> rstr" where
  "condition_to_flat v =
     (case cv_high v of None \<Rightarrow> cv_low v | Some high \<Rightarrow> cv_low v @ lit '' THRU '' @ high)"

definition condition_value_to_proto :: "condition_value \<Rightarrow> wire_condition_value" where
  "condition_value_to_proto v = \<lparr>wcv_low = cv_low v, wcv_high = cv_high v\<rparr>"

record condition_name =
  cn_name :: rstr
  cn_values :: "condition_value list"

definition condition_name_to_proto :: "condition_name \<Rightarrow> wire_condition_name" where
  "condition_name_to_proto c =
     \<lparr>wcn_name = cn_name c,
      wcn_values = map condition_to_flat (cn_values c),
      wcn_ranges = map condition_value_to_proto (cn_values c)\<rparr>"

record decl =
  decl_level :: "nat option"
  decl_path :: rstr
  decl_occurs_index :: "nat option"
  decl_occurs_group :: "rstr option"
  decl_conditions :: "condition_name list"

text \<open>\<^verbatim>\<open>Declaration::default()\<close>.\<close>

definition empty_declaration :: decl where
  "empty_declaration =
     \<lparr>decl_level = None, decl_path = [], decl_occurs_index = None, decl_occurs_group = None,
      decl_conditions = []\<rparr>"

record field =
  field_name :: rstr
  field_offset :: nat
  field_size :: nat
  field_kind :: field_kind
  field_scale :: nat
  field_picture :: rstr
  field_declaration :: decl

definition field_to_schema :: "field \<Rightarrow> field_schema" where
  "field_to_schema f =
     \<lparr>fs_name = field_name f, fs_offset = field_offset f, fs_size = field_size f,
      fs_type = field_type_number (kind_to_proto (field_kind f)),
      fs_scale = field_scale f, fs_picture = field_picture f,
      fs_level = decl_level (field_declaration f),
      fs_path = decl_path (field_declaration f),
      fs_occurs_index = decl_occurs_index (field_declaration f),
      fs_occurs_group = decl_occurs_group (field_declaration f),
      fs_conditions = map condition_name_to_proto (decl_conditions (field_declaration f))\<rparr>"

subsection \<open>Records and layouts\<close>

record record_layout =
  record_name :: rstr
  record_fields :: "field list"
  record_size :: nat
  record_selector :: "rstr option"

definition record_to_schema :: "record_layout \<Rightarrow> record_schema" where
  "record_to_schema r =
     \<lparr>rs_name = record_name r, rs_record_length = record_size r,
      rs_fields = map field_to_schema (record_fields r), rs_selector = record_selector r\<rparr>"

record layout =
  layout_records :: "record_layout list"
  layout_description :: rstr
  layout_header_size :: nat
  layout_footer_size :: nat
  layout_length_field :: "field option"
  layout_type_field :: "field option"
  layout_prefix_size :: nat
  layout_source_of :: layout_source

definition select :: "layout \<Rightarrow> rstr option \<Rightarrow> record_layout option" where
  "select l record_type =
     (case layout_type_field l of
        None \<Rightarrow> (case layout_records l of [] \<Rightarrow> None | r # _ \<Rightarrow> Some r)
      | Some _ \<Rightarrow> find (\<lambda>r. record_selector r = record_type) (layout_records l))"

definition to_layout_info :: "layout \<Rightarrow> rstr \<Rightarrow> layout_info" where
  "to_layout_info l encoding =
     \<lparr>li_encoding = encoding, li_records = map record_to_schema (layout_records l),
      li_description = layout_description l, li_header_size = layout_header_size l,
      li_footer_size = layout_footer_size l, li_prefix_size = layout_prefix_size l,
      li_source = layout_source_of l\<rparr>"

subsection \<open>The raw layout\<close>

record raw_field =
  raw_name :: rstr
  raw_size :: nat
  raw_kind :: field_kind
  raw_scale :: nat
  raw_picture :: rstr
  raw_offset :: "nat option"
  raw_declaration :: decl

record raw_record =
  raw_record_name :: rstr
  raw_fields :: "raw_field list"
  raw_selector :: "rstr option"

record raw_layout =
  raw_records :: "raw_record list"
  raw_description :: rstr
  raw_header_size :: nat
  raw_footer_size :: nat
  raw_length_field :: "raw_field option"
  raw_type_field :: "raw_field option"

subsection \<open>Checks on one field\<close>

text \<open>
  The context of a message is the role of a prefix field or the record the field is in, given
  as its message parts.
\<close>

fun width_limit :: "field_kind \<Rightarrow> nat" where
  "width_limit KPackedDecimal = MAX_PACKED_BYTES"
| "width_limit KZonedDecimal = MAX_ZONED_BYTES"
| "width_limit KInteger = MAX_BINARY_BYTES"
| "width_limit KUnsignedInteger = MAX_BINARY_BYTES"
| "width_limit KText = MAX_RECORD_BYTES"
| "width_limit KSkip = MAX_RECORD_BYTES"

definition check_width :: "raw_field \<Rightarrow> msg \<Rightarrow> parse_error + unit" where
  "check_width f context =
     guard (width_limit (raw_kind f) < raw_size f)
       (Unsupported (context @ [MLit '' field '', MDbg (raw_name f), MLit '' is '',
          MNat (raw_size f), MLit '' bytes; this build decodes at most '',
          MNat (width_limit (raw_kind f))]))
       (Inr ())"

definition digit_limit :: "field_kind \<Rightarrow> nat \<Rightarrow> nat" where
  "digit_limit kind n =
     (case kind of
        KPackedDecimal \<Rightarrow> saturating_mul_u32 n 2 - 1
      | KZonedDecimal \<Rightarrow> n
      | _ \<Rightarrow> MAX_BINARY_DIGITS)"

definition check_scale :: "raw_field \<Rightarrow> msg \<Rightarrow> parse_error + unit" where
  "check_scale f context =
     (if raw_scale f = 0 \<or> raw_kind f = KSkip then Inr ()
      else
        guard (\<not> is_numeric (raw_kind f))
          (Invalid (context @ [MLit '' field '', MDbg (raw_name f), MLit '' has scale '',
             MNat (raw_scale f), MLit '' but is not a numeric field''])) (
        guard (digit_limit (raw_kind f) (raw_size f) < raw_scale f)
          (Invalid (context @ [MLit '' field '', MDbg (raw_name f), MLit '' has scale '',
             MNat (raw_scale f), MLit '' but holds at most '',
             MNat (digit_limit (raw_kind f) (raw_size f)), MLit '' digits'']))
          (Inr ())))"

definition prefix_field :: "raw_field \<Rightarrow> string \<Rightarrow> parse_error + field" where
  "prefix_field raw role =
     guard (raw_size raw = 0)
       (Invalid [MLit ''the '', MLit role, MLit '' field must be at least one byte'']) (
     guard (raw_kind raw = KSkip)
       (Invalid [MLit ''the '', MLit role,
          MLit '' field cannot be a filler: its value is what it is there for'']) (
     rbind (check_width raw [MLit role]) (\<lambda>_.
     rbind (check_scale raw [MLit role]) (\<lambda>_.
     let name = (if raw_name raw = [] then lit role else raw_name raw) in
     Inr \<lparr>field_name = name, field_offset = 0, field_size = raw_size raw,
          field_kind = raw_kind raw, field_scale = raw_scale raw,
          field_picture = raw_picture raw,
          field_declaration = (raw_declaration raw)\<lparr>decl_path := name\<rparr>\<rparr>))))"

subsection \<open>Validation\<close>

definition record_context :: "rstr \<Rightarrow> msg" where
  "record_context name = [MLit ''record '', MDbg name]"

text \<open>One turn of the loop over the fields: \<^verbatim>\<open>cursor\<close> and \<^verbatim>\<open>field_names\<close> are threaded.\<close>

definition validate_field ::
  "rstr \<Rightarrow> nat \<Rightarrow> rstr set \<Rightarrow> raw_field \<Rightarrow> parse_error + (field \<times> nat \<times> rstr set)" where
  "validate_field name cursor field_names raw =
     guard (raw_size raw = 0)
       (Invalid [MLit ''field '', MDbg (raw_name raw), MLit '' of record '', MDbg name,
          MLit '' has zero width'']) (
     rbind (check_width raw (record_context name)) (\<lambda>_.
     rbind (case raw_offset raw of
              None \<Rightarrow> Inr cursor
            | Some declared \<Rightarrow>
                if cursor \<le> declared then Inr declared
                else Inl (Invalid [MLit ''field '', MDbg (raw_name raw), MLit '' of record '',
                       MDbg name, MLit '' declares offset '', MNat declared,
                       MLit '' but the fields before it already reach '', MNat cursor,
                       MLit ''; fields may not overlap''])) (\<lambda>offset.
     rbind (ok_or (Invalid [MLit ''record '', MDbg name,
                     MLit '' overflows a 32-bit record length''])
              (checked_add_u32 offset (raw_size raw))) (\<lambda>cursor.
     guard (MAX_RECORD_BYTES < cursor)
       (Unsupported [MLit ''record '', MDbg name, MLit '' is at least '', MNat cursor,
          MLit '' bytes; this build decodes records up to '', MNat MAX_RECORD_BYTES,
          MLit '' bytes'']) (
     guard (raw_kind raw \<noteq> KSkip \<and> raw_name raw \<in> field_names)
       (Invalid [MLit ''record '', MDbg name, MLit '' has two fields named '',
          MDbg (raw_name raw), MLit ''; cells are addressed by name, so '',
          MLit ''qualify one of them or mark it as a filler'']) (
     guard (raw_kind raw \<noteq> KSkip \<and> raw_name raw = [])
       (Invalid [MLit ''a field of record '', MDbg name,
          MLit '' has no name; only fillers may be anonymous'']) (
     rbind (check_scale raw (record_context name)) (\<lambda>_.
     let declared = raw_declaration raw;
         path = (if decl_path declared = [] then raw_name raw else decl_path declared) in
     Inr (\<lparr>field_name = raw_name raw, field_offset = offset, field_size = raw_size raw,
           field_kind = raw_kind raw, field_scale = raw_scale raw,
           field_picture = raw_picture raw,
           field_declaration = declared\<lparr>decl_path := path\<rparr>\<rparr>,
          cursor,
          if raw_kind raw \<noteq> KSkip then insert (raw_name raw) field_names
          else field_names)))))))))"

fun validate_fields ::
  "rstr \<Rightarrow> nat \<Rightarrow> rstr set \<Rightarrow> raw_field list \<Rightarrow> parse_error + (field list \<times> nat)" where
  "validate_fields name cursor field_names [] = Inr ([], cursor)"
| "validate_fields name cursor field_names (raw # rest) =
     rbind (validate_field name cursor field_names raw) (\<lambda>(f, cursor, field_names).
     rbind (validate_fields name cursor field_names rest) (\<lambda>(fs, size).
     Inr (f # fs, size)))"

text \<open>One turn of the loop over the records, with \<^verbatim>\<open>names\<close> and \<^verbatim>\<open>selectors\<close> threaded.\<close>

definition schema_name :: "raw_record \<Rightarrow> rstr" where
  "schema_name raw = (if raw_record_name raw = [] then DEFAULT_RECORD_NAME else raw_record_name raw)"

definition check_selector ::
  "bool \<Rightarrow> rstr \<Rightarrow> rstr set \<Rightarrow> rstr option \<Rightarrow> parse_error + rstr set" where
  "check_selector typed name selectors selector =
     (if \<not> typed then Inr selectors
      else case selector of
        None \<Rightarrow> Inl (Invalid [MLit ''record schema '', MDbg name,
                  MLit '' needs a selector: the layout has a record_type_field '',
                  MLit ''and every schema must say which value picks it''])
      | Some s \<Rightarrow>
          guard (s \<in> selectors)
            (Invalid [MLit ''record selector '', MDbg s,
               MLit '' matches two schemas; a record must resolve to exactly one layout''])
            (Inr (insert s selectors)))"

definition validate_record ::
  "bool \<Rightarrow> rstr set \<Rightarrow> rstr set \<Rightarrow> raw_record \<Rightarrow>
     parse_error + (record_layout \<times> rstr set \<times> rstr set)" where
  "validate_record typed names selectors raw =
     (let name = schema_name raw in
      guard (name \<in> names)
        (Invalid [MLit ''two record schemas are both named '', MDbg name,
           MLit ''; schema names identify the rows they produce and must be unique'']) (
      rbind (check_selector typed name selectors (raw_selector raw)) (\<lambda>selectors.
      guard (raw_fields raw = [])
        (Invalid [MLit ''record schema '', MDbg name, MLit '' has no fields'']) (
      rbind (validate_fields name 0 {} (raw_fields raw)) (\<lambda>(fields, n).
      Inr (\<lparr>record_name = name, record_fields = fields, record_size = n,
            record_selector = raw_selector raw\<rparr>,
           insert name names, selectors))))))"

fun validate_records ::
  "bool \<Rightarrow> rstr set \<Rightarrow> rstr set \<Rightarrow> raw_record list \<Rightarrow> parse_error + record_layout list" where
  "validate_records typed names selectors [] = Inr []"
| "validate_records typed names selectors (raw # rest) =
     rbind (validate_record typed names selectors raw) (\<lambda>(r, names, selectors).
     rbind (validate_records typed names selectors rest) (\<lambda>rs.
     Inr (r # rs)))"

definition width_of :: "field option \<Rightarrow> nat" where
  "width_of f = (case f of None \<Rightarrow> 0 | Some f \<Rightarrow> field_size f)"

definition validate :: "raw_layout \<Rightarrow> layout_source \<Rightarrow> parse_error + layout" where
  "validate raw source =
     guard (raw_records raw = [])
       (Invalid [MLit ''a layout needs at least one record schema'']) (
     guard (MAX_FOOTER_BYTES < raw_footer_size raw)
       (Unsupported [MLit ''footer_size '', MNat (raw_footer_size raw), MLit '' exceeds the '',
          MNat MAX_FOOTER_BYTES, MLit ''-byte limit; footer bytes are held in memory '',
          MLit ''for the whole parse'']) (
     rbind (rtraverse (\<lambda>f. prefix_field f ''record_length'') (raw_length_field raw))
       (\<lambda>length_field.
     guard (\<exists>f \<in> set_option length_field. field_scale f \<noteq> 0)
       (Invalid [MLit ''the record_length field must have scale 0: a record cannot be a '',
          MLit ''fraction of a byte long'']) (
     rbind (rtraverse (\<lambda>f. prefix_field f ''record_type'') (raw_type_field raw)) (\<lambda>type_field.
     let prefix_size = width_of length_field + width_of type_field;
         type_field =
           map_option (\<lambda>f. f\<lparr>field_offset := width_of length_field\<rparr>) type_field;
         declared = sum_list (map (length \<circ> raw_fields) (raw_records raw)) in
     guard (1 < length (raw_records raw) \<and> type_field = None)
       (Invalid [MLit ''a layout with more than one record schema needs a record_type_field '',
          MLit ''to choose between them'']) (
     guard (MAX_LAYOUT_FIELDS < declared)
       (Unsupported [MLit ''the layout declares '', MNat declared,
          MLit '' fields; this build accepts at most '', MNat MAX_LAYOUT_FIELDS]) (
     rbind (validate_records (type_field \<noteq> None) {} {} (raw_records raw)) (\<lambda>records.
     Inr \<lparr>layout_records = records, layout_description = raw_description raw,
          layout_header_size = raw_header_size raw, layout_footer_size = raw_footer_size raw,
          layout_length_field = length_field, layout_type_field = type_field,
          layout_prefix_size = prefix_size, layout_source_of = source\<rparr>))))))))"

subsection \<open>The protobuf form\<close>

definition field_from_proto :: "ebcdic_field \<Rightarrow> parse_error + raw_field" where
  "field_from_proto f =
     rbind (map_err (\<lambda>err. Unsupported
              ([MLit ''field '', MDbg (ef_name f), MLit '': ''] @ message err))
              (kind_from_proto (ef_type f))) (\<lambda>kind.
     Inr \<lparr>raw_name = ef_name f, raw_size = ef_size f, raw_kind = kind,
          raw_scale = ef_scale f, raw_picture = ef_picture f, raw_offset = ef_offset f,
          raw_declaration = empty_declaration\<rparr>)"

definition record_from_proto :: "ebcdic_record_layout \<Rightarrow> parse_error + raw_record" where
  "record_from_proto r =
     rbind (rmap field_from_proto (erl_fields r)) (\<lambda>fields.
     Inr \<lparr>raw_record_name = erl_name r, raw_fields = fields, raw_selector = erl_selector r\<rparr>)"

definition from_proto :: "ebcdic_layout \<Rightarrow> parse_error + raw_layout" where
  "from_proto l =
     rbind (rmap record_from_proto (el_records l)) (\<lambda>records.
     rbind (rtraverse field_from_proto (el_record_length_field l)) (\<lambda>length_field.
     rbind (rtraverse field_from_proto (el_record_type_field l)) (\<lambda>type_field.
     Inr \<lparr>raw_records = records, raw_description = el_description l,
          raw_header_size = el_header_size l, raw_footer_size = el_footer_size l,
          raw_length_field = length_field, raw_type_field = type_field\<rparr>)))"

subsection \<open>The JSON form\<close>

datatype json_field_type =
    JString
  | JInteger
  | JUnsignedInteger
  | JPackedDecimal
  | JZonedDecimal
  | JSkip

fun kind_from_json :: "json_field_type \<Rightarrow> field_kind" where
  "kind_from_json JString = KText"
| "kind_from_json JInteger = KInteger"
| "kind_from_json JUnsignedInteger = KUnsignedInteger"
| "kind_from_json JPackedDecimal = KPackedDecimal"
| "kind_from_json JZonedDecimal = KZonedDecimal"
| "kind_from_json JSkip = KSkip"

record json_field =
  jf_name :: rstr
  jf_size :: nat
  jf_type :: json_field_type
  jf_scale :: nat
  jf_offset :: "nat option"
  jf_picture :: "rstr option"

definition field_from_json :: "json_field \<Rightarrow> raw_field" where
  "field_from_json f =
     \<lparr>raw_name = jf_name f, raw_size = jf_size f, raw_kind = kind_from_json (jf_type f),
      raw_scale = jf_scale f,
      raw_picture = (case jf_picture f of None \<Rightarrow> [] | Some p \<Rightarrow> p),
      raw_offset = jf_offset f, raw_declaration = empty_declaration\<rparr>"

record json_record =
  jr_fields :: "json_field list"
  jr_name :: "rstr option"
  jr_selector :: "rstr option"

record json_layout =
  jl_records :: "json_record list"
  jl_description :: rstr
  jl_header_size :: nat
  jl_footer_size :: nat
  jl_record_length_field :: "json_field option"
  jl_record_type_field :: "json_field option"

text \<open>
  \<^verbatim>\<open>from_json\<close>. The parameter \<open>parse\<close> stands for \<^verbatim>\<open>serde_json::from_slice\<close> at the
  type \<^verbatim>\<open>JsonLayout\<close>; an error is the text it displays.
\<close>

definition from_json ::
  "(u8 list \<Rightarrow> rstr + json_layout) \<Rightarrow> u8 list \<Rightarrow> parse_error + raw_layout" where
  "from_json parse bytes =
     rbind (map_err (\<lambda>err. Invalid [MLit ''layout_json is not a Docling EbcdicLayout: '', MStr err])
              (parse bytes)) (\<lambda>parsed.
     Inr \<lparr>raw_records =
            map (\<lambda>r. \<lparr>raw_record_name = (case jr_name r of None \<Rightarrow> [] | Some n \<Rightarrow> n),
                      raw_fields = map field_from_json (jr_fields r),
                      raw_selector = jr_selector r\<rparr>) (jl_records parsed),
          raw_description = jl_description parsed,
          raw_header_size = jl_header_size parsed, raw_footer_size = jl_footer_size parsed,
          raw_length_field = map_option field_from_json (jl_record_length_field parsed),
          raw_type_field = map_option field_from_json (jl_record_type_field parsed)\<rparr>)"

end
