(* ===== verification/Layout_Correct.thy ===== *)
theory Layout_Correct
  imports Layout
begin

section \<open>What a validated layout guarantees\<close>

text \<open>
  \<open>wf_layout\<close> is the contract of \<^verbatim>\<open>validate\<close>: the rest of the program indexes records and
  prefixes by the offsets and widths of a layout and relies on it. The theorems show that the
  validator returns exactly the well-formed layouts, keeps what was declared, places fields
  without overlap, and makes the choice of a schema unambiguous.
\<close>

fun fields_from :: "nat \<Rightarrow> field list \<Rightarrow> nat \<Rightarrow> bool" where
  "fields_from c [] e = (e = c)"
| "fields_from c (f # fs) e =
     (c \<le> field_offset f \<and> 0 < field_size f \<and> fields_from (field_offset f + field_size f) fs e)"

definition scale_ok :: "field_kind \<Rightarrow> nat \<Rightarrow> nat \<Rightarrow> bool" where
  "scale_ok kind n sc \<longleftrightarrow>
     sc = 0 \<or> kind = KSkip \<or> (is_numeric kind \<and> sc \<le> digit_limit kind n)"

definition wf_field :: "field \<Rightarrow> bool" where
  "wf_field f \<longleftrightarrow>
     0 < field_size f \<and> field_size f \<le> width_limit (field_kind f) \<and>
     scale_ok (field_kind f) (field_size f) (field_scale f) \<and>
     (field_kind f \<noteq> KSkip \<longrightarrow> field_name f \<noteq> []) \<and>
     (decl_path (field_declaration f) = [] \<longrightarrow> field_name f = [])"

definition columns :: "field list \<Rightarrow> field list" where
  "columns fs = filter (\<lambda>f. field_kind f \<noteq> KSkip) fs"

definition wf_record :: "record_layout \<Rightarrow> bool" where
  "wf_record r \<longleftrightarrow>
     record_name r \<noteq> [] \<and> record_fields r \<noteq> [] \<and>
     fields_from 0 (record_fields r) (record_size r) \<and>
     record_size r \<le> MAX_RECORD_BYTES \<and>
     (\<forall>f \<in> set (record_fields r). wf_field f) \<and>
     distinct (map field_name (columns (record_fields r)))"

definition wf_prefix :: "nat \<Rightarrow> field \<Rightarrow> bool" where
  "wf_prefix off f \<longleftrightarrow>
     field_offset f = off \<and> 0 < field_size f \<and> field_kind f \<noteq> KSkip \<and>
     field_size f \<le> width_limit (field_kind f) \<and>
     scale_ok (field_kind f) (field_size f) (field_scale f) \<and>
     field_name f \<noteq> [] \<and> decl_path (field_declaration f) = field_name f"

definition wf_selectors :: "record_layout list \<Rightarrow> bool" where
  "wf_selectors rs \<longleftrightarrow>
     None \<notin> set (map record_selector rs) \<and> distinct (map record_selector rs)"

definition wf_layout :: "layout \<Rightarrow> bool" where
  "wf_layout l \<longleftrightarrow>
     layout_records l \<noteq> [] \<and>
     (\<forall>r \<in> set (layout_records l). wf_record r) \<and>
     distinct (map record_name (layout_records l)) \<and>
     layout_footer_size l \<le> MAX_FOOTER_BYTES \<and>
     (\<forall>f \<in> set_option (layout_length_field l). wf_prefix 0 f \<and> field_scale f = 0) \<and>
     (\<forall>f \<in> set_option (layout_type_field l). wf_prefix (width_of (layout_length_field l)) f) \<and>
     layout_prefix_size l = width_of (layout_length_field l) + width_of (layout_type_field l) \<and>
     (1 < length (layout_records l) \<longrightarrow> layout_type_field l \<noteq> None) \<and>
     (layout_type_field l \<noteq> None \<longrightarrow> wf_selectors (layout_records l)) \<and>
     sum_list (map (length \<circ> record_fields) (layout_records l)) \<le> MAX_LAYOUT_FIELDS"

subsection \<open>A layout as a raw layout\<close>

definition raw_of_field :: "field \<Rightarrow> raw_field" where
  "raw_of_field f =
     \<lparr>raw_name = field_name f, raw_size = field_size f, raw_kind = field_kind f,
      raw_scale = field_scale f, raw_picture = field_picture f,
      raw_offset = Some (field_offset f), raw_declaration = field_declaration f\<rparr>"

definition raw_of_record :: "record_layout \<Rightarrow> raw_record" where
  "raw_of_record r =
     \<lparr>raw_record_name = record_name r, raw_fields = map raw_of_field (record_fields r),
      raw_selector = record_selector r\<rparr>"

definition raw_of_layout :: "layout \<Rightarrow> raw_layout" where
  "raw_of_layout l =
     \<lparr>raw_records = map raw_of_record (layout_records l),
      raw_description = layout_description l,
      raw_header_size = layout_header_size l, raw_footer_size = layout_footer_size l,
      raw_length_field = map_option raw_of_field (layout_length_field l),
      raw_type_field = map_option raw_of_field (layout_type_field l)\<rparr>"

text \<open>What a field keeps of its declaration.\<close>

definition keeps :: "raw_field \<Rightarrow> field \<Rightarrow> bool" where
  "keeps raw f \<longleftrightarrow>
     field_name f = raw_name raw \<and> field_size f = raw_size raw \<and> field_kind f = raw_kind raw \<and>
     field_scale f = raw_scale raw \<and> field_picture f = raw_picture raw \<and>
     raw_offset raw \<in> {None, Some (field_offset f)}"

subsection \<open>The checks\<close>

lemma check_width_Inr [simp]:
  "check_width f ctx = Inr u \<longleftrightarrow> raw_size f \<le> width_limit (raw_kind f)"
  by (auto simp: check_width_def result_simps)

lemma check_scale_Inr [simp]:
  "check_scale f ctx = Inr u \<longleftrightarrow> scale_ok (raw_kind f) (raw_size f) (raw_scale f)"
  by (auto simp: check_scale_def scale_ok_def result_simps)

lemma width_limit_le: "width_limit k \<le> MAX_RECORD_BYTES"
  by (cases k) (simp_all add: MAX_RECORD_BYTES_def MAX_PACKED_BYTES_def MAX_ZONED_BYTES_def
      MAX_BINARY_BYTES_def)

lemma validate_field_Inr:
  "validate_field name c ns raw = Inr (f, c', ns') \<longleftrightarrow>
     wf_field f \<and> keeps raw f \<and> c \<le> field_offset f \<and>
     (raw_offset raw = None \<longrightarrow> field_offset f = c) \<and>
     c' = field_offset f + field_size f \<and> c' \<le> MAX_RECORD_BYTES \<and>
     (field_kind f \<noteq> KSkip \<longrightarrow> field_name f \<notin> ns) \<and>
     field_declaration f =
       (raw_declaration raw)\<lparr>decl_path :=
          if decl_path (raw_declaration raw) = [] then raw_name raw
          else decl_path (raw_declaration raw)\<rparr> \<and>
     ns' = (if field_kind f \<noteq> KSkip then insert (field_name f) ns else ns)"
  (is "?L \<longleftrightarrow> ?R")
proof
  assume ?L
  then show ?R
    by (auto simp: validate_field_def result_simps Let_def wf_field_def keeps_def
        split: option.splits if_splits)
next
  assume R: ?R
  then have "c' \<le> u32_max" by (simp add: MAX_RECORD_BYTES_def)
  with R show ?L
    by (cases f) (auto simp: validate_field_def result_simps Let_def wf_field_def keeps_def
        split: option.splits)
qed

subsection \<open>The loops\<close>

lemma fields_from_le: "fields_from c fs e \<Longrightarrow> c \<le> e"
  by (induction fs arbitrary: c) (fastforce+)

lemma fields_from_bound: "fields_from c fs e \<Longrightarrow> f \<in> set fs \<Longrightarrow>
    c \<le> field_offset f \<and> field_offset f + field_size f \<le> e"
proof (induction fs arbitrary: c)
  case (Cons g gs)
  then show ?case using fields_from_le [of "field_offset g + field_size g" gs e] by fastforce
qed simp

lemma fields_from_disjoint:
  "fields_from c fs e \<Longrightarrow> i < j \<Longrightarrow> j < length fs \<Longrightarrow>
     field_offset (fs ! i) + field_size (fs ! i) \<le> field_offset (fs ! j)"
proof (induction fs arbitrary: c i j)
  case (Cons g gs)
  show ?case
  proof (cases i)
    case 0
    with Cons.prems obtain k where "j = Suc k" "k < length gs" by (cases j) auto
    with Cons.prems 0 show ?thesis
      using fields_from_bound [of "field_offset g + field_size g" gs e "gs ! k"] by simp
  next
    case (Suc m)
    with Cons.prems obtain k where "j = Suc k" by (cases j) auto
    with Suc Cons.prems Cons.IH [of "field_offset g + field_size g" m k] show ?thesis by simp
  qed
qed simp

lemma columns_Cons [simp]:
  "columns (f # fs) = (if field_kind f \<noteq> KSkip then f # columns fs else columns fs)"
  by (simp add: columns_def)

lemma columns_Nil [simp]: "columns [] = []"
  by (simp add: columns_def)

lemma validate_fields_sound:
  "validate_fields name c ns raws = Inr (fs, e) \<Longrightarrow>
     fields_from c fs e \<and> (\<forall>f \<in> set fs. wf_field f) \<and>
     distinct (map field_name (columns fs)) \<and> field_name ` set (columns fs) \<inter> ns = {} \<and>
     (c \<le> MAX_RECORD_BYTES \<longrightarrow> e \<le> MAX_RECORD_BYTES) \<and> list_all2 keeps raws fs"
proof (induction raws arbitrary: c ns fs)
  case Nil
  then show ?case by simp
next
  case (Cons raw raws)
  from Cons.prems obtain f c' ns' gs where
    f: "validate_field name c ns raw = Inr (f, c', ns')"
    and gs: "validate_fields name c' ns' raws = Inr (gs, e)" and fs: "fs = f # gs"
    by (auto simp: result_simps split: prod.splits)
  from f [unfolded validate_field_Inr] Cons.IH [OF gs] show ?case
    unfolding fs by (auto simp: wf_field_def)
qed

lemma validate_fields_complete:
  assumes "fields_from c fs e" and "\<forall>f \<in> set fs. wf_field f" and "e \<le> MAX_RECORD_BYTES"
    and "distinct (map field_name (columns fs))" and "field_name ` set (columns fs) \<inter> ns = {}"
  shows "validate_fields name c ns (map raw_of_field fs) = Inr (fs, e)"
  using assms
proof (induction fs arbitrary: c ns)
  case (Cons f fs)
  let ?c = "field_offset f + field_size f"
  let ?ns = "if field_kind f \<noteq> KSkip then insert (field_name f) ns else ns"
  have "?c \<le> e" using Cons.prems(1) by (auto dest: fields_from_le)
  moreover have "field_declaration f = (field_declaration f)\<lparr>decl_path :=
      if decl_path (field_declaration f) = [] then field_name f
      else decl_path (field_declaration f)\<rparr>"
    using Cons.prems(2) by (simp add: wf_field_def)
  ultimately have f: "validate_field name c ns (raw_of_field f) = Inr (f, ?c, ?ns)"
    using Cons.prems unfolding validate_field_Inr
    by (auto simp: raw_of_field_def keeps_def)
  have "validate_fields name ?c ?ns (map raw_of_field fs) = Inr (fs, e)"
    using Cons.prems by (intro Cons.IH) (auto simp: disjoint_iff image_iff split: if_splits)
  with f show ?case by simp
qed simp

lemma check_selector_Inr:
  "check_selector typed name sels sel = Inr sels' \<longleftrightarrow>
     (if typed then \<exists>s. sel = Some s \<and> s \<notin> sels \<and> sels' = insert s sels else sels' = sels)"
  by (auto simp: check_selector_def result_simps split: option.splits)

definition selectors_from :: "bool \<Rightarrow> rstr set \<Rightarrow> record_layout list \<Rightarrow> bool" where
  "selectors_from typed sels rs \<longleftrightarrow>
     (typed \<longrightarrow> None \<notin> set (map record_selector rs) \<and> distinct (map record_selector rs) \<and>
        record_selector ` set rs \<inter> Some ` sels = {})"

lemma validate_records_sound:
  "validate_records typed names sels raws = Inr rs \<Longrightarrow>
     (\<forall>r \<in> set rs. wf_record r) \<and> distinct (map record_name rs) \<and>
     record_name ` set rs \<inter> names = {} \<and> selectors_from typed sels rs \<and>
     list_all2 (\<lambda>raw r. list_all2 keeps (raw_fields raw) (record_fields r) \<and>
       record_name r = schema_name raw \<and> record_selector r = raw_selector raw) raws rs"
proof (induction raws arbitrary: names sels rs)
  case Nil
  then show ?case by (simp add: selectors_from_def)
next
  case (Cons raw raws)
  from Cons.prems obtain r names' sels' qs where
    r: "validate_record typed names sels raw = Inr (r, names', sels')"
    and qs: "validate_records typed names' sels' raws = Inr qs" and rs: "rs = r # qs"
    by (auto simp: result_simps split: prod.splits)
  from r obtain fs n where
    fields: "validate_fields (schema_name raw) 0 {} (raw_fields raw) = Inr (fs, n)"
    and sel: "check_selector typed (schema_name raw) sels (raw_selector raw) = Inr sels'"
    and parts: "raw_fields raw \<noteq> []" "schema_name raw \<notin> names"
      "names' = insert (schema_name raw) names"
      "r = \<lparr>record_name = schema_name raw, record_fields = fs, record_size = n,
            record_selector = raw_selector raw\<rparr>"
    by (auto simp: validate_record_def Let_def result_simps)
  note F = validate_fields_sound [OF fields]
  have name: "schema_name raw \<noteq> []"
    by (simp add: schema_name_def DEFAULT_RECORD_NAME_def lit_def)
  have "fs \<noteq> []" using F parts(1) by auto
  with F name parts have "wf_record r" by (auto simp: wf_record_def)
  moreover have "selectors_from typed sels (r # qs)"
    using sel Cons.IH [OF qs] parts(4)
    by (cases typed) (auto simp: selectors_from_def check_selector_Inr)
  ultimately show ?case
    using Cons.IH [OF qs] F parts unfolding rs by auto
qed

lemma validate_records_complete:
  assumes "\<forall>r \<in> set rs. wf_record r" and "distinct (map record_name rs)"
    and "record_name ` set rs \<inter> names = {}" and "selectors_from typed sels rs"
  shows "validate_records typed names sels (map raw_of_record rs) = Inr rs"
  using assms
proof (induction rs arbitrary: names sels)
  case (Cons r rs)
  let ?sels = "if typed then insert (the (record_selector r)) sels else sels"
  have wf: "wf_record r" using Cons.prems by simp
  then have name: "schema_name (raw_of_record r) = record_name r"
    by (simp add: wf_record_def schema_name_def raw_of_record_def)
  have "validate_fields (record_name r) 0 {} (map raw_of_field (record_fields r)) =
      Inr (record_fields r, record_size r)"
    using wf by (intro validate_fields_complete) (auto simp: wf_record_def)
  moreover have "check_selector typed (record_name r) sels (record_selector r) = Inr ?sels"
    using Cons.prems(4)
    by (cases "record_selector r") (auto simp: selectors_from_def check_selector_Inr)
  moreover have "\<lparr>record_name = record_name r, record_fields = record_fields r,
      record_size = record_size r, record_selector = record_selector r\<rparr> = r" by simp
  ultimately have "validate_record typed names sels (raw_of_record r) =
      Inr (r, insert (record_name r) names, ?sels)"
    using Cons.prems(3) wf unfolding validate_record_def Let_def name
    by (simp add: raw_of_record_def guard_def wf_record_def)
  moreover have "validate_records typed (insert (record_name r) names) ?sels
      (map raw_of_record rs) = Inr rs"
  proof (rule Cons.IH)
    show "selectors_from typed ?sels rs"
      using Cons.prems(4) by (auto simp: selectors_from_def)
  qed (use Cons.prems in auto)
  ultimately show ?case by simp
qed simp

subsection \<open>The whole layout\<close>

lemma prefix_field_Inr:
  "prefix_field raw role = Inr f \<Longrightarrow> role \<noteq> [] \<Longrightarrow>
     wf_prefix 0 f \<and> field_size f = raw_size raw \<and> field_kind f = raw_kind raw \<and>
     field_scale f = raw_scale raw"
  by (cases "raw_name raw = []")
    (auto simp: prefix_field_def wf_prefix_def result_simps Let_def lit_def)

lemma prefix_field_complete:
  "wf_prefix off f \<Longrightarrow> prefix_field (raw_of_field f) role = Inr (f\<lparr>field_offset := 0\<rparr>)"
  by (cases f) (auto simp: prefix_field_def wf_prefix_def result_simps Let_def raw_of_field_def
      guard_def)

lemma keeps_same: "list_all2 keeps raws fs \<Longrightarrow> length fs = length raws"
  by (rule list_all2_lengthD [symmetric])

lemma sum_fields_same:
  "list_all2 (\<lambda>raw r. list_all2 keeps (raw_fields raw) (record_fields r) \<and> P raw r) raws rs \<Longrightarrow>
     sum_list (map (length \<circ> record_fields) rs) = sum_list (map (length \<circ> raw_fields) raws)"
  by (induction rule: list_all2_induct) (auto dest: keeps_same)

lemma validate_sound:
  assumes "validate raw src = Inr l"
  shows "wf_layout l \<and> layout_source_of l = src \<and>
    list_all2 (\<lambda>raw r. list_all2 keeps (raw_fields raw) (record_fields r) \<and>
      record_name r = schema_name raw \<and> record_selector r = raw_selector raw)
      (raw_records raw) (layout_records l)"
proof -
  from assms obtain lf tf rs where
    lf: "rtraverse (\<lambda>f. prefix_field f ''record_length'') (raw_length_field raw) = Inr lf"
    and tf: "rtraverse (\<lambda>f. prefix_field f ''record_type'') (raw_type_field raw) = Inr tf"
    and rs: "validate_records (tf \<noteq> None) {} {} (raw_records raw) = Inr rs"
    and c: "raw_records raw \<noteq> []" "\<not> MAX_FOOTER_BYTES < raw_footer_size raw"
      "\<not> (\<exists>f \<in> set_option lf. field_scale f \<noteq> 0)"
      "\<not> (1 < length (raw_records raw) \<and> tf = None)"
      "\<not> MAX_LAYOUT_FIELDS < sum_list (map (length \<circ> raw_fields) (raw_records raw))"
    and l: "l = \<lparr>layout_records = rs, layout_description = raw_description raw,
          layout_header_size = raw_header_size raw, layout_footer_size = raw_footer_size raw,
          layout_length_field = lf,
          layout_type_field = map_option (\<lambda>f. f\<lparr>field_offset := width_of lf\<rparr>) tf,
          layout_prefix_size = width_of lf + width_of tf, layout_source_of = src\<rparr>"
    unfolding validate_def Let_def guard_Inr_iff rbind_Inr_iff
    by (elim conjE exE) (rule that, simp_all, (erule sym)?)
  note R = validate_records_sound [OF rs]
  have wlf: "\<forall>f \<in> set_option lf. wf_prefix 0 f \<and> field_scale f = 0"
    using lf prefix_field_Inr c(3) by (auto simp: result_simps)
  have "\<forall>f \<in> set_option tf. wf_prefix 0 f"
    using tf prefix_field_Inr by (auto simp: result_simps)
  then have wtf: "\<forall>f \<in> set_option (map_option (\<lambda>f. f\<lparr>field_offset := width_of lf\<rparr>) tf).
      wf_prefix (width_of lf) f"
    by (cases tf) (auto simp: wf_prefix_def)
  have len: "length rs = length (raw_records raw)"
    using R by (auto dest: list_all2_lengthD)
  have sum: "sum_list (map (length \<circ> record_fields) rs) =
      sum_list (map (length \<circ> raw_fields) (raw_records raw))"
    using R by (intro sum_fields_same [where
          P = "\<lambda>raw r. record_name r = schema_name raw \<and> record_selector r = raw_selector raw"]) simp
  have w: "width_of (map_option (\<lambda>f. f\<lparr>field_offset := width_of lf\<rparr>) tf) = width_of tf"
    by (cases tf) (simp_all add: width_of_def)
  have sel: "tf \<noteq> None \<longrightarrow> wf_selectors rs"
    using R by (auto simp: selectors_from_def wf_selectors_def)
  have ne: "rs \<noteq> []" using c(1) len by auto
  have "wf_layout l"
    unfolding wf_layout_def l layout.simps w
    using R c len sum wlf wtf sel ne by (intro conjI) simp_all
  with R show ?thesis by (simp add: l)
qed

lemma validate_complete:
  assumes "wf_layout l"
  shows "validate (raw_of_layout l) (layout_source_of l) = Inr l"
proof -
  let ?lf = "layout_length_field l" and ?tf = "layout_type_field l"
  have lf: "rtraverse (\<lambda>f. prefix_field f ''record_length'') (map_option raw_of_field ?lf) = Inr ?lf"
    using assms prefix_field_complete [of 0] by (cases ?lf) (auto simp: wf_layout_def wf_prefix_def)
  let ?tz = "map_option (\<lambda>f. f\<lparr>field_offset := 0\<rparr>) ?tf"
  have tf: "rtraverse (\<lambda>f. prefix_field f ''record_type'') (map_option raw_of_field ?tf) = Inr ?tz"
    using assms prefix_field_complete [of "width_of ?lf"] by (cases ?tf) (auto simp: wf_layout_def)
  have tf1: "map_option (\<lambda>f. f\<lparr>field_offset := width_of ?lf\<rparr>) ?tz = ?tf"
    using assms by (cases ?tf) (auto simp: wf_layout_def wf_prefix_def)
  have rs: "validate_records (?tf \<noteq> None) {} {} (map raw_of_record (layout_records l)) =
      Inr (layout_records l)"
    using assms
    by (intro validate_records_complete)
      (auto simp: wf_layout_def wf_selectors_def selectors_from_def)
  have w: "width_of ?tz = width_of ?tf" by (cases ?tf) (simp_all add: width_of_def)
  have n: "map (length \<circ> raw_fields) (map raw_of_record (layout_records l)) =
      map (length \<circ> record_fields) (layout_records l)"
    by (simp add: raw_of_record_def)
  have guards: "(map raw_of_record (layout_records l) = []) = False"
    "(MAX_FOOTER_BYTES < layout_footer_size l) = False"
    "(\<exists>f \<in> set_option ?lf. field_scale f \<noteq> 0) = False"
    "(1 < length (map raw_of_record (layout_records l)) \<and> ?tf = None) = False"
    "(MAX_LAYOUT_FIELDS < sum_list (map (length \<circ> record_fields) (layout_records l))) = False"
    using assms by (auto simp: wf_layout_def)
  have "layout_prefix_size l = width_of ?lf + width_of ?tf"
    using assms by (simp add: wf_layout_def)
  then have l: "l = \<lparr>layout_records = layout_records l, layout_description = layout_description l,
      layout_header_size = layout_header_size l, layout_footer_size = layout_footer_size l,
      layout_length_field = ?lf, layout_type_field = ?tf,
      layout_prefix_size = width_of ?lf + width_of ?tf, layout_source_of = layout_source_of l\<rparr>"
    by simp
  show ?thesis
    unfolding validate_def raw_of_layout_def raw_layout.simps lf tf rbind.simps Let_def
      guard_def w n tf1 rs guards if_False by (simp only: l [symmetric])
qed

subsection \<open>Placement and selection\<close>

lemma validate_fields_packed:
  "validate_fields name c ns raws = Inr (fs, e) \<Longrightarrow> \<forall>raw \<in> set raws. raw_offset raw = None \<Longrightarrow>
     e = c + sum_list (map field_size fs) \<and>
     (\<forall>i < length fs. field_offset (fs ! i) = c + sum_list (map field_size (take i fs)))"
proof (induction raws arbitrary: c ns fs)
  case Nil
  then show ?case by simp
next
  case (Cons raw raws)
  from Cons.prems(1) obtain f c' ns' gs where
    f: "validate_field name c ns raw = Inr (f, c', ns')"
    and gs: "validate_fields name c' ns' raws = Inr (gs, e)" and fs: "fs = f # gs"
    by (auto simp: result_simps split: prod.splits)
  have off: "field_offset f = c" "c' = c + field_size f"
    using f [unfolded validate_field_Inr] Cons.prems(2) by auto
  have IH: "e = c' + sum_list (map field_size gs)"
    "i < length gs \<Longrightarrow> field_offset (gs ! i) = c' + sum_list (map field_size (take i gs))" for i
    using Cons.IH [OF gs] Cons.prems(2) by auto
  have "field_offset (fs ! i) = c + sum_list (map field_size (take i fs))" if "i < length fs" for i
    using that IH(2) off unfolding fs by (cases i) simp_all
  with IH(1) off show ?case unfolding fs by simp
qed

lemma validate_records_nth:
  "validate_records typed names sels raws = Inr rs \<Longrightarrow> i < length rs \<Longrightarrow>
     length rs = length raws \<and>
     validate_fields (record_name (rs ! i)) 0 {} (raw_fields (raws ! i)) =
       Inr (record_fields (rs ! i), record_size (rs ! i))"
proof (induction raws arbitrary: names sels rs i)
  case (Cons raw raws)
  from Cons.prems obtain r names' sels' qs where
    r: "validate_record typed names sels raw = Inr (r, names', sels')"
    and qs: "validate_records typed names' sels' raws = Inr qs" and rs: "rs = r # qs"
    by (auto simp: result_simps split: prod.splits)
  have f: "validate_fields (record_name r) 0 {} (raw_fields raw) =
      Inr (record_fields r, record_size r)"
    using r by (auto simp: validate_record_def Let_def result_simps)
  have len: "length qs = length raws"
    using validate_records_sound [OF qs] by (auto dest: list_all2_lengthD)
  show ?case
  proof (cases i)
    case 0
    with f len show ?thesis by (simp add: rs)
  next
    case (Suc k)
    with Cons.prems(2) have "k < length qs" by (simp add: rs)
    with Cons.IH [OF qs this] Suc show ?thesis by (simp add: rs)
  qed
qed simp

lemma validate_records_of:
  assumes "validate raw src = Inr l"
  shows "\<exists>typed. validate_records typed {} {} (raw_records raw) = Inr (layout_records l)"
  using assms unfolding validate_def Let_def guard_Inr_iff rbind_Inr_iff by fastforce

lemma distinct_selector_find:
  assumes "distinct (map record_selector rs)" and "r \<in> set rs"
  shows "find (\<lambda>q. record_selector q = record_selector r) rs = Some r"
  using assms by (rule distinct_map_find)

lemma find_selector_iff:
  assumes "distinct (map record_selector rs)"
  shows "find (\<lambda>q. record_selector q = v) rs = Some r \<longleftrightarrow> r \<in> set rs \<and> record_selector r = v"
  using distinct_selector_find [OF assms, of r]
  by (auto dest: find_Some_first)

subsection \<open>Properties\<close>

text \<open>C7. The validator returns exactly the well-formed layouts: every layout it returns satisfies
\<open>wf_layout\<close> (unique names and selectors, at least one field per record, positive and decodable
widths, scales a field can hold, fields in order without overlap, records within sixteen mebibytes,
prefix fields back to back), and every well-formed layout is the validation of some raw layout.\<close>

theorem validate_exact:
  "(\<exists>raw. validate raw src = Inr l) \<longleftrightarrow> wf_layout l \<and> layout_source_of l = src"
  using validate_sound validate_complete by blast

text \<open>A small raw layout: a text field, a packed amount and an anonymous filler.\<close>

definition sample_field :: "rstr \<Rightarrow> nat \<Rightarrow> field_kind \<Rightarrow> nat \<Rightarrow> raw_field" where
  "sample_field name n kind sc =
     \<lparr>raw_name = name, raw_size = n, raw_kind = kind, raw_scale = sc, raw_picture = [],
      raw_offset = None, raw_declaration = empty_declaration\<rparr>"

definition sample_raw :: raw_layout where
  "sample_raw =
     \<lparr>raw_records = [\<lparr>raw_record_name = [],
        raw_fields = [sample_field (lit ''ID'') 3 KText 0, sample_field (lit ''AMT'') 4 KPackedDecimal 2,
                      sample_field [] 1 KSkip 0],
        raw_selector = None\<rparr>],
      raw_description = [], raw_header_size = 0, raw_footer_size = 0,
      raw_length_field = None, raw_type_field = None\<rparr>"

lemma sample_raw_fields:
  "raw_fields (raw_records sample_raw ! 0) =
     [sample_field (lit ''ID'') 3 KText 0, sample_field (lit ''AMT'') 4 KPackedDecimal 2,
      sample_field [] 1 KSkip 0]"
  by (simp add: sample_raw_def)

lemma sample_raw_validates:
  "\<exists>l. validate sample_raw SourceProto = Inr l \<and> length (layout_records l) = 1"
  by (simp add: sample_raw_def sample_field_def validate_def Let_def guard_def validate_record_def
      validate_field_def check_width_def check_scale_def check_selector_def ok_or_def
      checked_add_u32_def MAX_FOOTER_BYTES_def MAX_LAYOUT_FIELDS_def MAX_RECORD_BYTES_def
      MAX_PACKED_BYTES_def digit_limit_def saturating_mul_u32_def is_numeric_def lit_def
      schema_name_def width_of_def)

text \<open>Validation keeps the declared schema: the same records in the same order, each with the
declared name (or the default one) and selector, and in each the same fields in the same order with
their name, width, kind, scale and picture, at the declared offset where there is one.\<close>

theorem validate_keeps_declarations:
  assumes "validate raw src = Inr l"
  shows "list_all2 (\<lambda>raw r. list_all2 keeps (raw_fields raw) (record_fields r) \<and>
      record_name r = schema_name raw \<and> record_selector r = raw_selector raw)
      (raw_records raw) (layout_records l)"
  using validate_sound [OF assms] by blast

theorem validate_keeps_declarations_witness:
  "\<exists>l. validate sample_raw SourceProto = Inr l \<and>
     list_all2 (\<lambda>raw r. list_all2 keeps (raw_fields raw) (record_fields r) \<and>
       record_name r = schema_name raw \<and> record_selector r = raw_selector raw)
       (raw_records sample_raw) (layout_records l)"
  using sample_raw_validates validate_keeps_declarations by blast

text \<open>In a validated layout the fields of a record do not overlap and lie inside the record, in
declaration order, and the record is at most sixteen mebibytes wide.\<close>

theorem validated_fields_disjoint:
  assumes "validate raw src = Inr l" and "r \<in> set (layout_records l)"
    and "i < j" and "j < length (record_fields r)"
  shows "field_offset (record_fields r ! i) + field_size (record_fields r ! i)
      \<le> field_offset (record_fields r ! j) \<and>
    field_offset (record_fields r ! j) + field_size (record_fields r ! j) \<le> record_size r \<and>
    record_size r \<le> MAX_RECORD_BYTES"
proof -
  have "wf_record r" using validate_sound [OF assms(1)] assms(2) by (simp add: wf_layout_def)
  then have r: "fields_from 0 (record_fields r) (record_size r)" "record_size r \<le> MAX_RECORD_BYTES"
    by (simp_all add: wf_record_def)
  show ?thesis
    using fields_from_disjoint [OF r(1) assms(3,4)] fields_from_bound [OF r(1) nth_mem [OF assms(4)]] r(2)
    by simp
qed

lemma sample_raw_record:
  "validate sample_raw src = Inr l \<Longrightarrow> length (record_fields (layout_records l ! 0)) = 3 \<and>
     layout_records l ! 0 \<in> set (layout_records l)"
proof -
  assume v: "validate sample_raw src = Inr l"
  have "length (layout_records l) = 1"
    using validate_sound [OF v] by (auto simp: sample_raw_def dest: list_all2_lengthD)
  moreover have "list_all2 keeps (raw_fields (raw_records sample_raw ! 0))
      (record_fields (layout_records l ! 0))"
    using validate_sound [OF v] by (auto simp: sample_raw_def list_all2_Cons1)
  ultimately show ?thesis
    by (auto simp: sample_raw_fields dest: list_all2_lengthD)
qed

theorem validated_fields_disjoint_witness:
  "\<exists>l. validate sample_raw SourceProto = Inr l \<and>
     field_offset (record_fields (layout_records l ! 0) ! 0) +
       field_size (record_fields (layout_records l ! 0) ! 0)
     \<le> field_offset (record_fields (layout_records l ! 0) ! 2)"
proof -
  obtain l where v: "validate sample_raw SourceProto = Inr l" using sample_raw_validates by blast
  have "2 < length (record_fields (layout_records l ! 0))" using sample_raw_record [OF v] by simp
  with v validated_fields_disjoint [OF v, of "layout_records l ! 0" 0 2] sample_raw_record [OF v]
  show ?thesis by auto
qed

text \<open>Where no field of a record declares an offset, the fields are laid out back to back: each
starts at the sum of the widths before it, and the record length is the sum of all widths.\<close>

theorem validate_packs_fields:
  assumes "validate raw src = Inr l" and "k < length (layout_records l)"
    and "\<forall>f \<in> set (raw_fields (raw_records raw ! k)). raw_offset f = None"
    and "i < length (record_fields (layout_records l ! k))"
  shows "record_size (layout_records l ! k) =
      sum_list (map field_size (record_fields (layout_records l ! k))) \<and>
    field_offset (record_fields (layout_records l ! k) ! i) =
      sum_list (map field_size (take i (record_fields (layout_records l ! k))))"
proof -
  obtain typed where "validate_records typed {} {} (raw_records raw) = Inr (layout_records l)"
    using validate_records_of [OF assms(1)] by blast
  from validate_records_nth [OF this assms(2)]
  show ?thesis using validate_fields_packed assms(3,4) by fastforce
qed

theorem validate_packs_fields_witness:
  "\<exists>l. validate sample_raw SourceProto = Inr l \<and>
     field_offset (record_fields (layout_records l ! 0) ! 2) =
       sum_list (map field_size (take 2 (record_fields (layout_records l ! 0))))"
proof -
  obtain l where v: "validate sample_raw SourceProto = Inr l" "length (layout_records l) = 1"
    using sample_raw_validates by blast
  have "\<forall>f \<in> set (raw_fields (raw_records sample_raw ! 0)). raw_offset f = None"
    by (simp add: sample_raw_fields sample_field_def)
  with v validate_packs_fields [OF v(1), of 0 2] sample_raw_record [OF v(1)]
  show ?thesis by auto
qed

text \<open>Selection is unambiguous: without a record-type field the single schema is chosen whatever
the value; with one, a value selects a schema exactly when that schema's selector is the value, so at
most one, and no value selects none.\<close>

theorem select_unique:
  assumes "validate raw src = Inr l"
  shows "(if layout_type_field l = None
     then \<exists>r. layout_records l = [r] \<and> select l v = Some r
     else \<forall>r. select l v = Some r \<longleftrightarrow> r \<in> set (layout_records l) \<and> record_selector r = v) \<and>
    (layout_type_field l \<noteq> None \<longrightarrow> select l None = None)"
proof -
  have wf: "wf_layout l" using validate_sound [OF assms] by blast
  show ?thesis
  proof (cases "layout_type_field l")
    case None
    with wf have "\<not> 1 < length (layout_records l)" "layout_records l \<noteq> []"
      by (simp_all add: wf_layout_def)
    then obtain r where "layout_records l = [r]" by (cases "layout_records l") auto
    with None show ?thesis by (simp add: select_def)
  next
    case (Some f)
    then have "distinct (map record_selector (layout_records l))"
      "None \<notin> set (map record_selector (layout_records l))"
      using wf by (simp_all add: wf_layout_def wf_selectors_def)
    with find_selector_iff [of "layout_records l"] have
      "find (\<lambda>q. record_selector q = v) (layout_records l) = Some r \<longleftrightarrow>
         r \<in> set (layout_records l) \<and> record_selector r = v" for r v by blast
    moreover have "find (\<lambda>q. record_selector q = None) (layout_records l) = None"
      using \<open>None \<notin> set (map record_selector (layout_records l))\<close>
      by (auto simp: find_None_iff image_iff) (metis option.exhaust)
    ultimately show ?thesis using Some by (simp add: select_def)
  qed
qed

theorem select_unique_witness:
  "\<exists>l r. validate sample_raw SourceProto = Inr l \<and> layout_records l = [r] \<and>
     select l (Some (lit ''X'')) = Some r"
proof -
  obtain l where v: "validate sample_raw SourceProto = Inr l" using sample_raw_validates by blast
  have "layout_type_field l = None"
    using v unfolding validate_def Let_def guard_Inr_iff rbind_Inr_iff
    by (auto simp: sample_raw_def)
  with select_unique [OF v, of "Some (lit ''X'')"] v show ?thesis by auto
qed

text \<open>The field types of the request: every kind survives the trip to its protobuf number and
back, an unset type is character data, and a number this build does not know is refused as
unsupported, never read as text.\<close>

theorem field_type_mapping:
  "kind_from_proto (field_type_number (kind_to_proto k)) = Inr k \<and>
   kind_from_proto 0 = Inr KText \<and>
   (n < 0 \<or> 6 < n \<longrightarrow> (\<exists>m. kind_from_proto n = Inl (Unsupported m)))"
proof -
  have "kind_from_proto (field_type_number (kind_to_proto k)) = Inr k"
    by (cases k) (simp_all add: kind_from_proto_def del: field_type_number.simps)
  moreover have "kind_from_proto 0 = Inr KText"
    by (simp add: kind_from_proto_def field_type_try_from_def enum_field_type_def)
  moreover have "field_type_try_from n = None" if "n < 0 \<or> 6 < n"
    using that by (auto simp: field_type_try_from_def enum_field_type_def)
  ultimately show ?thesis by (simp add: kind_from_proto_def)
qed

theorem field_type_mapping_witness:
  "\<exists>m. kind_from_proto 7 = Inl (Unsupported m)"
  using field_type_mapping [of KText 7] by simp

subsection \<open>The wire view of a layout\<close>

lemma condition_ranges_lossless:
  "wcn_ranges (condition_name_to_proto c) = wcn_ranges (condition_name_to_proto d) \<Longrightarrow>
     cn_values c = cn_values d"
proof -
  have "inj condition_value_to_proto"
    by (rule injI) (simp add: condition_value_to_proto_def)
  then show "cn_values c = cn_values d"
    if "wcn_ranges (condition_name_to_proto c) = wcn_ranges (condition_name_to_proto d)"
    using that by (simp add: condition_name_to_proto_def inj_map_eq_map)
qed

lemma condition_name_to_proto_inject:
  "condition_name_to_proto c = condition_name_to_proto d \<longleftrightarrow> c = d"
  using condition_ranges_lossless [of c d]
  by (auto simp: condition_name_to_proto_def intro: condition_name.equality)

lemma field_to_schema_inject: "field_to_schema f = field_to_schema g \<longleftrightarrow> f = g"
proof
  have inj: "inj condition_name_to_proto"
    by (rule injI) (simp add: condition_name_to_proto_inject)
  assume eq: "field_to_schema f = field_to_schema g"
  have "kind_to_proto k = kind_to_proto k' \<Longrightarrow> k = k'" for k k'
    by (cases k; cases k') simp_all
  with eq have k: "field_kind f = field_kind g" by (simp add: field_to_schema_def)
  have "field_declaration f = field_declaration g"
    using eq inj by (intro decl.equality) (simp_all add: field_to_schema_def inj_map_eq_map)
  with eq k show "f = g"
    by (intro field.equality) (simp_all add: field_to_schema_def)
qed simp

text \<open>The \<^verbatim>\<open>LayoutInfo\<close> event loses nothing of the record schemas: two layouts whose events
agree have the same records, down to the offsets, scales, pictures, level paths and the bounds of
every condition name. (The flat \<^verbatim>\<open>values\<close> of a condition name alone would not do: a literal
containing the word is indistinguishable from a range.)\<close>

theorem layout_info_faithful:
  assumes "to_layout_info l e = to_layout_info l' e'"
  shows "layout_records l = layout_records l' \<and> e = e'"
proof -
  have "inj field_to_schema" by (rule injI) (simp add: field_to_schema_inject)
  then have "record_to_schema r = record_to_schema r' \<Longrightarrow> r = r'" for r r'
    by (intro record_layout.equality) (simp_all add: record_to_schema_def inj_map_eq_map)
  then have "inj record_to_schema" by (rule injI)
  with assms show ?thesis by (simp add: to_layout_info_def inj_map_eq_map)
qed

lemma flat_condition_ambiguous:
  "condition_to_flat (condition_literal (lit ''1 THRU 5'')) =
   condition_to_flat \<lparr>cv_low = lit ''1'', cv_high = Some (lit ''5'')\<rparr>"
  by (simp add: condition_to_flat_def condition_literal_def lit_def)

end
