(* ===== verification/Record_Stream.thy ===== *)
theory Record_Stream
  imports Layout_Correct
begin

section \<open>The incremental record walker\<close>

text \<open>
  The model of \<^verbatim>\<open>src/stream.rs\<close>. A \<open>record_stream\<close> is the walker's state, field for field;
  \<open>push\<close> appends a chunk and \<open>next_record\<close> takes one step, returning its result and the new
  state (which the code updates in place, on its error paths too). Byte counts are natural numbers:
  \<^verbatim>\<open>u64\<close> counters do not wrap below \<open>2 ^ 64\<close> input bytes, and \<^verbatim>\<open>usize\<close> is taken to be 64 bits
  wide. The declared length of a record is an \<^verbatim>\<open>i128\<close> word, so that subtracting the prefix wraps
  as it does in a release build. \<open>drain\<close> is the loop every caller runs after a \<open>push\<close>.
\<close>

record decode_options =
  opt_codec :: codec
  opt_strip_control :: bool
  opt_max_records :: nat
  opt_abort_on_error :: bool

record record_stream =
  rs_layout :: layout
  rs_options :: decode_options
  rs_buffer :: "u8 list"
  rs_start :: nat
  rs_buffer_base :: nat
  rs_received :: nat
  rs_header_left :: nat
  rs_records_kept :: nat
  rs_rows_per_type :: "rstr \<rightharpoonup> nat"
  rs_truncated :: bool
  rs_input_finished :: bool

definition new_stream :: "layout \<Rightarrow> decode_options \<Rightarrow> record_stream" where
  "new_stream l options =
     \<lparr>rs_layout = l, rs_options = options, rs_buffer = [], rs_start = 0, rs_buffer_base = 0,
      rs_received = 0, rs_header_left = layout_header_size l, rs_records_kept = 0,
      rs_rows_per_type = map_of (map (\<lambda>r. (record_name r, 0)) (layout_records l)),
      rs_truncated = False, rs_input_finished = False\<rparr>"

definition push :: "u8 list \<Rightarrow> record_stream \<Rightarrow> record_stream" where
  "push chunk s =
     (let s = s\<lparr>rs_received := rs_received s + length chunk\<rparr> in
      if rs_truncated s
      then s\<lparr>rs_buffer_base := rs_received s, rs_buffer := [], rs_start := 0\<rparr>
      else s\<lparr>rs_buffer := drop (rs_start s) (rs_buffer s) @ chunk, rs_start := 0\<rparr>)"

definition finish_input :: "record_stream \<Rightarrow> record_stream" where
  "finish_input s = s\<lparr>rs_input_finished := True\<rparr>"

definition decodable_end :: "record_stream \<Rightarrow> nat" where
  "decodable_end s = rs_received s - layout_footer_size (rs_layout s)"

definition pending :: "record_stream \<Rightarrow> u8 list" where
  "pending s = drop (rs_start s) (rs_buffer s)"

definition available :: "record_stream \<Rightarrow> nat" where
  "available s = min (decodable_end s - rs_buffer_base s) (length (pending s))"

definition consume :: "nat \<Rightarrow> record_stream \<Rightarrow> record_stream" where
  "consume n s = s\<lparr>rs_start := rs_start s + n, rs_buffer_base := rs_buffer_base s + n\<rparr>"

subsection \<open>Decoding one record\<close>

definition decode_field :: "field \<Rightarrow> u8 list \<Rightarrow> decode_options \<Rightarrow> parse_error + field_value" where
  "decode_field f bytes options =
     (let number = (\<lambda>unscaled. Inr (Number unscaled (field_scale f))) in
      case field_kind f of
        KText \<Rightarrow>
          rbind (decode_text (opt_codec options) bytes (opt_strip_control options))
            (\<lambda>t. Inr (Text t))
      | KInteger \<Rightarrow> rbind (decode_binary bytes True) number
      | KUnsignedInteger \<Rightarrow> rbind (decode_binary bytes False) number
      | KPackedDecimal \<Rightarrow> rbind (decode_packed bytes) number
      | KZonedDecimal \<Rightarrow> rbind (decode_zoned bytes) number
      | KSkip \<Rightarrow> Inr (Text []))"

fun to_cell_value :: "field_value \<Rightarrow> nat \<Rightarrow> cell_value" where
  "to_cell_value (Text t) sc = TextValue t"
| "to_cell_value (Number unscaled n) sc =
     (if sc = 0 then
        (case to_i64 (sint unscaled) of
           Some fits \<Rightarrow> IntegerValue fits
         | None \<Rightarrow> DecimalValue \<lparr>dec_text = render_decimal unscaled 0, dec_scale = 0,
                                  dec_unscaled = None\<rparr>)
      else DecimalValue \<lparr>dec_text = render_decimal unscaled n, dec_scale = n,
                           dec_unscaled = to_i64 (sint unscaled)\<rparr>)"

text \<open>An invalid field is reported with its name and its record's.\<close>

fun in_field :: "rstr \<Rightarrow> rstr \<Rightarrow> parse_error \<Rightarrow> parse_error" where
  "in_field name rec (Invalid m) =
     Invalid ([MLit ''field '', MDbg name, MLit '' of record '', MDbg rec, MLit '': ''] @ m)"
| "in_field name rec e = e"

definition decode_cell ::
  "record_layout \<Rightarrow> u8 list \<Rightarrow> decode_options \<Rightarrow> field \<Rightarrow> parse_error + cell" where
  "decode_cell r body options f =
     (let start = field_offset f; stop = start + field_size f in
      rbind (ok_or (Invalid [MLit ''record '', MDbg (record_name r), MLit '' is '',
                      MNat (length body), MLit '' bytes but field '', MDbg (field_name f),
                      MLit '' needs bytes '', MNat start, MLit ''..'', MNat stop])
               (slice_get start stop body)) (\<lambda>bytes.
      rbind (map_err (in_field (field_name f) (record_name r)) (decode_field f bytes options))
        (\<lambda>value.
      Inr \<lparr>cell_name = field_name f, cell_type = field_type_number (kind_to_proto (field_kind f)),
           cell_val = Some (to_cell_value value (field_scale f))\<rparr>)))"

fun decode_fields ::
  "record_layout \<Rightarrow> u8 list \<Rightarrow> decode_options \<Rightarrow> field list \<Rightarrow> parse_error + cell list" where
  "decode_fields r body options [] = Inr []"
| "decode_fields r body options (f # fs) =
     (if field_kind f = KSkip then decode_fields r body options fs
      else rbind (decode_cell r body options f) (\<lambda>c.
           rbind (decode_fields r body options fs) (\<lambda>cs. Inr (c # cs))))"

definition decode_cells ::
  "record_layout \<Rightarrow> u8 list \<Rightarrow> decode_options \<Rightarrow> parse_error + cell list" where
  "decode_cells r body options = decode_fields r body options (record_fields r)"

subsection \<open>The prefix\<close>

text \<open>The declared record length, from a number or from text that parses as one.\<close>

definition length_of_value :: "record_stream \<Rightarrow> field \<Rightarrow> field_value \<Rightarrow> parse_error + i128" where
  "length_of_value s f value =
     (case value of
        Number unscaled _ \<Rightarrow> Inr unscaled
      | Text t \<Rightarrow>
          (case parse_i128 (trim t) of
             Some n \<Rightarrow> Inr (word_of_int n)
           | None \<Rightarrow> Inl (Invalid [MLit ''record length field '', MDbg (field_name f),
                        MLit '' holds '', MDbg t, MLit '' at byte '', MNat (rs_buffer_base s),
                        MLit '', which is not a number''])))"

definition check_body_size ::
  "record_stream \<Rightarrow> i128 option \<Rightarrow> record_layout \<Rightarrow> parse_error + nat" where
  "check_body_size s declared_length r =
     (let prefix_size = layout_prefix_size (rs_layout s);
          body_size = (case declared_length of
                         None \<Rightarrow> int (record_size r)
                       | Some len \<Rightarrow> sint (len - word_of_nat prefix_size)) in
      guard (body_size < 0)
        (Invalid [MLit ''record at byte '', MNat (rs_buffer_base s), MLit '' declares length '',
           MInt (case declared_length of None \<Rightarrow> 0 | Some len \<Rightarrow> sint len),
           MLit '', shorter than its own '', MNat prefix_size, MLit ''-byte prefix'']) (
      guard (int u64_max < body_size)
        (Invalid [MLit ''record at byte '', MNat (rs_buffer_base s),
           MLit '' declares an unusable length '', MInt body_size]) (
      guard (int MAX_RECORD_BYTES < body_size)
        (Unsupported [MLit ''record at byte '', MNat (rs_buffer_base s), MLit '' declares a '',
           MInt body_size, MLit ''-byte body; this build decodes records up to '',
           MNat MAX_RECORD_BYTES, MLit '' bytes''])
        (Inr (nat body_size)))))"

definition read_length :: "record_stream \<Rightarrow> parse_error + i128 option" where
  "read_length s =
     rtraverse (\<lambda>f.
         rbind (decode_field f (slice 0 (field_size f) (pending s)) (rs_options s))
           (length_of_value s f))
       (layout_length_field (rs_layout s))"

definition read_type :: "record_stream \<Rightarrow> parse_error + rstr option" where
  "read_type s =
     rtraverse (\<lambda>f.
         rbind (decode_field f
                  (slice (width_of (layout_length_field (rs_layout s))) (field_size f) (pending s))
                  (rs_options s))
           (\<lambda>value. Inr (to_display_string value)))
       (layout_type_field (rs_layout s))"

definition read_prefix :: "record_stream \<Rightarrow> parse_error + (record_layout \<times> nat)" where
  "read_prefix s =
     rbind (read_length s) (\<lambda>declared_length.
     rbind (read_type s) (\<lambda>record_type.
     rbind (ok_or (Invalid [MLit ''no record schema has selector '',
                     MDbg (case record_type of None \<Rightarrow> [] | Some t \<Rightarrow> t),
                     MLit '' (record at byte '', MNat (rs_buffer_base s), MLit '')''])
              (select (rs_layout s) record_type)) (\<lambda>r.
     rbind (check_body_size s declared_length r) (\<lambda>body_size.
     Inr (r, body_size)))))"

subsection \<open>One step of the walk\<close>

definition skip_header :: "record_stream \<Rightarrow> record_stream" where
  "skip_header s =
     (if 0 < rs_header_left s then
        let skip = min (rs_header_left s) (available s) in
        (consume skip s)\<lparr>rs_header_left := rs_header_left s - skip\<rparr>
      else s)"

definition count_of :: "(rstr \<rightharpoonup> nat) \<Rightarrow> rstr \<Rightarrow> nat" where
  "count_of m name = (case m name of None \<Rightarrow> 0 | Some n \<Rightarrow> n)"

definition make_row :: "record_stream \<Rightarrow> record_layout \<Rightarrow> cell list \<Rightarrow> nat \<Rightarrow> record_row" where
  "make_row s r cells whole =
     \<lparr>row_record_type = record_name r,
      row_index = count_of (rs_rows_per_type s) (record_name r),
      row_record_index = rs_records_kept s, row_byte_offset = rs_buffer_base s,
      row_cells = cells, row_byte_length = whole\<rparr>"

definition commit_record :: "record_stream \<Rightarrow> record_layout \<Rightarrow> nat \<Rightarrow> record_stream" where
  "commit_record s r whole =
     (let s = consume whole s;
          s = s\<lparr>rs_records_kept := rs_records_kept s + 1,
                rs_rows_per_type := (rs_rows_per_type s)
                  (record_name r \<mapsto> count_of (rs_rows_per_type s) (record_name r) + 1)\<rparr> in
      if opt_max_records (rs_options s) \<noteq> 0 \<and>
         opt_max_records (rs_options s) \<le> rs_records_kept s
      then s\<lparr>rs_truncated := True, rs_buffer_base := rs_received s, rs_buffer := [],
             rs_start := 0\<rparr>
      else s)"

definition walk_record :: "record_stream \<Rightarrow> (parse_error + record_row option) \<times> record_stream" where
  "walk_record s =
     (let prefix_size = layout_prefix_size (rs_layout s) in
      if available s < prefix_size then (Inr None, s)
      else if prefix_size = 0 \<and> available s = 0 then (Inr None, s)
      else case read_prefix s of
        Inl e \<Rightarrow> (Inl e, s)
      | Inr (r, body_size) \<Rightarrow>
          let whole = prefix_size + body_size in
          if available s < whole then (Inr None, s)
          else case decode_cells r (slice prefix_size body_size (pending s)) (rs_options s) of
            Inl e \<Rightarrow> (Inl e, s)
          | Inr cells \<Rightarrow> (Inr (Some (make_row s r cells whole)), commit_record s r whole))"

definition next_record :: "record_stream \<Rightarrow> (parse_error + record_row option) \<times> record_stream" where
  "next_record s =
     (if rs_truncated s then (Inr None, s)
      else let s = skip_header s in
        if 0 < rs_header_left s then (Inr None, s) else walk_record s)"

subsection \<open>The trailer\<close>

definition status_of :: "record_stream \<Rightarrow> parse_error + parse_status" where
  "status_of s =
     (let l = rs_layout s;
          leftover = decodable_end s - rs_buffer_base s;
          short = [MLit ''the input is '', MNat (rs_received s), MLit '' bytes, shorter than the '',
            MNat (layout_header_size l), MLit ''-byte header plus '', MNat (layout_footer_size l),
            MLit ''-byte footer the layout declares''];
          stopped = [MLit ''stopped after '', MNat (rs_records_kept s), MLit '' records; '',
            MNat (rs_received s - rs_buffer_base s), MLit '' bytes of input were not decoded''];
          partial = [MLit ''the input ends inside a record: '', MNat leftover,
            MLit '' bytes after the last whole record at byte '', MNat (rs_buffer_base s)] in
      rbind
        (if rs_received s < layout_header_size l + layout_footer_size l then
           Inr [\<lparr>warning_code = InputShorterThanBoundaries, warning_message = short,
                 warning_offset = rs_received s\<rparr>]
         else if rs_truncated s then
           Inr [\<lparr>warning_code = MaxRecordsReached, warning_message = stopped,
                 warning_offset = rs_buffer_base s\<rparr>]
         else if 0 < leftover then
           (if opt_abort_on_error (rs_options s) then Inl (Invalid partial)
            else Inr [\<lparr>warning_code = TrailingPartialRecord, warning_message = partial,
                       warning_offset = rs_buffer_base s\<rparr>])
         else Inr []) (\<lambda>warnings.
      Inr \<lparr>ps_records_kept = rs_records_kept s, ps_bytes_received = rs_received s,
           ps_bytes_consumed = rs_buffer_base s, ps_trailing_bytes = leftover,
           ps_truncated = rs_truncated s, ps_warnings = warnings,
           ps_rows_per_record_type = rs_rows_per_type s\<rparr>))"

subsection \<open>Draining\<close>

text \<open>
  The rows \<^verbatim>\<open>next_record\<close> yields until it yields none or fails: the loop of \<^verbatim>\<open>drain\<close> in
  \<^verbatim>\<open>src/service.rs\<close>, without its sends. It is partial, so that returning is a theorem.
\<close>

partial_function (option) drain ::
  "record_stream \<Rightarrow> (record_row list \<times> parse_error option \<times> record_stream) option" where
  "drain s =
     (case next_record s of
        (Inl e, s') \<Rightarrow> Some ([], Some e, s')
      | (Inr None, s') \<Rightarrow> Some ([], None, s')
      | (Inr (Some row), s') \<Rightarrow>
          Option.bind (drain s') (\<lambda>(rows, e, s''). Some (row # rows, e, s'')))"

text \<open>
  A whole parse without its messages: the loop of \<^verbatim>\<open>run_parse\<close> over the data frames (push, then
  drain), the last drain once the input has ended, and the trailer.
\<close>

fun feed ::
  "u8 list list \<Rightarrow> record_stream \<Rightarrow> (record_row list \<times> parse_error option \<times> record_stream) option"
where
  "feed [] s = drain (finish_input s)"
| "feed (chunk # chunks) s =
     Option.bind (drain (push chunk s)) (\<lambda>(rows, e, s').
       case e of
         Some _ \<Rightarrow> Some (rows, e, s')
       | None \<Rightarrow> map_option (\<lambda>(rows', r). (rows @ rows', r)) (feed chunks s'))"

definition run_stream ::
  "layout \<Rightarrow> decode_options \<Rightarrow> u8 list list \<Rightarrow> (record_row list \<times> (parse_error + parse_status)) option"
where
  "run_stream l options chunks =
     map_option (\<lambda>(rows, e, s). (rows, case e of Some e \<Rightarrow> Inl e | None \<Rightarrow> status_of s))
       (feed chunks (new_stream l options))"

end
