(* ===== verification/Stream_Reference.thy ===== *)
theory Stream_Reference
  imports Record_Stream
begin

section \<open>The reference walk over a whole input\<close>

text \<open>
  What the incremental walker must compute: a batch function over the complete list of data bytes,
  with no buffer, no cursor and no chunks. \<open>read_one\<close> reads the record at the front of a byte list,
  \<open>batch\<close> reads records until it runs out of bytes, fails, or has its fill. Their key property is
  stability: what has been decided about a byte list stays decided when more bytes follow.
\<close>

text \<open>A walker whose unconsumed bytes are \<open>bs\<close>, at absolute offset \<open>base\<close>.\<close>

definition stream_at :: "layout \<Rightarrow> decode_options \<Rightarrow> nat \<Rightarrow> u8 list \<Rightarrow> record_stream" where
  "stream_at l options base bs =
     (new_stream l options)\<lparr>rs_buffer := bs, rs_buffer_base := base\<rparr>"

lemma stream_at_simps [simp]:
  "rs_layout (stream_at l opt base bs) = l"
  "rs_options (stream_at l opt base bs) = opt"
  "rs_buffer_base (stream_at l opt base bs) = base"
  "pending (stream_at l opt base bs) = bs"
  by (simp_all add: stream_at_def new_stream_def pending_def)

datatype outcome =
    NeedMore
  | Fails parse_error
  | Found record_layout "cell list" nat

definition read_one :: "layout \<Rightarrow> decode_options \<Rightarrow> nat \<Rightarrow> u8 list \<Rightarrow> outcome" where
  "read_one l options base bs =
     (let prefix_size = layout_prefix_size l in
      if length bs < prefix_size \<or> bs = [] then NeedMore
      else case read_prefix (stream_at l options base bs) of
        Inl e \<Rightarrow> Fails e
      | Inr (r, body_size) \<Rightarrow>
          if length bs < prefix_size + body_size then NeedMore
          else case decode_cells r (slice prefix_size body_size bs) options of
            Inl e \<Rightarrow> Fails e
          | Inr cells \<Rightarrow> Found r cells (prefix_size + body_size))"

text \<open>The counters of a walk: its position, the records so far in all and per schema.\<close>

record progress =
  pr_base :: nat
  pr_kept :: nat
  pr_counts :: "rstr \<rightharpoonup> nat"
  pr_stopped :: bool

definition row_at :: "progress \<Rightarrow> record_layout \<Rightarrow> cell list \<Rightarrow> nat \<Rightarrow> record_row" where
  "row_at p r cells whole =
     \<lparr>row_record_type = record_name r, row_index = count_of (pr_counts p) (record_name r),
      row_record_index = pr_kept p, row_byte_offset = pr_base p, row_cells = cells,
      row_byte_length = whole\<rparr>"

definition after_row :: "decode_options \<Rightarrow> progress \<Rightarrow> record_layout \<Rightarrow> nat \<Rightarrow> progress" where
  "after_row options p r whole =
     \<lparr>pr_base = pr_base p + whole, pr_kept = pr_kept p + 1,
      pr_counts = (pr_counts p)(record_name r \<mapsto> count_of (pr_counts p) (record_name r) + 1),
      pr_stopped = (opt_max_records options \<noteq> 0 \<and> opt_max_records options \<le> pr_kept p + 1)\<rparr>"

lemma read_one_length: "read_one l opt base bs = Found r cells n \<Longrightarrow> n \<le> length bs"
  by (auto simp: read_one_def Let_def split: if_splits sum.splits prod.splits)

function batch ::
  "layout \<Rightarrow> decode_options \<Rightarrow> progress \<Rightarrow> u8 list \<Rightarrow> record_row list \<times> parse_error option \<times> progress"
where
  "batch l options p bs =
     (if pr_stopped p then ([], None, p)
      else case read_one l options (pr_base p) bs of
        NeedMore \<Rightarrow> ([], None, p)
      | Fails e \<Rightarrow> ([], Some e, p)
      | Found r cells n \<Rightarrow>
          if n = 0 then ([], None, p)
          else let (rows, e, q) = batch l options (after_row options p r n) (drop n bs)
               in (row_at p r cells n # rows, e, q))"
  by pat_completeness auto
termination
  by (relation "measure (\<lambda>(_, _, _, bs). length bs)") (auto dest!: read_one_length)

declare batch.simps [simp del]

subsection \<open>Only the bytes present matter\<close>

lemma slice_take: "a + n \<le> k \<Longrightarrow> slice a n (take k xs) = slice a n xs"
  by (simp add: slice_def drop_take min_def)

text \<open>Two walkers that agree on layout, options, position and the bytes of the prefix.\<close>

lemma read_prefix_cong:
  assumes "wf_layout (rs_layout s)"
    and "rs_layout t = rs_layout s" and "rs_options t = rs_options s"
    and "rs_buffer_base t = rs_buffer_base s"
    and "take (layout_prefix_size (rs_layout s)) (pending t) =
         take (layout_prefix_size (rs_layout s)) (pending s)"
  shows "read_prefix t = read_prefix s"
proof -
  let ?l = "rs_layout s"
  let ?p = "layout_prefix_size ?l"
  have sl: "slice a n (pending t) = slice a n (pending s)" if "a + n \<le> ?p" for a n
    using slice_take [OF that, of "pending t"] slice_take [OF that, of "pending s"] assms(5) by simp
  have size: "?p = width_of (layout_length_field ?l) + width_of (layout_type_field ?l)"
    using assms(1) by (simp add: wf_layout_def)
  have "length_of_value t = length_of_value s"
    by (intro ext) (simp only: length_of_value_def assms(4))
  then have "read_length t = read_length s"
    using sl size assms(2-4) unfolding read_length_def
    by (cases "layout_length_field ?l") (simp_all add: width_of_def)
  moreover have "read_type t = read_type s"
    using sl size assms(2-4) unfolding read_type_def
    by (cases "layout_type_field ?l") (simp_all add: width_of_def)
  moreover have "check_body_size t = check_body_size s"
    by (intro ext) (simp add: check_body_size_def assms(2-4))
  ultimately show ?thesis by (simp add: read_prefix_def assms(2-4))
qed

lemma wf_prefix_record_size:
  "wf_layout l \<Longrightarrow> r \<in> set (layout_records l) \<Longrightarrow> 0 < record_size r"
proof -
  assume "wf_layout l" "r \<in> set (layout_records l)"
  then have "wf_record r" by (simp add: wf_layout_def)
  then show "0 < record_size r"
    using fields_from_le [of _ _ "record_size r"]
    by (cases "record_fields r") (fastforce simp: wf_record_def)+
qed

lemma select_in: "select l v = Some r \<Longrightarrow> r \<in> set (layout_records l)"
  by (auto simp: select_def split: option.splits list.splits dest: find_Some_first)

lemma read_prefix_Inr:
  assumes "wf_layout (rs_layout s)" and "read_prefix s = Inr (r, n)"
  shows "r \<in> set (layout_records (rs_layout s)) \<and> n \<le> MAX_RECORD_BYTES \<and>
    (layout_length_field (rs_layout s) = None \<longrightarrow> n = record_size r)"
  using assms(2) select_in
  by (auto simp: read_prefix_def check_body_size_def read_length_def Let_def result_simps)

lemma prefix_zero:
  "wf_layout l \<Longrightarrow> layout_prefix_size l = 0 \<Longrightarrow> layout_length_field l = None"
  by (cases "layout_length_field l") (auto simp: wf_layout_def wf_prefix_def width_of_def)

lemma read_prefix_pos:
  "wf_layout (rs_layout s) \<Longrightarrow> read_prefix s = Inr (r, n) \<Longrightarrow>
     0 < layout_prefix_size (rs_layout s) + n"
  using read_prefix_Inr [of s r n] prefix_zero [of "rs_layout s"]
    wf_prefix_record_size [of "rs_layout s" r] by (cases "layout_prefix_size (rs_layout s)") auto

lemma read_one_pos:
  "wf_layout l \<Longrightarrow> read_one l opt base bs = Found r cells n \<Longrightarrow> 0 < n"
  using read_prefix_pos [of "stream_at l opt base bs"]
  by (auto simp: read_one_def Let_def split: if_splits sum.splits prod.splits)

lemma read_one_stable:
  assumes "wf_layout l" and "read_one l opt base bs \<noteq> NeedMore"
  shows "read_one l opt base (bs @ ext) = read_one l opt base bs"
proof -
  let ?p = "layout_prefix_size l"
  have ge: "?p \<le> length bs" "bs \<noteq> []"
    using assms(2) by (auto simp: read_one_def Let_def split: if_splits)
  have "read_prefix (stream_at l opt base (bs @ ext)) = read_prefix (stream_at l opt base bs)"
    using assms(1) ge(1) by (intro read_prefix_cong) simp_all
  then show ?thesis
    using assms(2) ge
    by (auto simp: read_one_def Let_def slice_append split: if_splits sum.splits prod.splits)
qed

subsection \<open>The batch walk\<close>

lemma batch_stopped [simp]: "pr_stopped p \<Longrightarrow> batch l opt p bs = ([], None, p)"
  by (simp add: batch.simps)

lemma batch_more: "read_one l opt (pr_base p) bs = NeedMore \<Longrightarrow> batch l opt p bs = ([], None, p)"
  by (simp add: batch.simps)

lemma batch_fails:
  "\<not> pr_stopped p \<Longrightarrow> read_one l opt (pr_base p) bs = Fails e \<Longrightarrow> batch l opt p bs = ([], Some e, p)"
  by (simp add: batch.simps)

lemma batch_found:
  "wf_layout l \<Longrightarrow> \<not> pr_stopped p \<Longrightarrow> read_one l opt (pr_base p) bs = Found r cells n \<Longrightarrow>
     batch l opt p bs =
       (row_at p r cells n # fst (batch l opt (after_row opt p r n) (drop n bs)),
        fst (snd (batch l opt (after_row opt p r n) (drop n bs))),
        snd (snd (batch l opt (after_row opt p r n) (drop n bs))))"
  using read_one_pos [of l opt "pr_base p" bs r cells n]
  by (subst batch.simps) (simp add: case_prod_beta)

text \<open>Induction along the records of a batch.\<close>

lemma batch_induct [consumes 1, case_names Stop More Fail Found]:
  assumes wf: "wf_layout l"
    and Stop: "\<And>p bs. pr_stopped p \<Longrightarrow> P p bs"
    and More: "\<And>p bs. \<not> pr_stopped p \<Longrightarrow> read_one l opt (pr_base p) bs = NeedMore \<Longrightarrow> P p bs"
    and Fail: "\<And>p bs e. \<not> pr_stopped p \<Longrightarrow> read_one l opt (pr_base p) bs = Fails e \<Longrightarrow> P p bs"
    and Found: "\<And>p bs r cells n. \<not> pr_stopped p \<Longrightarrow>
      read_one l opt (pr_base p) bs = Found r cells n \<Longrightarrow> 0 < n \<Longrightarrow> n \<le> length bs \<Longrightarrow>
      P (after_row opt p r n) (drop n bs) \<Longrightarrow> P p bs"
  shows "P p bs"
proof (induction "length bs" arbitrary: p bs rule: less_induct)
  case less
  show ?case
  proof (cases "pr_stopped p")
    case False
    show ?thesis
    proof (cases "read_one l opt (pr_base p) bs")
      case (Found r cells n)
      have n: "0 < n" "n \<le> length bs"
        using Found read_one_pos [OF wf] read_one_length by blast+
      show ?thesis
        using n by (intro assms(5) [OF False Found]) (auto intro!: less)
    qed (use False More Fail in blast)+
  qed (rule Stop)
qed

lemma batch_base:
  assumes wf: "wf_layout l"
  shows "pr_base p \<le> pr_base (snd (snd (batch l opt p bs))) \<and>
     pr_base (snd (snd (batch l opt p bs))) \<le> pr_base p + length bs"
  using wf
proof (induction p bs rule: batch_induct [where opt = opt])
  case (Found p bs r cells n)
  have b: "pr_base (after_row opt p r n) = pr_base p + n" by (simp add: after_row_def)
  show ?case using Found(3-5) unfolding batch_found [OF wf Found(1,2)] b by simp
qed (simp_all add: batch_more batch_fails)

text \<open>A batch over a longer input: the batch over the first part, then, unless it failed or had its
fill, the batch over what was left of it and the rest.\<close>

lemma batch_append:
  assumes wf: "wf_layout l"
  shows "batch l opt p (bs @ ext) =
       (let (rows, e, q) = batch l opt p bs in
        if e = None
        then let (rows', e', q') = batch l opt q (drop (pr_base q - pr_base p) bs @ ext)
             in (rows @ rows', e', q')
        else (rows, e, q))"
  using wf
proof (induction p bs rule: batch_induct [where opt = opt])
  case (Stop p bs)
  then show ?case by simp
next
  case (More p bs)
  then show ?case by (simp add: batch_more case_prod_beta)
next
  case (Fail p bs e)
  then have "read_one l opt (pr_base p) (bs @ ext) = Fails e"
    using read_one_stable [OF wf] by (metis outcome.distinct(1))
  with Fail show ?case by (simp add: batch_fails)
next
  case (Found p bs r cells n)
  then have f: "read_one l opt (pr_base p) (bs @ ext) = Found r cells n"
    using read_one_stable [OF wf] by (metis outcome.distinct(3))
  let ?p = "after_row opt p r n"
  obtain rows e q where q: "batch l opt ?p (drop n bs) = (rows, e, q)" by (metis prod_cases3)
  have "pr_base ?p \<le> pr_base q"
    using batch_base [OF wf, of ?p opt "drop n bs"] by (simp add: q)
  then have d: "pr_base q - pr_base ?p + n = pr_base q - pr_base p"
    by (simp add: after_row_def)
  have "drop n (bs @ ext) = drop n bs @ ext" using Found(4) by simp
  then show ?case
    unfolding batch_found [OF wf Found(1) f] batch_found [OF wf Found(1,2)]
    using Found(5) unfolding q by (simp add: case_prod_beta Let_def d)
qed

end
