(* ===== verification/Transition_Systems.thy ===== *)
theory Transition_Systems
  imports Main
begin

section \<open>Reachable states and invariants\<close>

text \<open>
  What the stateful parts of the service have in common: states that are reached from a start by
  steps, and an invariant that the start has and every step keeps. The frames of a parse, the trailer
  guard and admission are such systems.
\<close>

inductive reaches :: "('s \<Rightarrow> bool) \<Rightarrow> ('s \<Rightarrow> 's \<Rightarrow> bool) \<Rightarrow> 's \<Rightarrow> bool" for init step where
  Init: "init s \<Longrightarrow> reaches init step s"
| Step: "reaches init step s \<Longrightarrow> step s t \<Longrightarrow> reaches init step t"

locale invariant_system =
  fixes init :: "'s \<Rightarrow> bool"
    and step :: "'s \<Rightarrow> 's \<Rightarrow> bool"
    and inv :: "'s \<Rightarrow> bool"
  assumes init_inv: "init s \<Longrightarrow> inv s"
    and step_inv: "inv s \<Longrightarrow> step s t \<Longrightarrow> inv t"
begin

lemma reaches_inv: "reaches init step s \<Longrightarrow> inv s"
  by (induction rule: reaches.induct) (auto intro: init_inv step_inv)

text \<open>Runs from a state: what every step keeps, every run from a good state keeps.\<close>

lemma run_inv: "step\<^sup>*\<^sup>* s t \<Longrightarrow> inv s \<Longrightarrow> inv t"
  by (induction rule: rtranclp_induct) (auto intro: step_inv)

end

text \<open>A system that also uses something up with every step cannot take more steps than there is of it.\<close>

locale consuming_system = invariant_system +
  fixes left :: "'s \<Rightarrow> nat"
  assumes step_left: "inv s \<Longrightarrow> step s t \<Longrightarrow> left t < left s"
begin

lemma steps_bounded: "(step ^^ n) s t \<Longrightarrow> inv s \<Longrightarrow> inv t \<and> left t + n \<le> left s"
proof (induction n arbitrary: t)
  case (Suc n)
  then obtain u where u: "(step ^^ n) s u" "step u t" by auto
  with Suc have "inv u" "left u + n \<le> left s" by simp_all
  with u(2) step_left step_inv show ?case by (fastforce dest: step_left)
qed simp

lemma no_endless_run: "inv (r 0) \<Longrightarrow> \<exists>i. \<not> step (r i) (r (Suc i))"
proof (rule ccontr)
  assume "inv (r 0)" and "\<not> (\<exists>i. \<not> step (r i) (r (Suc i)))"
  then have "(step ^^ n) (r 0) (r n)" for n by (induction n) auto
  from steps_bounded [OF this \<open>inv (r 0)\<close>, of "Suc (left (r 0))"] show False by simp
qed

end

end
