(* ===== verification/Record_Source.thy ===== *)
theory Record_Source
  imports Prelude Transition_Systems
begin

section \<open>The interface between the walker and its callers\<close>

text \<open>
  What a caller of the walker relies on: a step that yields a record, nothing, or an error; every
  step keeps the walker usable; a record uses up some of the input left; once a step yields nothing
  it keeps yielding nothing until more input arrives. A caller that loops until nothing is left
  (\<open>drains\<close>) then returns, after at most as many records as there were bytes.
\<close>

locale record_source =
  fixes step :: "'s \<Rightarrow> ('e + 'r option) \<times> 's"
    and inv :: "'s \<Rightarrow> bool"
    and left :: "'s \<Rightarrow> nat"
    and drains :: "'s \<Rightarrow> ('r list \<times> 'e option \<times> 's) option"
  assumes step_inv: "inv s \<Longrightarrow> step s = (x, s') \<Longrightarrow> inv s'"
    and step_progress: "inv s \<Longrightarrow> step s = (Inr (Some r), s') \<Longrightarrow> left s' < left s"
    and step_done: "inv s \<Longrightarrow> step s = (Inr None, s') \<Longrightarrow> step s' = (Inr None, s')"
    and drains_unfold:
      "drains s = (case step s of
         (Inl e, s') \<Rightarrow> Some ([], Some e, s')
       | (Inr None, s') \<Rightarrow> Some ([], None, s')
       | (Inr (Some row), s') \<Rightarrow>
           Option.bind (drains s') (\<lambda>(rows, e, s''). Some (row # rows, e, s'')))"
begin

lemma drains_total:
  "inv s \<Longrightarrow> \<exists>rows e s'. drains s = Some (rows, e, s') \<and> inv s' \<and> length rows \<le> left s"
proof (induction "left s" arbitrary: s rule: less_induct)
  case less
  obtain x s1 where x: "step s = (x, s1)" by fastforce
  have inv1: "inv s1" using step_inv [OF less.prems x] .
  show ?case
  proof (cases x)
    case (Inl e)
    with x inv1 show ?thesis by (subst drains_unfold) simp
  next
    case (Inr y)
    show ?thesis
    proof (cases y)
      case None
      with Inr x inv1 show ?thesis by (subst drains_unfold) simp
    next
      case (Some row)
      have lt: "left s1 < left s" using step_progress [OF less.prems] x Inr Some by blast
      obtain rows e s2 where d: "drains s1 = Some (rows, e, s2)" "inv s2" "length rows \<le> left s1"
        using less.hyps [OF lt inv1] by blast
      have "drains s = Some (row # rows, e, s2)"
        using x Inr Some d(1) by (subst drains_unfold) simp
      with d lt show ?thesis by auto
    qed
  qed
qed

lemma drains_done:
  "inv s \<Longrightarrow> drains s = Some (rows, None, s') \<Longrightarrow>
     step s' = (Inr None, s') \<and> drains s' = Some ([], None, s')"
proof (induction "left s" arbitrary: s rows rule: less_induct)
  case less
  obtain x s1 where x: "step s = (x, s1)" by fastforce
  have inv1: "inv s1" using step_inv [OF less.prems(1) x] .
  show ?case
  proof (cases x)
    case (Inl e)
    with x less.prems(2) show ?thesis by (subst (asm) drains_unfold) simp
  next
    case (Inr y)
    show ?thesis
    proof (cases y)
      case None
      then have "s' = s1" "step s1 = (Inr None, s1)"
        using Inr x less.prems step_done by (auto simp: drains_unfold [of s])
      then show ?thesis using drains_unfold [of s1] by simp
    next
      case (Some row)
      have lt: "left s1 < left s" using step_progress [OF less.prems(1)] x Inr Some by blast
      obtain rows' where "drains s1 = Some (rows', None, s')"
        using less.prems(2) x Inr Some by (auto simp: drains_unfold [of s] bind_eq_Some_conv)
      with less.hyps [OF lt inv1] show ?thesis by blast
    qed
  qed
qed

end

text \<open>Taking records one by one is such a system: no more records come than bytes were left.\<close>

sublocale record_source \<subseteq> pulls: consuming_system inv "\<lambda>s s'. \<exists>r. step s = (Inr (Some r), s')" inv left
  by unfold_locales (auto dest: step_inv step_progress)

end
