(* ===== verification/Stream_Correct.thy ===== *)
theory Stream_Correct
  imports Stream_Reference Record_Source
begin

section \<open>The walker computes the reference walk\<close>

text \<open>
  \<open>represents s inp\<close> relates the walker's buffer and cursors to the list of all bytes received so far:
  what is pending is the input from the walker's offset on, and nothing of the last
  \<open>footer_size\<close> bytes has been consumed. Under it every step of the walker is a step of the reference
  walk, so the rows of a parse are those of the batch over the whole input, however it was cut into
  chunks.
\<close>

definition data_of :: "layout \<Rightarrow> u8 list \<Rightarrow> u8 list" where
  "data_of l inp = take (length inp - layout_footer_size l) inp"

definition represents :: "record_stream \<Rightarrow> u8 list \<Rightarrow> bool" where
  "represents s inp \<longleftrightarrow>
     rs_received s = length inp \<and> rs_start s \<le> length (rs_buffer s) \<and>
     (if rs_truncated s
      then rs_buffer s = [] \<and> rs_buffer_base s = length inp \<and> rs_header_left s = 0
      else pending s = drop (rs_buffer_base s) inp \<and>
           rs_buffer_base s \<le> length (data_of (rs_layout s) inp) \<and>
           (if rs_header_left s = 0 then layout_header_size (rs_layout s) \<le> rs_buffer_base s
            else rs_buffer_base s + rs_header_left s = layout_header_size (rs_layout s)))"

definition walker :: "record_stream \<Rightarrow> bool" where
  "walker s \<longleftrightarrow> wf_layout (rs_layout s) \<and> (\<exists>inp. represents s inp)"

lemma length_data_of [simp]: "length (data_of l inp) = length inp - layout_footer_size l"
  by (simp add: data_of_def)

lemma drop_data_of: "drop b (data_of l inp) = take (length inp - layout_footer_size l - b) (drop b inp)"
  by (simp add: data_of_def drop_take)

lemma data_of_append: "\<exists>ext. data_of l (inp @ c) = data_of l inp @ ext"
proof -
  let ?m = "length inp - layout_footer_size l" and ?k = "length (inp @ c) - layout_footer_size l"
  have "min ?m ?k = ?m" by simp
  then have "take ?m (data_of l (inp @ c)) = data_of l inp"
    unfolding data_of_def take_take by simp
  then show ?thesis by (metis append_take_drop_id)
qed

lemma represents_new: "represents (new_stream l opt) []"
  by (simp add: represents_def new_stream_def pending_def)

lemma represents_push: "represents s inp \<Longrightarrow> represents (push c s) (inp @ c)"
  by (auto simp: represents_def push_def Let_def pending_def split: if_splits)

lemma represents_finish: "represents s inp \<Longrightarrow> represents (finish_input s) inp"
  by (cases "rs_truncated s"; cases "rs_header_left s = 0")
    (auto simp: represents_def finish_input_def pending_def)

lemma available_represents:
  "represents s inp \<Longrightarrow> \<not> rs_truncated s \<Longrightarrow>
     available s = length (data_of (rs_layout s) inp) - rs_buffer_base s"
  by (auto simp: available_def decodable_end_def represents_def split: if_splits)

lemma pending_consume [simp]: "pending (consume n s) = drop n (pending s)"
  by (simp add: pending_def consume_def add.commute)

lemma pending_update [simp]:
  "pending (s\<lparr>rs_header_left := h\<rparr>) = pending s"
  "pending (s\<lparr>rs_records_kept := k, rs_rows_per_type := m\<rparr>) = pending s"
  by (simp_all add: pending_def)

lemma consume_simps [simp]:
  "rs_layout (consume n s) = rs_layout s" "rs_options (consume n s) = rs_options s"
  "rs_received (consume n s) = rs_received s" "rs_buffer (consume n s) = rs_buffer s"
  "rs_start (consume n s) = rs_start s + n" "rs_buffer_base (consume n s) = rs_buffer_base s + n"
  "rs_header_left (consume n s) = rs_header_left s" "rs_truncated (consume n s) = rs_truncated s"
  "rs_records_kept (consume n s) = rs_records_kept s"
  "rs_rows_per_type (consume n s) = rs_rows_per_type s"
  by (simp_all add: consume_def)

lemma consume_fits:
  assumes "represents s inp" and "\<not> rs_truncated s"
    and "n \<le> length (data_of (rs_layout s) inp) - rs_buffer_base s"
  shows "rs_start s + n \<le> length (rs_buffer s)"
proof -
  have "length (pending s) = length inp - rs_buffer_base s" "rs_start s \<le> length (rs_buffer s)"
    using assms by (simp_all add: represents_def)
  then have "length (rs_buffer s) - rs_start s = length inp - rs_buffer_base s"
    by (simp add: pending_def)
  with assms show ?thesis using \<open>rs_start s \<le> length (rs_buffer s)\<close> by simp
qed

subsection \<open>The header\<close>

lemma skip_header_simps [simp]:
  "rs_layout (skip_header s) = rs_layout s" "rs_options (skip_header s) = rs_options s"
  "rs_received (skip_header s) = rs_received s" "rs_truncated (skip_header s) = rs_truncated s"
  "rs_records_kept (skip_header s) = rs_records_kept s"
  "rs_rows_per_type (skip_header s) = rs_rows_per_type s"
  by (simp_all add: skip_header_def Let_def)

lemma skip_header_left [simp]: "rs_header_left s = 0 \<Longrightarrow> skip_header s = s"
  by (simp add: skip_header_def)

lemma represents_skip_header:
  assumes "represents s inp" and "\<not> rs_truncated s"
  shows "represents (skip_header s) inp"
proof (cases "rs_header_left s = 0")
  case False
  let ?n = "min (rs_header_left s) (available s)"
  have n: "?n \<le> length (data_of (rs_layout s) inp) - rs_buffer_base s"
    using available_represents [OF assms] by simp
  then have fits: "rs_start s + ?n \<le> length (rs_buffer s)" by (rule consume_fits [OF assms])
  have rep: "rs_received s = length inp" "pending s = drop (rs_buffer_base s) inp"
    "rs_buffer_base s \<le> length (data_of (rs_layout s) inp)"
    "rs_buffer_base s + rs_header_left s = layout_header_size (rs_layout s)"
    using assms False by (simp_all add: represents_def)
  have "skip_header s = (consume ?n s)\<lparr>rs_header_left := rs_header_left s - ?n\<rparr>"
    using False by (simp add: skip_header_def Let_def)
  then show ?thesis
    using rep n fits assms(2) by (simp add: represents_def add.commute) linarith
qed (use assms in simp)

lemma skip_header_available:
  assumes "represents s inp" and "\<not> rs_truncated s"
  shows "rs_header_left (skip_header s) =
      layout_header_size (rs_layout s) - length (data_of (rs_layout s) inp)
    \<or> rs_header_left s = 0"
  using assms available_represents [OF assms]
  by (auto simp: represents_def skip_header_def Let_def min_def split: if_splits)

subsection \<open>One record\<close>

definition progress_of :: "record_stream \<Rightarrow> progress" where
  "progress_of s =
     \<lparr>pr_base = rs_buffer_base s, pr_kept = rs_records_kept s, pr_counts = rs_rows_per_type s,
      pr_stopped = rs_truncated s\<rparr>"

text \<open>The walker's counters agree with those of the reference; a truncated walker's offset has moved
to the end of what was received.\<close>

definition agrees :: "record_stream \<Rightarrow> progress \<Rightarrow> bool" where
  "agrees s p \<longleftrightarrow>
     rs_records_kept s = pr_kept p \<and> rs_rows_per_type s = pr_counts p \<and>
     rs_truncated s = pr_stopped p \<and> (\<not> pr_stopped p \<longrightarrow> rs_buffer_base s = pr_base p)"

lemma agrees_progress_of [simp]: "agrees s (progress_of s)"
  by (simp add: agrees_def progress_of_def)

lemma make_row_progress: "make_row s r cells n = row_at (progress_of s) r cells n"
  by (simp add: make_row_def row_at_def progress_of_def)

lemma walk_record_read_one:
  assumes rep: "represents s inp" and nt: "\<not> rs_truncated s" and wf: "wf_layout (rs_layout s)"
  shows "walk_record s =
    (case read_one (rs_layout s) (rs_options s) (rs_buffer_base s)
            (drop (rs_buffer_base s) (data_of (rs_layout s) inp)) of
       NeedMore \<Rightarrow> (Inr None, s)
     | Fails e \<Rightarrow> (Inl e, s)
     | Found r cells n \<Rightarrow> (Inr (Some (make_row s r cells n)), commit_record s r n))"
proof -
  let ?l = "rs_layout s" and ?b = "rs_buffer_base s"
  let ?p = "layout_prefix_size ?l" and ?bs = "drop ?b (data_of ?l inp)"
  let ?t = "stream_at ?l (rs_options s) ?b ?bs"
  have av: "available s = length ?bs" using available_represents [OF rep nt] by simp
  have pend: "pending s = drop ?b inp" using rep nt by (simp add: represents_def)
  have bs: "?bs = take (available s) (pending s)"
    using av by (simp add: drop_data_of pend)
  show ?thesis
  proof (cases "available s < ?p \<or> ?bs = []")
    case True
    then have "walk_record s = (Inr None, s)"
      using av by (auto simp: walk_record_def Let_def)
    moreover have "read_one ?l (rs_options s) ?b ?bs = NeedMore"
      using True av by (auto simp: read_one_def Let_def)
    ultimately show ?thesis by simp
  next
    case False
    then have ge: "\<not> available s < ?p" "\<not> length ?bs < ?p" "?bs \<noteq> []" "available s \<noteq> 0"
      using av by auto
    have "take ?p (pending ?t) = take ?p (pending s)"
      using ge by (simp add: bs min_def)
    then have rp: "read_prefix ?t = read_prefix s"
      using wf by (intro read_prefix_cong) simp_all
    have sl: "slice ?p n ?bs = slice ?p n (pending s)" if "\<not> available s < ?p + n" for n
      using that unfolding bs by (intro slice_take) simp
    show ?thesis
      unfolding walk_record_def read_one_def Let_def rp av [symmetric]
      using ge sl by (auto split: sum.split prod.split)
  qed
qed

lemma commit_record_simps [simp]:
  "rs_layout (commit_record s r n) = rs_layout s" "rs_options (commit_record s r n) = rs_options s"
  "rs_received (commit_record s r n) = rs_received s"
  "rs_header_left (commit_record s r n) = rs_header_left s"
  by (simp_all add: commit_record_def Let_def)

lemma agrees_commit_record:
  "\<not> rs_truncated s \<Longrightarrow>
     agrees (commit_record s r n) (after_row (rs_options s) (progress_of s) r n)"
  by (auto simp: agrees_def commit_record_def after_row_def progress_of_def Let_def)

lemma represents_commit_record:
  assumes "represents s inp" and "\<not> rs_truncated s" and "rs_header_left s = 0"
    and "n \<le> length (drop (rs_buffer_base s) (data_of (rs_layout s) inp))"
  shows "represents (commit_record s r n) inp"
proof -
  have fits: "rs_start s + n \<le> length (rs_buffer s)"
    using assms by (intro consume_fits) simp_all
  have rep: "rs_received s = length inp" "pending s = drop (rs_buffer_base s) inp"
    "rs_buffer_base s \<le> length (data_of (rs_layout s) inp)"
    "layout_header_size (rs_layout s) \<le> rs_buffer_base s"
    using assms by (simp_all add: represents_def)
  show ?thesis
    using rep fits assms(2-4)
    by (simp add: represents_def commit_record_def Let_def add.commute) linarith
qed

subsection \<open>Steps keep the walker usable and make progress\<close>

lemma walk_record_None: "walk_record s = (Inr None, s') \<Longrightarrow> s' = s"
  by (auto simp: walk_record_def Let_def split: if_splits sum.splits prod.splits)

lemma next_record_cases:
  assumes "next_record s = (x, s')" and "represents s inp" and "wf_layout (rs_layout s)"
  obtains (Truncated) "rs_truncated s" "x = Inr None" "s' = s"
  | (Header) "\<not> rs_truncated s" "0 < rs_header_left (skip_header s)" "x = Inr None"
      "s' = skip_header s"
  | (Walk) "\<not> rs_truncated s" "rs_header_left (skip_header s) = 0" "represents (skip_header s) inp"
      "walk_record (skip_header s) = (x, s')"
  using assms represents_skip_header [of s inp]
  by (auto simp: next_record_def Let_def split: if_splits)

lemma walk_record_step:
  assumes rep: "represents s inp" and nt: "\<not> rs_truncated s" and h: "rs_header_left s = 0"
    and wf: "wf_layout (rs_layout s)" and w: "walk_record s = (x, s')"
  shows "represents s' inp \<and> rs_layout s' = rs_layout s \<and> rs_options s' = rs_options s \<and>
    rs_header_left s' = 0 \<and> (x = Inr None \<longrightarrow> s' = s) \<and>
    (\<forall>row. x = Inr (Some row) \<longrightarrow> length (pending s') < length (pending s))"
proof (cases "read_one (rs_layout s) (rs_options s) (rs_buffer_base s)
    (drop (rs_buffer_base s) (data_of (rs_layout s) inp))")
  case (Found r cells n)
  have n: "0 < n" "n \<le> length (drop (rs_buffer_base s) (data_of (rs_layout s) inp))"
    using Found read_one_pos [OF wf] read_one_length by blast+
  have s': "s' = commit_record s r n" "x = Inr (Some (make_row s r cells n))"
    using w walk_record_read_one [OF rep nt wf] Found by simp_all
  have rep': "represents s' inp"
    unfolding s' using rep nt h n(2) by (rule represents_commit_record)
  have "length (pending s) = length inp - rs_buffer_base s"
    using rep nt by (simp add: represents_def)
  moreover have "pending (commit_record s r n) = drop n (pending s) \<or> pending (commit_record s r n) = []"
    by (auto simp: commit_record_def Let_def) (simp add: pending_def)
  ultimately have "length (pending s') < length (pending s)" using n unfolding s' by auto
  with rep' s' h show ?thesis by simp
qed (use assms walk_record_read_one [OF rep nt wf] in auto)

lemma next_record_step:
  assumes rep: "represents s inp" and wf: "wf_layout (rs_layout s)" and n: "next_record s = (x, s')"
  shows "represents s' inp \<and> rs_layout s' = rs_layout s \<and> rs_options s' = rs_options s \<and>
    (\<forall>row. x = Inr (Some row) \<longrightarrow> length (pending s') < length (pending s)) \<and>
    (x = Inr None \<longrightarrow> next_record s' = (Inr None, s'))"
  using n rep wf
proof (cases rule: next_record_cases)
  case Truncated
  with assms show ?thesis by simp
next
  case Header
  have avs: "available (skip_header s) = 0"
    using Header represents_skip_header [OF rep] available_represents [of "skip_header s" inp]
      available_represents [of s inp] rep
    by (auto simp: skip_header_def Let_def min_def split: if_splits)
  then have "skip_header (skip_header s) = skip_header s"
    by (subst skip_header_def) (simp add: consume_def)
  then show ?thesis
    using Header represents_skip_header [OF rep] by (simp add: next_record_def Let_def)
next
  case Walk
  have pend: "length (pending (skip_header s)) \<le> length (pending s)"
    by (simp add: skip_header_def Let_def)
  note W = walk_record_step [OF Walk(3) _ Walk(2) _ Walk(4)]
  have nt: "\<not> rs_truncated (skip_header s)" "wf_layout (rs_layout (skip_header s))"
    using Walk wf by simp_all
  show ?thesis
    using W [OF nt] Walk pend by (auto simp: next_record_def Let_def)
qed

interpretation walk: record_source next_record walker "\<lambda>s. length (pending s)" drain
proof
  fix s s' :: record_stream and x
  assume "walker s" and n: "next_record s = (x, s')"
  then obtain inp where "represents s inp" "wf_layout (rs_layout s)" by (auto simp: walker_def)
  from next_record_step [OF this n] this show "walker s'" by (auto simp: walker_def)
next
  fix s s' :: record_stream and r
  assume "walker s" and n: "next_record s = (Inr (Some r), s')"
  then obtain inp where "represents s inp" "wf_layout (rs_layout s)" by (auto simp: walker_def)
  from next_record_step [OF this n] show "length (pending s') < length (pending s)" by blast
next
  fix s s' :: record_stream
  assume "walker s" and n: "next_record s = (Inr None, s')"
  then obtain inp where "represents s inp" "wf_layout (rs_layout s)" by (auto simp: walker_def)
  from next_record_step [OF this n] show "next_record s' = (Inr None, s')" by blast
next
  fix s
  show "drain s = (case next_record s of
        (Inl e, s') \<Rightarrow> Some ([], Some e, s')
      | (Inr None, s') \<Rightarrow> Some ([], None, s')
      | (Inr (Some row), s') \<Rightarrow>
          Option.bind (drain s') (\<lambda>(rows, e, s''). Some (row # rows, e, s'')))"
    by (rule drain.simps)
qed

text \<open>A walker yields at most one record for each byte it holds.\<close>

lemma pulls_bounded:
  "((\<lambda>s s'. \<exists>r. next_record s = (Inr (Some r), s')) ^^ n) s t \<Longrightarrow> walker s \<Longrightarrow>
     walker t \<and> length (pending t) + n \<le> length (pending s)"
  by (rule walk.pulls.steps_bounded)

lemma walker_new: "wf_layout l \<Longrightarrow> walker (new_stream l opt)"
  using represents_new by (force simp: walker_def new_stream_def)

lemma push_simps [simp]:
  "rs_layout (push c s) = rs_layout s" "rs_options (push c s) = rs_options s"
  "rs_truncated (push c s) = rs_truncated s" "rs_header_left (push c s) = rs_header_left s"
  "rs_records_kept (push c s) = rs_records_kept s"
  "rs_rows_per_type (push c s) = rs_rows_per_type s"
  "\<not> rs_truncated s \<Longrightarrow> rs_buffer_base (push c s) = rs_buffer_base s"
  by (simp_all add: push_def Let_def)

lemma walker_push: "walker s \<Longrightarrow> walker (push c s)"
  using represents_push by (auto simp: walker_def)

subsection \<open>Draining is the batch walk\<close>

text \<open>The walker past its header, with the reference's counters.\<close>

definition walking :: "layout \<Rightarrow> decode_options \<Rightarrow> u8 list \<Rightarrow> record_stream \<Rightarrow> bool" where
  "walking l opt inp s \<longleftrightarrow>
     represents s inp \<and> rs_layout s = l \<and> rs_options s = opt \<and> rs_header_left s = 0"

lemma next_record_walking:
  "walking l opt inp s \<Longrightarrow> next_record s = (if rs_truncated s then (Inr None, s) else walk_record s)"
  by (simp add: next_record_def Let_def walking_def)

text \<open>The walker reads the record the batch finds, and agrees with the batch after it.\<close>

lemma walk_found:
  assumes wf: "wf_layout l" and w: "walking l opt inp s" and agr: "agrees s p"
    and bs: "bs = drop (rs_buffer_base s) (data_of l inp)" and p: "\<not> pr_stopped p"
    and one: "read_one l opt (pr_base p) bs = Found r cells n" and n: "n \<le> length bs"
  shows "walk_record s = (Inr (Some (row_at p r cells n)), commit_record s r n) \<and>
    walking l opt inp (commit_record s r n) \<and> agrees (commit_record s r n) (after_row opt p r n) \<and>
    (\<not> rs_truncated (commit_record s r n) \<longrightarrow>
       drop n bs = drop (rs_buffer_base (commit_record s r n)) (data_of l inp))"
proof -
  have nt: "\<not> rs_truncated s" "rs_buffer_base s = pr_base p" using agr p by (simp_all add: agrees_def)
  have q: "p = progress_of s"
    using agr p nt by (intro progress.equality) (simp_all add: agrees_def progress_of_def)
  have a: "agrees (commit_record s r n) (after_row opt p r n)"
    using agrees_commit_record [OF nt(1), of r n] w by (simp add: q walking_def)
  moreover have "walk_record s = (Inr (Some (row_at p r cells n)), commit_record s r n)"
    using walk_record_read_one [of s inp] one w nt wf bs by (simp add: walking_def make_row_progress q)
  moreover have "walking l opt inp (commit_record s r n)"
    using w represents_commit_record [of s inp n] nt n bs by (auto simp: walking_def)
  ultimately show ?thesis by (auto simp: agrees_def bs after_row_def nt add.commute)
qed

lemma drain_batch_aux:
  assumes wf: "wf_layout l"
  shows "walking l opt inp s \<Longrightarrow> agrees s p \<Longrightarrow>
    (\<not> rs_truncated s \<longrightarrow> bs = drop (rs_buffer_base s) (data_of l inp)) \<Longrightarrow>
    \<exists>s'. drain s = Some (fst (batch l opt p bs), fst (snd (batch l opt p bs)), s') \<and>
      walking l opt inp s' \<and> agrees s' (snd (snd (batch l opt p bs)))"
  using wf
proof (induction p bs arbitrary: s rule: batch_induct [where opt = opt])
  case (Stop p bs)
  then have "rs_truncated s" by (simp add: agrees_def)
  with Stop show ?case by (subst drain.simps) (simp add: next_record_walking)
next
  case (More p bs)
  then have nt: "\<not> rs_truncated s" "rs_buffer_base s = pr_base p" by (simp_all add: agrees_def)
  have "walk_record s = (Inr None, s)"
    using walk_record_read_one [of s inp] More nt wf by (simp add: walking_def)
  with More nt show ?case
    by (subst drain.simps) (simp add: next_record_walking batch_more)
next
  case (Fail p bs e)
  then have nt: "\<not> rs_truncated s" "rs_buffer_base s = pr_base p" by (simp_all add: agrees_def)
  have "walk_record s = (Inl e, s)"
    using walk_record_read_one [of s inp] Fail nt wf by (simp add: walking_def)
  with Fail nt show ?case
    by (subst drain.simps) (simp add: next_record_walking batch_fails)
next
  case (Found p bs r cells n)
  then have nt: "\<not> rs_truncated s" by (simp add: agrees_def)
  let ?s = "commit_record s r n" and ?b = "batch l opt (after_row opt p r n) (drop n bs)"
  note F = walk_found [OF wf Found.prems(1,2) _ Found.hyps(1,2,4)]
  have bs: "bs = drop (rs_buffer_base s) (data_of l inp)" using Found.prems(3) nt by simp
  from F [OF bs] have "walking l opt inp ?s" "agrees ?s (after_row opt p r n)"
    "\<not> rs_truncated ?s \<longrightarrow> drop n bs = drop (rs_buffer_base ?s) (data_of l inp)" by blast+
  from Found.IH [OF this] obtain s' where s': "drain ?s = Some (fst ?b, fst (snd ?b), s')"
    "walking l opt inp s'" "agrees s' (snd (snd ?b))" by blast
  have "drain s = Some (row_at p r cells n # fst ?b, fst (snd ?b), s')"
    using s'(1) F [OF bs] nt next_record_walking [OF Found.prems(1)] by (subst drain.simps) simp
  with s' show ?case unfolding batch_found [OF wf Found.hyps(1,2)] by auto
qed

lemma drain_batch:
  assumes "wf_layout l" and "walking l opt inp s" and "agrees s p"
    and "\<not> rs_truncated s \<Longrightarrow> bs = drop (rs_buffer_base s) (data_of l inp)"
    and "batch l opt p bs = (rows, e, q)"
  obtains s' where "drain s = Some (rows, e, s')" "walking l opt inp s'" "agrees s' q"
  using drain_batch_aux [of l opt inp s p bs] assms by auto

subsection \<open>The reference parse\<close>

definition start_at :: "layout \<Rightarrow> nat \<Rightarrow> progress" where
  "start_at l base =
     \<lparr>pr_base = base, pr_kept = 0,
      pr_counts = map_of (map (\<lambda>r. (record_name r, 0)) (layout_records l)), pr_stopped = False\<rparr>"

definition reference_rows ::
  "layout \<Rightarrow> decode_options \<Rightarrow> u8 list \<Rightarrow> record_row list \<times> parse_error option \<times> progress" where
  "reference_rows l options inp =
     (let data = data_of l inp; header = layout_header_size l in
      if length data < header then ([], None, start_at l (length data))
      else batch l options (start_at l header) (drop header data))"

definition reference_status ::
  "layout \<Rightarrow> decode_options \<Rightarrow> u8 list \<Rightarrow> progress \<Rightarrow> parse_error + parse_status" where
  "reference_status l options inp p =
     status_of ((new_stream l options)
       \<lparr>rs_received := length inp,
        rs_buffer_base := (if pr_stopped p then length inp else pr_base p),
        rs_records_kept := pr_kept p, rs_rows_per_type := pr_counts p,
        rs_truncated := pr_stopped p\<rparr>)"

definition reference_parse ::
  "layout \<Rightarrow> decode_options \<Rightarrow> u8 list \<Rightarrow> record_row list \<times> (parse_error + parse_status)" where
  "reference_parse l options inp =
     (let (rows, e, p) = reference_rows l options inp in
      (rows, case e of Some e \<Rightarrow> Inl e | None \<Rightarrow> reference_status l options inp p))"

text \<open>A walker that has been drained of the input received so far.\<close>

definition drained ::
  "layout \<Rightarrow> decode_options \<Rightarrow> u8 list \<Rightarrow> record_stream \<Rightarrow> record_row list \<Rightarrow> bool" where
  "drained l opt inp s rows \<longleftrightarrow>
     represents s inp \<and> rs_layout s = l \<and> rs_options s = opt \<and>
     rs_header_left s = layout_header_size l - length (data_of l inp) \<and>
     (\<exists>p. reference_rows l opt inp = (rows, None, p) \<and> agrees s p)"

lemma drained_new: "drained l opt [] (new_stream l opt) []"
proof -
  have "agrees (new_stream l opt) (start_at l 0)"
    by (simp add: agrees_def new_stream_def start_at_def)
  moreover have "\<exists>p. reference_rows l opt [] = ([], None, p) \<and> agrees (new_stream l opt) p"
  proof (cases "layout_header_size l = 0")
    case True
    then have "reference_rows l opt [] = batch l opt (start_at l 0) []"
      by (simp add: reference_rows_def data_of_def)
    moreover have "batch l opt (start_at l 0) [] = ([], None, start_at l 0)"
      by (rule batch_more) (simp add: read_one_def Let_def)
    ultimately show ?thesis using \<open>agrees (new_stream l opt) (start_at l 0)\<close> by auto
  next
    case False
    then have "reference_rows l opt [] = ([], None, start_at l 0)"
      by (simp add: reference_rows_def)
    then show ?thesis using \<open>agrees (new_stream l opt) (start_at l 0)\<close> by auto
  qed
  ultimately show ?thesis
    using represents_new by (simp add: drained_def new_stream_def)
qed

lemma agrees_start_at:
  "agrees s (start_at l b) \<longleftrightarrow> rs_records_kept s = 0 \<and> \<not> rs_truncated s \<and> rs_buffer_base s = b \<and>
     rs_rows_per_type s = map_of (map (\<lambda>r. (record_name r, 0)) (layout_records l))"
  by (auto simp: agrees_def start_at_def)

lemma start_at_base [simp]: "pr_base (start_at l b) = b"
  by (simp add: start_at_def)

lemma drain_next_eq: "next_record s = next_record t \<Longrightarrow> drain s = drain t"
  by (subst drain.simps, subst (2) drain.simps) simp

text \<open>Draining more input, first for a walker past its header, then for one still in it.\<close>

lemma drained_more_walking:
  assumes wf: "wf_layout l" and ref: "reference_rows l opt inp = (rows, None, p)"
    and h: "layout_header_size l \<le> length (data_of l inp)"
    and s: "walking l opt (inp @ c) s" and a: "agrees s p"
  shows "\<exists>rows' e s' q. drain s = Some (rows', e, s') \<and>
    reference_rows l opt (inp @ c) = (rows @ rows', e, q) \<and> walking l opt (inp @ c) s' \<and> agrees s' q"
proof -
  let ?h = "layout_header_size l" and ?d = "data_of l inp"
  obtain ext where ext: "data_of l (inp @ c) = ?d @ ext" using data_of_append by blast
  have b: "batch l opt (start_at l ?h) (drop ?h ?d) = (rows, None, p)"
    using ref h by (simp add: reference_rows_def Let_def)
  have "?h \<le> pr_base p \<and> pr_base p \<le> ?h + length (drop ?h ?d)"
    using batch_base [OF wf, of "start_at l ?h" opt "drop ?h ?d"] unfolding b start_at_base by simp
  then have base: "?h \<le> pr_base p" "pr_base p \<le> length ?d" using h by auto
  let ?bs = "drop (pr_base p - ?h) (drop ?h ?d) @ ext"
  obtain rows' e q where b': "batch l opt p ?bs = (rows', e, q)" by (metis prod_cases3)
  have "?h \<le> length (?d @ ext)" "drop ?h (?d @ ext) = drop ?h ?d @ ext" using h by auto
  then have ref': "reference_rows l opt (inp @ c) = (rows @ rows', e, q)"
    using batch_append [OF wf, of opt "start_at l ?h" "drop ?h ?d" ext] b b'
    by (simp add: reference_rows_def Let_def ext start_at_def)
  have "?bs = drop (rs_buffer_base s) (data_of l (inp @ c))" if "\<not> rs_truncated s"
    using that a base by (simp add: ext agrees_def)
  from drain_batch [OF wf s a this b'] ref' show ?thesis by metis
qed

lemma drained_more_header:
  assumes wf: "wf_layout l" and h: "length (data_of l inp) < layout_header_size l"
    and rep: "represents s (inp @ c)" "rs_layout s = l" "rs_options s = opt"
    and hl: "0 < rs_header_left s"
    and a: "agrees s (start_at l (length (data_of l inp)))"
  shows "\<exists>rows' e s' q. drain s = Some (rows', e, s') \<and>
    reference_rows l opt (inp @ c) = (rows', e, q) \<and> represents s' (inp @ c) \<and>
    rs_layout s' = l \<and> rs_options s' = opt \<and>
    rs_header_left s' = layout_header_size l - length (data_of l (inp @ c)) \<and> agrees s' q"
proof -
  let ?h = "layout_header_size l" and ?t = "skip_header s" and ?d = "data_of l (inp @ c)"
  have nt: "\<not> rs_truncated s" using a by (simp add: agrees_start_at)
  have rept: "represents ?t (inp @ c)" using rep(1) nt by (rule represents_skip_header)
  have left: "rs_header_left ?t = ?h - length ?d"
    using skip_header_available [OF rep(1) nt] hl rep(2) by simp
  have base: "rs_buffer_base ?t + rs_header_left ?t = ?h"
    using rep nt hl by (auto simp: represents_def skip_header_def Let_def split: if_splits)
  have t: "rs_layout ?t = l" "rs_options ?t = opt" using rep by simp_all
  show ?thesis
  proof (cases "length ?d < ?h")
    case True
    then have "rs_buffer_base ?t = length ?d" using left base by simp
    then have "agrees ?t (start_at l (length ?d))" using a by (simp add: agrees_start_at)
    moreover have "drain s = Some ([], None, ?t)"
      using nt left True by (subst drain.simps) (simp add: next_record_def Let_def)
    moreover have "reference_rows l opt (inp @ c) = ([], None, start_at l (length ?d))"
      using True by (simp add: reference_rows_def)
    ultimately show ?thesis using rept t left by blast
  next
    case False
    then have l0: "rs_header_left ?t = 0" using left by simp
    then have bt: "rs_buffer_base ?t = ?h" using base by simp
    have w: "walking l opt (inp @ c) ?t" using rept t l0 by (simp add: walking_def)
    have at: "agrees ?t (start_at l ?h)" using a bt by (simp add: agrees_start_at)
    have "next_record s = next_record ?t"
      using nt l0 by (simp add: next_record_def Let_def)
    then have dr: "drain s = drain ?t" by (rule drain_next_eq)
    obtain rows' e q where b: "batch l opt (start_at l ?h) (drop ?h ?d) = (rows', e, q)"
      by (metis prod_cases3)
    then have ref: "reference_rows l opt (inp @ c) = (rows', e, q)"
      using False by (simp add: reference_rows_def Let_def)
    have "drop ?h ?d = drop (rs_buffer_base ?t) ?d" by (simp only: bt)
    from drain_batch [OF wf w at this b] dr ref left l0 show ?thesis
      unfolding walking_def by metis
  qed
qed

lemma drained_more:
  assumes wf: "wf_layout l" and dr: "drained l opt inp s0 rows"
    and rep: "represents s (inp @ c)" "rs_layout s = l" "rs_options s = opt"
    and hl: "rs_header_left s = rs_header_left s0"
    and a: "\<And>p. agrees s0 p \<Longrightarrow> agrees s p"
  shows "\<exists>rows' e s' q. drain s = Some (rows', e, s') \<and>
    reference_rows l opt (inp @ c) = (rows @ rows', e, q) \<and> agrees s' q \<and>
    rs_layout s' = l \<and> rs_options s' = opt \<and> represents s' (inp @ c) \<and>
    (e = None \<longrightarrow> drained l opt (inp @ c) s' (rows @ rows'))"
proof -
  obtain p where p: "reference_rows l opt inp = (rows, None, p)" "agrees s p"
    using dr a by (auto simp: drained_def)
  have left: "rs_header_left s = layout_header_size l - length (data_of l inp)"
    using dr hl by (simp add: drained_def)
  show ?thesis
  proof (cases "layout_header_size l \<le> length (data_of l inp)")
    case True
    then have "walking l opt (inp @ c) s" using rep left by (simp add: walking_def)
    from drained_more_walking [OF wf p(1) True this p(2)]
    obtain rows' e s' q where r: "drain s = Some (rows', e, s')"
      "reference_rows l opt (inp @ c) = (rows @ rows', e, q)" "walking l opt (inp @ c) s'"
      "agrees s' q" by blast
    have "layout_header_size l \<le> length (data_of l (inp @ c))" using True by simp
    with r show ?thesis by (auto simp: drained_def walking_def)
  next
    case False
    then have h: "length (data_of l inp) < layout_header_size l" by simp
    have p': "rows = []" "p = start_at l (length (data_of l inp))"
      using p(1) h by (simp_all add: reference_rows_def)
    have "0 < rs_header_left s" using left h by simp
    from drained_more_header [OF wf h rep this p(2) [unfolded p'(2)]]
    show ?thesis unfolding p'(1) drained_def append_Nil by blast
  qed
qed

subsection \<open>Whole parses\<close>

lemma drained_push:
  assumes "wf_layout l" and "drained l opt inp s rows"
  shows "\<exists>rows' e s' q. drain (push c s) = Some (rows', e, s') \<and>
    reference_rows l opt (inp @ c) = (rows @ rows', e, q) \<and> agrees s' q \<and>
    rs_layout s' = l \<and> rs_options s' = opt \<and> represents s' (inp @ c) \<and>
    (e = None \<longrightarrow> drained l opt (inp @ c) s' (rows @ rows'))"
proof (rule drained_more [OF assms])
  show "agrees (push c s) p" if "agrees s p" for p using that by (auto simp: agrees_def)
qed (use assms(2) represents_push in \<open>auto simp: drained_def\<close>)

lemma drained_finish:
  assumes "wf_layout l" and "drained l opt inp s rows"
  shows "\<exists>s'. drain (finish_input s) = Some ([], None, s') \<and> drained l opt inp s' rows"
proof -
  have r: "\<exists>rows' e s' q. drain (finish_input s) = Some (rows', e, s') \<and>
    reference_rows l opt (inp @ []) = (rows @ rows', e, q) \<and> agrees s' q \<and>
    rs_layout s' = l \<and> rs_options s' = opt \<and> represents s' (inp @ []) \<and>
    (e = None \<longrightarrow> drained l opt (inp @ []) s' (rows @ rows'))"
  proof (rule drained_more [OF assms])
    show "represents (finish_input s) (inp @ [])"
      using assms(2) represents_finish by (simp add: drained_def)
    show "agrees (finish_input s) p" if "agrees s p" for p
      using that by (auto simp: agrees_def finish_input_def)
  qed (use assms(2) in \<open>auto simp: drained_def finish_input_def\<close>)
  obtain p where "reference_rows l opt inp = (rows, None, p)" using assms(2) by (auto simp: drained_def)
  with r show ?thesis by auto
qed

lemma status_of_eq:
  assumes "drained l opt inp s rows" and "reference_rows l opt inp = (rows, None, p)"
  shows "status_of s = reference_status l opt inp p"
proof -
  have "agrees s p" "represents s inp" "rs_layout s = l" "rs_options s = opt"
    using assms by (auto simp: drained_def)
  then show ?thesis
    by (auto simp: reference_status_def status_of_def decodable_end_def Let_def agrees_def
        represents_def new_stream_def)
qed


lemma reference_error_stable:
  assumes "wf_layout l" and "reference_rows l opt inp = (rows, Some e, q)"
  shows "reference_rows l opt (inp @ c) = (rows, Some e, q)"
proof -
  let ?h = "layout_header_size l" and ?d = "data_of l inp"
  obtain ext where ext: "data_of l (inp @ c) = ?d @ ext" using data_of_append by blast
  have h: "?h \<le> length ?d"
    using assms(2) by (auto simp: reference_rows_def Let_def split: if_splits)
  with assms(2) have "batch l opt (start_at l ?h) (drop ?h ?d) = (rows, Some e, q)"
    by (simp add: reference_rows_def Let_def)
  then have "batch l opt (start_at l ?h) (drop ?h ?d @ ext) = (rows, Some e, q)"
    using batch_append [OF assms(1), of opt "start_at l ?h" "drop ?h ?d" ext] by simp
  moreover have "drop ?h (?d @ ext) = drop ?h ?d @ ext" "\<not> length (?d @ ext) < ?h" using h by auto
  ultimately show ?thesis by (simp only: reference_rows_def Let_def ext if_False)
qed

lemma feed_reference:
  assumes wf: "wf_layout l"
  shows "drained l opt inp s rows \<Longrightarrow>
    \<exists>rows' e s'. feed chunks s = Some (rows', e, s') \<and>
      (case e of
         Some e' \<Rightarrow> \<exists>q. reference_rows l opt (inp @ concat chunks) = (rows @ rows', Some e', q)
       | None \<Rightarrow> drained l opt (inp @ concat chunks) s' (rows @ rows'))"
proof (induction chunks arbitrary: inp s rows)
  case Nil
  from drained_finish [OF wf Nil] show ?case by auto
next
  case (Cons c chunks)
  from drained_push [OF wf Cons.prems] obtain rows1 e s1 q where
    d: "drain (push c s) = Some (rows1, e, s1)"
    and r: "reference_rows l opt (inp @ c) = (rows @ rows1, e, q)"
    and dr: "e = None \<longrightarrow> drained l opt (inp @ c) s1 (rows @ rows1)" by blast
  show ?case
  proof (cases e)
    case (Some e')
    with reference_error_stable [OF wf, of opt "inp @ c" "rows @ rows1" e' q "concat chunks"] d r
    show ?thesis by auto
  next
    case None
    then obtain rows2 e2 s2 where f: "feed chunks s1 = Some (rows2, e2, s2)"
      "case e2 of
         Some e' \<Rightarrow> \<exists>q. reference_rows l opt ((inp @ c) @ concat chunks) =
           ((rows @ rows1) @ rows2, Some e', q)
       | None \<Rightarrow> drained l opt ((inp @ c) @ concat chunks) s2 ((rows @ rows1) @ rows2)"
      using Cons.IH dr by blast
    have "feed (c # chunks) s = Some (rows1 @ rows2, e2, s2)" using d None f(1) by simp
    moreover have "inp @ concat (c # chunks) = (inp @ c) @ concat chunks" by simp
    ultimately show ?thesis using f(2) by (metis append_assoc)
  qed
qed

text \<open>A parse returns, and returns what the reference returns on the whole input.\<close>

lemma run_stream_reference:
  assumes "wf_layout l"
  shows "run_stream l opt chunks = Some (reference_parse l opt (concat chunks))"
proof -
  from feed_reference [OF assms drained_new, unfolded append_Nil] obtain rows e s where
    f: "feed chunks (new_stream l opt) = Some (rows, e, s)"
    and r: "case e of Some e' \<Rightarrow> \<exists>q. reference_rows l opt (concat chunks) = (rows, Some e', q)
       | None \<Rightarrow> drained l opt (concat chunks) s rows" by blast
  show ?thesis
  proof (cases e)
    case (Some e')
    with f r show ?thesis by (auto simp: run_stream_def reference_parse_def)
  next
    case None
    then have "drained l opt (concat chunks) s rows" using r by simp
    then obtain p where "reference_rows l opt (concat chunks) = (rows, None, p)"
      by (auto simp: drained_def)
    with f None status_of_eq [OF \<open>drained l opt (concat chunks) s rows\<close> this] show ?thesis
      by (simp add: run_stream_def reference_parse_def)
  qed
qed

end
