(* ===== verification/Stream_Properties.thy ===== *)
theory Stream_Properties
  imports Stream_Correct
begin

section \<open>What a parse delivers\<close>

text \<open>
  The properties of the walk: it computes the reference parse however the input is cut, it emits a
  record as soon as its last byte is decodable, its rows tile the data without gap or overlap, are
  numbered in order and hold exactly the decoded bytes they span, the footer is never decoded, the
  record limit is respected, the trailer accounts for every byte, and the buffer stays bounded.
\<close>

subsection \<open>Rows of a batch\<close>

definition rows_of_type :: "rstr \<Rightarrow> record_row list \<Rightarrow> nat" where
  "rows_of_type name rows = length (filter (\<lambda>r. row_record_type r = name) rows)"

lemma rows_of_type_simps [simp]:
  "rows_of_type t [] = 0"
  "rows_of_type t (r # rs) = (if row_record_type r = t then 1 else 0) + rows_of_type t rs"
  by (simp_all add: rows_of_type_def)

text \<open>Rows numbered and placed one after the other from \<open>p\<close> on.\<close>

definition tiles :: "progress \<Rightarrow> record_row list \<Rightarrow> bool" where
  "tiles p rows \<longleftrightarrow>
     (\<forall>i < length rows.
        row_record_index (rows ! i) = pr_kept p + i \<and>
        row_byte_offset (rows ! i) = pr_base p + sum_list (map row_byte_length (take i rows)) \<and>
        0 < row_byte_length (rows ! i) \<and>
        row_index (rows ! i) = count_of (pr_counts p) (row_record_type (rows ! i)) +
          rows_of_type (row_record_type (rows ! i)) (take i rows))"

lemma row_at_simps [simp]:
  "row_record_type (row_at p r cells n) = record_name r"
  "row_record_index (row_at p r cells n) = pr_kept p"
  "row_byte_offset (row_at p r cells n) = pr_base p"
  "row_byte_length (row_at p r cells n) = n"
  "row_cells (row_at p r cells n) = cells"
  "row_index (row_at p r cells n) = count_of (pr_counts p) (record_name r)"
  by (simp_all add: row_at_def)

lemma after_row_simps [simp]:
  "pr_base (after_row opt p r n) = pr_base p + n"
  "pr_kept (after_row opt p r n) = pr_kept p + 1"
  "count_of (pr_counts (after_row opt p r n)) t =
     count_of (pr_counts p) t + (if t = record_name r then 1 else 0)"
  "pr_stopped (after_row opt p r n) \<longleftrightarrow>
     opt_max_records opt \<noteq> 0 \<and> opt_max_records opt \<le> pr_kept p + 1"
  by (simp_all add: after_row_def count_of_def)

lemma tiles_Cons:
  assumes "0 < n" and "tiles (after_row opt p r n) rows"
  shows "tiles p (row_at p r cells n # rows)"
  unfolding tiles_def
proof (intro allI impI)
  fix i assume i: "i < length (row_at p r cells n # rows)"
  let ?rows = "row_at p r cells n # rows"
  show "row_record_index (?rows ! i) = pr_kept p + i \<and>
    row_byte_offset (?rows ! i) = pr_base p + sum_list (map row_byte_length (take i ?rows)) \<and>
    0 < row_byte_length (?rows ! i) \<and>
    row_index (?rows ! i) = count_of (pr_counts p) (row_record_type (?rows ! i)) +
      rows_of_type (row_record_type (?rows ! i)) (take i ?rows)"
  proof (cases i)
    case 0
    with assms(1) show ?thesis by simp
  next
    case (Suc k)
    with i assms(2) show ?thesis by (auto simp: tiles_def)
  qed
qed

lemma batch_rows:
  assumes wf: "wf_layout l"
  shows "batch l opt p bs = (rows, e, q) \<Longrightarrow>
    tiles p rows \<and> pr_base q = pr_base p + sum_list (map row_byte_length rows) \<and>
    pr_kept q = pr_kept p + length rows \<and>
    (\<forall>t. count_of (pr_counts q) t = count_of (pr_counts p) t + rows_of_type t rows)"
  using wf
proof (induction p bs arbitrary: rows rule: batch_induct [where opt = opt])
  case (Found p bs r cells n)
  let ?p = "after_row opt p r n"
  obtain rows' e' q' where b: "batch l opt ?p (drop n bs) = (rows', e', q')" by (metis prod_cases3)
  have r: "rows = row_at p r cells n # rows'" "e' = e" "q' = q"
    using Found.prems unfolding batch_found [OF wf Found.hyps(1,2)] b by simp_all
  have IH: "tiles ?p rows'" "pr_base q = pr_base ?p + sum_list (map row_byte_length rows')"
    "pr_kept q = pr_kept ?p + length rows'"
    "count_of (pr_counts q) t = count_of (pr_counts ?p) t + rows_of_type t rows'" for t
    using Found.IH [OF b [unfolded r]] by simp_all
  show ?case
    using IH tiles_Cons [OF Found.hyps(3) IH(1)] unfolding r(1) by auto
qed (auto simp: batch_more batch_fails tiles_def)

lemma batch_max_records:
  assumes wf: "wf_layout l"
  shows "batch l opt p bs = (rows, e, q) \<Longrightarrow>
    (opt_max_records opt \<noteq> 0 \<and> \<not> pr_stopped p \<longrightarrow> pr_kept p < opt_max_records opt) \<Longrightarrow>
    (opt_max_records opt = 0 \<longrightarrow> \<not> pr_stopped p) \<Longrightarrow>
    (pr_stopped p \<longrightarrow> pr_kept p = opt_max_records opt) \<Longrightarrow>
    (opt_max_records opt \<noteq> 0 \<longrightarrow> pr_kept p + length rows \<le> opt_max_records opt) \<and>
    (pr_stopped q \<longleftrightarrow> opt_max_records opt \<noteq> 0 \<and> pr_kept p + length rows = opt_max_records opt) \<and>
    (e \<noteq> None \<longrightarrow> \<not> pr_stopped q)"
  using wf
proof (induction p bs arbitrary: rows rule: batch_induct [where opt = opt])
  case (Found p bs r cells n)
  let ?p = "after_row opt p r n"
  obtain rows' e' q' where b: "batch l opt ?p (drop n bs) = (rows', e', q')" by (metis prod_cases3)
  have r: "rows = row_at p r cells n # rows'" "e' = e" "q' = q"
    using Found.prems(1) unfolding batch_found [OF wf Found.hyps(1,2)] b by simp_all
  show ?case
    using Found.IH [OF b [unfolded r]] Found.prems(2-4) Found.hyps(1) unfolding r(1) by auto
qed (auto simp: batch_more batch_fails)

text \<open>The bytes a row spans decode, under its schema, to its cells.\<close>

definition row_decodes :: "layout \<Rightarrow> decode_options \<Rightarrow> u8 list \<Rightarrow> record_row \<Rightarrow> bool" where
  "row_decodes l opt inp row \<longleftrightarrow>
     (\<exists>r \<in> set (layout_records l).
        record_name r = row_record_type row \<and> layout_prefix_size l \<le> row_byte_length row \<and>
        read_prefix (stream_at l opt (row_byte_offset row)
            (slice (row_byte_offset row) (row_byte_length row) inp)) =
          Inr (r, row_byte_length row - layout_prefix_size l) \<and>
        decode_cells r
          (slice (row_byte_offset row + layout_prefix_size l)
             (row_byte_length row - layout_prefix_size l) inp) opt = Inr (row_cells row))"

lemma read_one_Found:
  assumes wf: "wf_layout l" and f: "read_one l opt base bs = Found r cells n"
  shows "r \<in> set (layout_records l) \<and> layout_prefix_size l \<le> n \<and>
    read_prefix (stream_at l opt base (take n bs)) = Inr (r, n - layout_prefix_size l) \<and>
    decode_cells r (slice (layout_prefix_size l) (n - layout_prefix_size l) bs) opt = Inr cells"
proof -
  let ?p = "layout_prefix_size l"
  obtain k where k: "read_prefix (stream_at l opt base bs) = Inr (r, k)" "n = ?p + k"
    "decode_cells r (slice ?p k bs) opt = Inr cells"
    using f by (auto simp: read_one_def Let_def split: if_splits sum.splits prod.splits)
  have "read_prefix (stream_at l opt base (take n bs)) = read_prefix (stream_at l opt base bs)"
    using wf k(2) by (intro read_prefix_cong) (simp_all add: min_def)
  then show ?thesis using k read_prefix_Inr [of "stream_at l opt base bs" r k] wf by simp
qed

lemma slice_drop: "slice a n (drop b xs) = slice (b + a) n xs"
  by (simp add: slice_def add.commute)

lemma batch_row_decodes:
  assumes wf: "wf_layout l"
  shows "batch l opt p bs = (rows, e, q) \<Longrightarrow> bs = drop (pr_base p) d \<Longrightarrow>
    (\<forall>row \<in> set rows. row_decodes l opt d row)"
  using wf
proof (induction p bs arbitrary: rows rule: batch_induct [where opt = opt])
  case (Found p bs r cells n)
  let ?p = "after_row opt p r n"
  obtain rows' e' q' where b: "batch l opt ?p (drop n bs) = (rows', e', q')" by (metis prod_cases3)
  have r: "rows = row_at p r cells n # rows'" "e' = e" "q' = q"
    using Found.prems unfolding batch_found [OF wf Found.hyps(1,2)] b by simp_all
  have "row_decodes l opt d (row_at p r cells n)"
    using read_one_Found [OF wf Found.hyps(2)] unfolding row_decodes_def
    by (intro bexI [of _ r]) (simp_all add: Found.prems(2) slice_drop, simp add: slice_def)
  moreover have "drop n bs = drop (pr_base ?p) d" by (simp add: Found.prems(2) add.commute)
  ultimately show ?case using Found.IH [OF b [unfolded r]] unfolding r(1) by auto
qed (auto simp: batch_more batch_fails)

subsection \<open>Rows of a parse\<close>

lemma start_at_simps [simp]:
  "pr_kept (start_at l b) = 0" "\<not> pr_stopped (start_at l b)"
  "count_of (pr_counts (start_at l b)) t = 0"
proof -
  have "count_of (map_of (map (\<lambda>r. (record_name r, 0)) rs)) t = 0" for rs
    by (induction rs) (simp_all add: count_of_def)
  then show "count_of (pr_counts (start_at l b)) t = 0" by (simp add: start_at_def)
qed (simp_all add: start_at_def)

text \<open>The start of the rows: after the header, or the end of the data where it is all header.\<close>

definition data_start :: "layout \<Rightarrow> u8 list \<Rightarrow> nat" where
  "data_start l inp = min (layout_header_size l) (length (data_of l inp))"

lemma reference_rows_batch:
  assumes "reference_rows l opt inp = (rows, e, q)"
  shows "batch l opt (start_at l (data_start l inp)) (drop (data_start l inp) (data_of l inp)) =
    (rows, e, q)"
proof (cases "length (data_of l inp) < layout_header_size l")
  case True
  then have s: "data_start l inp = length (data_of l inp)" by (simp add: data_start_def)
  have "batch l opt (start_at l (length (data_of l inp))) [] =
      ([], None, start_at l (length (data_of l inp)))"
    by (rule batch_more) (simp add: read_one_def Let_def)
  with assms True show ?thesis unfolding s by (simp add: reference_rows_def Let_def)
next
  case False
  then have "data_start l inp = layout_header_size l" by (simp add: data_start_def)
  with assms False show ?thesis by (simp add: reference_rows_def Let_def)
qed

lemma reference_rows_facts:
  assumes wf: "wf_layout l" and r: "reference_rows l opt inp = (rows, e, q)"
  shows "tiles (start_at l (data_start l inp)) rows"
    and "pr_base q = data_start l inp + sum_list (map row_byte_length rows)"
    and "pr_base q \<le> length (data_of l inp)"
    and "pr_kept q = length rows"
    and "count_of (pr_counts q) t = rows_of_type t rows"
    and "opt_max_records opt \<noteq> 0 \<longrightarrow> length rows \<le> opt_max_records opt"
    and "pr_stopped q \<longleftrightarrow> opt_max_records opt \<noteq> 0 \<and> length rows = opt_max_records opt"
    and "e \<noteq> None \<longrightarrow> \<not> pr_stopped q"
    and "\<forall>row \<in> set rows. row_decodes l opt (data_of l inp) row"
proof -
  let ?b = "data_start l inp"
  note b = reference_rows_batch [OF r]
  note B = batch_rows [OF wf b]
  show "tiles (start_at l ?b) rows" using B by simp
  show "pr_base q = ?b + sum_list (map row_byte_length rows)" using B by simp
  show "pr_kept q = length rows" using B by simp
  show "count_of (pr_counts q) t = rows_of_type t rows" using B by simp
  have "?b \<le> length (data_of l inp)" by (simp add: data_start_def)
  then show "pr_base q \<le> length (data_of l inp)"
    using batch_base [OF wf, of "start_at l ?b" opt "drop ?b (data_of l inp)"] unfolding b
    by (simp del: length_data_of)
  have "(opt_max_records opt \<noteq> 0 \<longrightarrow> length rows \<le> opt_max_records opt) \<and>
    (pr_stopped q \<longleftrightarrow> opt_max_records opt \<noteq> 0 \<and> length rows = opt_max_records opt) \<and>
    (e \<noteq> None \<longrightarrow> \<not> pr_stopped q)"
    using batch_max_records [OF wf b] by auto
  then show "opt_max_records opt \<noteq> 0 \<longrightarrow> length rows \<le> opt_max_records opt"
    and "pr_stopped q \<longleftrightarrow> opt_max_records opt \<noteq> 0 \<and> length rows = opt_max_records opt"
    and "e \<noteq> None \<longrightarrow> \<not> pr_stopped q" by blast+
  show "\<forall>row \<in> set rows. row_decodes l opt (data_of l inp) row"
    by (rule batch_row_decodes [OF wf b]) simp
qed

lemma sum_list_take_le:
  "i < length rows \<Longrightarrow>
     sum_list (map row_byte_length (take i rows)) + row_byte_length (rows ! i)
     \<le> sum_list (map row_byte_length rows)"
proof (induction rows arbitrary: i)
  case (Cons r rows)
  then show ?case by (cases i) auto
qed simp

lemma row_decodes_input:
  assumes "row_decodes l opt (data_of l inp) row"
    and "row_byte_offset row + row_byte_length row \<le> length inp - layout_footer_size l"
  shows "row_decodes l opt inp row"
proof -
  have sl: "slice a n (data_of l inp) = slice a n inp"
    if "a + n \<le> length inp - layout_footer_size l" for a n
    using that unfolding data_of_def by (rule slice_take)
  show ?thesis
    using assms sl [of "row_byte_offset row" "row_byte_length row"]
      sl [of "row_byte_offset row + layout_prefix_size l" "row_byte_length row - layout_prefix_size l"]
    by (auto simp: row_decodes_def)
qed

lemma run_stream_rows:
  assumes "wf_layout l" and "run_stream l opt chunks = Some (rows, res)"
  obtains e q where "reference_rows l opt (concat chunks) = (rows, e, q)"
    and "res = (case e of Some e \<Rightarrow> Inl e | None \<Rightarrow> reference_status l opt (concat chunks) q)"
  using assms by (auto simp: run_stream_reference reference_parse_def split: prod.splits)

subsection \<open>A concrete layout\<close>

text \<open>One signed byte per record, a one-byte header and a one-byte footer.\<close>

definition tiny_field :: field where
  "tiny_field =
     \<lparr>field_name = lit ''N'', field_offset = 0, field_size = 1, field_kind = KInteger,
      field_scale = 0, field_picture = [], field_declaration = empty_declaration\<lparr>decl_path := lit ''N''\<rparr>\<rparr>"

definition tiny_record :: record_layout where
  "tiny_record =
     \<lparr>record_name = lit ''r'', record_fields = [tiny_field], record_size = 1, record_selector = None\<rparr>"

definition tiny_layout :: layout where
  "tiny_layout =
     \<lparr>layout_records = [tiny_record], layout_description = [], layout_header_size = 1,
      layout_footer_size = 1, layout_length_field = None, layout_type_field = None,
      layout_prefix_size = 0, layout_source_of = SourceProto\<rparr>"

definition tiny_options :: "nat \<Rightarrow> decode_options" where
  "tiny_options max_records =
     \<lparr>opt_codec = CODE_PAGES ! 0, opt_strip_control = True, opt_max_records = max_records,
      opt_abort_on_error = False\<rparr>"

lemma wf_tiny [simp]: "wf_layout tiny_layout"
  by (simp add: wf_layout_def tiny_layout_def wf_record_def tiny_record_def tiny_field_def
      wf_field_def scale_ok_def lit_def MAX_RECORD_BYTES_def MAX_FOOTER_BYTES_def
      MAX_LAYOUT_FIELDS_def MAX_BINARY_BYTES_def width_of_def columns_def)


lemmas tiny_defs =
  read_one_def Let_def read_prefix_def read_length_def read_type_def tiny_layout_def select_def
  check_body_size_def tiny_record_def guard_def MAX_RECORD_BYTES_def decode_cells_def
  tiny_field_def decode_cell_def slice_def slice_get_def decode_field_def decode_binary_def
  MAX_BINARY_BYTES_def to_i64_def

definition tiny_cell :: "int \<Rightarrow> cell" where
  "tiny_cell n = \<lparr>cell_name = lit ''N'', cell_type = 2, cell_val = Some (IntegerValue n)\<rparr>"

lemma tiny_read_one:
  "read_one tiny_layout (tiny_options m) base (1 # bs) = Found tiny_record [tiny_cell 1] 1"
  "read_one tiny_layout (tiny_options m) base (2 # bs) = Found tiny_record [tiny_cell 2] 1"
  "read_one tiny_layout (tiny_options m) base [] = NeedMore"
  by (simp_all add: tiny_defs tiny_cell_def)

lemma tiny_reference:
  "reference_rows tiny_layout (tiny_options 0) [0xaa, 1, 2, 0xbb] =
     ([row_at (start_at tiny_layout 1) tiny_record [tiny_cell 1] 1,
       row_at (after_row (tiny_options 0) (start_at tiny_layout 1) tiny_record 1) tiny_record
         [tiny_cell 2] 1], None,
      after_row (tiny_options 0) (after_row (tiny_options 0) (start_at tiny_layout 1) tiny_record 1)
        tiny_record 1)"
proof -
  have d: "data_of tiny_layout [0xaa, 1, 2, 0xbb] = [0xaa, 1, 2]"
    by (simp add: data_of_def tiny_layout_def)
  have h: "layout_header_size tiny_layout = 1" by (simp add: tiny_layout_def)
  have m: "opt_max_records (tiny_options 0) = 0" by (simp add: tiny_options_def)
  have "batch tiny_layout (tiny_options 0) p [] = ([], None, p)" for p
    by (rule batch_more) (simp add: tiny_read_one)
  then show ?thesis
    by (simp add: reference_rows_def Let_def d h batch_found tiny_read_one m)
qed

lemma tiny_run:
  assumes "concat chunks = [0xaa, 1, 2, 0xbb]"
  shows "\<exists>rows st. run_stream tiny_layout (tiny_options 0) chunks = Some (rows, Inr st) \<and>
    map row_cells rows = [[tiny_cell 1], [tiny_cell 2]] \<and> length rows = 2"
  using assms
  by (simp add: run_stream_reference reference_parse_def tiny_reference reference_status_def
      status_of_def Let_def decodable_end_def new_stream_def)
    (simp add: tiny_layout_def)

subsection \<open>Properties\<close>

text \<open>C1. Refinement: for every validated layout, every setting and every way to cut the input into
chunks, a parse returns, and its rows, its error and its trailer are those of the reference parse of
the whole input, which knows nothing of buffers, cursors and chunks.\<close>

theorem stream_refines_reference:
  assumes "wf_layout l"
  shows "run_stream l opt chunks = Some (reference_parse l opt (concat chunks))"
  using assms by (rule run_stream_reference)

theorem stream_refines_reference_witness:
  "run_stream tiny_layout (tiny_options 0) [[0xaa], [1, 2], [], [0xbb]] =
     Some (reference_parse tiny_layout (tiny_options 0) [0xaa, 1, 2, 0xbb])"
  using stream_refines_reference [OF wf_tiny, of "tiny_options 0" "[[0xaa], [1, 2], [], [0xbb]]"]
  by simp

text \<open>C15. Chunking is invisible: two ways to cut the same input give the same rows and the same
trailer or error.\<close>

theorem chunking_irrelevant:
  assumes "wf_layout l" and "concat chunks = concat chunks'"
  shows "run_stream l opt chunks = run_stream l opt chunks' \<and> run_stream l opt chunks \<noteq> None"
  using assms by (simp add: run_stream_reference)

theorem chunking_irrelevant_witness:
  "run_stream tiny_layout (tiny_options 0) [[0xaa, 1, 2, 0xbb]] =
   run_stream tiny_layout (tiny_options 0) [[0xaa, 1], [], [2], [0xbb]]"
  using chunking_irrelevant [OF wf_tiny, of "[[0xaa, 1, 2, 0xbb]]" "[[0xaa, 1], [], [2], [0xbb]]"]
  by simp

text \<open>C23. The rows tile the data: they are numbered from zero in order, the first starts right after
the header, each starts where the one before it ended and is at least one byte long, their positions
within their record type count up from zero, and none reaches into the footer.\<close>

theorem rows_tile_the_data:
  assumes "wf_layout l" and "run_stream l opt chunks = Some (rows, res)" and "i < length rows"
  shows "row_record_index (rows ! i) = i \<and>
    row_byte_offset (rows ! i) =
      layout_header_size l + sum_list (map row_byte_length (take i rows)) \<and>
    0 < row_byte_length (rows ! i) \<and>
    row_byte_offset (rows ! i) + row_byte_length (rows ! i)
      \<le> length (concat chunks) - layout_footer_size l \<and>
    row_index (rows ! i) = rows_of_type (row_record_type (rows ! i)) (take i rows)"
proof -
  let ?inp = "concat chunks"
  obtain e q where r: "reference_rows l opt ?inp = (rows, e, q)"
    using run_stream_rows [OF assms(1,2)] .
  note F = reference_rows_facts [OF assms(1) r]
  have ds: "data_start l ?inp = layout_header_size l"
    using r assms(3) by (auto simp: reference_rows_def data_start_def Let_def split: if_splits)
  have T: "row_record_index (rows ! i) = i"
    "row_byte_offset (rows ! i) = layout_header_size l + sum_list (map row_byte_length (take i rows))"
    "0 < row_byte_length (rows ! i)"
    "row_index (rows ! i) = rows_of_type (row_record_type (rows ! i)) (take i rows)"
    using F(1) assms(3) unfolding tiles_def ds by simp_all
  have "layout_header_size l + sum_list (map row_byte_length rows)
      \<le> length ?inp - layout_footer_size l"
    using F(2,3) unfolding ds by simp
  with sum_list_take_le [OF assms(3)] T show ?thesis by simp
qed

theorem rows_tile_the_data_witness:
  "\<exists>rows res. run_stream tiny_layout (tiny_options 0) [[0xaa, 1], [2, 0xbb]] = Some (rows, res) \<and>
     row_byte_offset (rows ! 1) = 1 + sum_list (map row_byte_length (take 1 rows))"
proof -
  obtain rows st where r: "run_stream tiny_layout (tiny_options 0) [[0xaa, 1], [2, 0xbb]] =
      Some (rows, Inr st)" "length rows = 2"
    using tiny_run [of "[[0xaa, 1], [2, 0xbb]]"] by auto
  have "layout_header_size tiny_layout = 1" by (simp add: tiny_layout_def)
  with rows_tile_the_data [OF wf_tiny r(1), of 1] r show ?thesis by auto
qed

text \<open>C27. Every row is what its bytes say: the bytes of the input a row spans, read from the row's
offset, select the row's schema and give its length, and its cells are the decoding of its body.\<close>

theorem rows_decode_their_bytes:
  assumes "wf_layout l" and "run_stream l opt chunks = Some (rows, res)" and "row \<in> set rows"
  shows "row_decodes l opt (concat chunks) row"
proof -
  let ?inp = "concat chunks"
  obtain e q where r: "reference_rows l opt ?inp = (rows, e, q)"
    using run_stream_rows [OF assms(1,2)] .
  note F = reference_rows_facts [OF assms(1) r]
  obtain i where i: "i < length rows" "row = rows ! i" using assms(3) by (auto simp: in_set_conv_nth)
  have "row_byte_offset row + row_byte_length row \<le> length ?inp - layout_footer_size l"
    using F(1-3) sum_list_take_le [OF i(1)] i unfolding tiles_def by fastforce
  then show ?thesis using F(9) assms(3) by (auto intro: row_decodes_input)
qed

theorem rows_decode_their_bytes_witness:
  "\<exists>rows res. run_stream tiny_layout (tiny_options 0) [[0xaa, 1, 2], [0xbb]] = Some (rows, res) \<and>
     row_decodes tiny_layout (tiny_options 0) [0xaa, 1, 2, 0xbb] (rows ! 1)"
proof -
  obtain rows st where r: "run_stream tiny_layout (tiny_options 0) [[0xaa, 1, 2], [0xbb]] =
      Some (rows, Inr st)" "length rows = 2"
    using tiny_run [of "[[0xaa, 1, 2], [0xbb]]"] by auto
  then have "rows ! 1 \<in> set rows" by simp
  with rows_decode_their_bytes [OF wf_tiny r(1)] r show ?thesis by auto
qed

text \<open>The record limit: with a nonzero \<^verbatim>\<open>max_records\<close> a parse never emits more rows, and its
trailer says truncated exactly when the limit was reached; a limit of zero never truncates.\<close>

theorem max_records_respected:
  assumes "wf_layout l" and "run_stream l opt chunks = Some (rows, res)"
  shows "(opt_max_records opt \<noteq> 0 \<longrightarrow> length rows \<le> opt_max_records opt) \<and>
    (\<forall>st. res = Inr st \<longrightarrow>
       (ps_truncated st \<longleftrightarrow> opt_max_records opt \<noteq> 0 \<and> length rows = opt_max_records opt))"
proof -
  obtain e q where r: "reference_rows l opt (concat chunks) = (rows, e, q)"
    and res: "res = (case e of Some e \<Rightarrow> Inl e | None \<Rightarrow> reference_status l opt (concat chunks) q)"
    using run_stream_rows [OF assms] .
  note F = reference_rows_facts [OF assms(1) r]
  have "ps_truncated st = pr_stopped q" if "res = Inr st" for st
    using that res
    by (auto simp: reference_status_def status_of_def Let_def result_simps split: option.splits)
  then show ?thesis using F(6,7) by blast
qed

theorem max_records_respected_witness:
  "\<exists>rows res. run_stream tiny_layout (tiny_options 1) [[0xaa, 1], [2, 0xbb]] = Some (rows, res) \<and>
     length rows \<le> 1"
proof -
  obtain rows res where r: "run_stream tiny_layout (tiny_options 1) [[0xaa, 1], [2, 0xbb]] =
      Some (rows, res)"
    using run_stream_reference [OF wf_tiny, of "tiny_options 1" "[[0xaa, 1], [2, 0xbb]]"]
    by (cases "reference_parse tiny_layout (tiny_options 1) [0xaa, 1, 2, 0xbb]") simp
  have "opt_max_records (tiny_options 1) = 1" by (simp add: tiny_options_def)
  with max_records_respected [OF wf_tiny r] r show ?thesis by auto
qed

text \<open>C37. The trailer accounts for the parse: it counts every byte received and every row, in all
and per declared record type; and unless the limit stopped the parse, the bytes consumed are the
header and the rows, and the trailing bytes are the rest of the data before the footer.\<close>

theorem trailer_accounts:
  assumes "wf_layout l" and "run_stream l opt chunks = Some (rows, Inr st)"
  shows "ps_bytes_received st = length (concat chunks) \<and>
    ps_records_kept st = length rows \<and>
    count_of (ps_rows_per_record_type st) t = rows_of_type t rows \<and>
    (\<not> ps_truncated st \<longrightarrow>
       ps_bytes_consumed st =
         data_start l (concat chunks) + sum_list (map row_byte_length rows) \<and>
       ps_bytes_consumed st + ps_trailing_bytes st =
         length (concat chunks) - layout_footer_size l)"
proof -
  let ?inp = "concat chunks"
  obtain e q where r: "reference_rows l opt ?inp = (rows, e, q)"
    and res: "Inr st = (case e of Some e \<Rightarrow> Inl e | None \<Rightarrow> reference_status l opt ?inp q)"
    using run_stream_rows [OF assms] .
  note F = reference_rows_facts [OF assms(1) r]
  have st: "reference_status l opt ?inp q = Inr st" using res by (cases e) auto
  have parts: "ps_bytes_received st = length ?inp" "ps_records_kept st = pr_kept q"
    "ps_rows_per_record_type st = pr_counts q" "ps_truncated st = pr_stopped q"
    "ps_bytes_consumed st = (if pr_stopped q then length ?inp else pr_base q)"
    "ps_trailing_bytes st = length ?inp - layout_footer_size l - ps_bytes_consumed st"
    using st by (auto simp: reference_status_def status_of_def Let_def decodable_end_def
        result_simps new_stream_def)
  have "pr_base q \<le> length ?inp - layout_footer_size l" using F(3) by simp
  then have "\<not> pr_stopped q \<longrightarrow>
      ps_bytes_consumed st + ps_trailing_bytes st = length ?inp - layout_footer_size l"
    unfolding parts(5,6) by (simp del: diff_diff_left)
  moreover have "\<not> pr_stopped q \<longrightarrow>
      ps_bytes_consumed st = data_start l ?inp + sum_list (map row_byte_length rows)"
    using parts(5) F(2) by simp
  moreover have "ps_records_kept st = length rows" using parts(2) F(4) by simp
  moreover have "count_of (ps_rows_per_record_type st) t = rows_of_type t rows"
    using parts(3) F(5) by simp
  ultimately show ?thesis using parts(1,4) by blast
qed

theorem trailer_accounts_witness:
  "\<exists>rows st. run_stream tiny_layout (tiny_options 0) [[0xaa, 1], [2, 0xbb]] = Some (rows, Inr st) \<and>
     ps_bytes_received st = 4 \<and> ps_records_kept st = 2"
proof -
  obtain rows st where r: "run_stream tiny_layout (tiny_options 0) [[0xaa, 1], [2, 0xbb]] =
      Some (rows, Inr st)" "length rows = 2"
    using tiny_run [of "[[0xaa, 1], [2, 0xbb]]"] by auto
  from trailer_accounts [OF wf_tiny r(1), of "lit ''r''"] r show ?thesis by auto
qed

text \<open>C38. What the trailer says after the record limit: all bytes received count as consumed, none as
trailing, and the warning always speaks of zero bytes that were not decoded, however much input
followed the last row.\<close>

theorem truncated_trailer_hides_rest:
  assumes "wf_layout l" and "run_stream l opt chunks = Some (rows, Inr st)" and "ps_truncated st"
    and "layout_header_size l + layout_footer_size l \<le> length (concat chunks)"
  shows "ps_bytes_consumed st = ps_bytes_received st \<and> ps_trailing_bytes st = 0 \<and>
    map warning_message (ps_warnings st) =
      [[MLit ''stopped after '', MNat (length rows), MLit '' records; '', MNat 0,
        MLit '' bytes of input were not decoded'']]"
proof -
  let ?inp = "concat chunks"
  obtain e q where r: "reference_rows l opt ?inp = (rows, e, q)"
    and res: "Inr st = (case e of Some e \<Rightarrow> Inl e | None \<Rightarrow> reference_status l opt ?inp q)"
    using run_stream_rows [OF assms(1,2)] .
  have st: "reference_status l opt ?inp q = Inr st" using res by (cases e) auto
  then have "pr_stopped q"
    using assms(3) by (auto simp: reference_status_def status_of_def Let_def result_simps)
  with st assms(4) reference_rows_facts(4) [OF assms(1) r] show ?thesis
    by (auto simp: reference_status_def status_of_def Let_def decodable_end_def new_stream_def
        split: if_splits)
qed

lemma tiny_limited:
  "\<exists>rows st. run_stream tiny_layout (tiny_options 1) [[0xaa, 1], [2, 2, 2, 0xbb]] =
     Some (rows, Inr st) \<and> ps_truncated st \<and> length rows = 1"
proof -
  have d: "data_of tiny_layout [0xaa, 1, 2, 2, 2, 0xbb] = [0xaa, 1, 2, 2, 2]"
    by (simp add: data_of_def tiny_layout_def)
  have h: "layout_header_size tiny_layout = 1" by (simp add: tiny_layout_def)
  have m: "opt_max_records (tiny_options (Suc 0)) = Suc 0" by (simp add: tiny_options_def)
  have "reference_rows tiny_layout (tiny_options 1) [0xaa, 1, 2, 2, 2, 0xbb] =
      ([row_at (start_at tiny_layout 1) tiny_record [tiny_cell 1] 1], None,
       after_row (tiny_options 1) (start_at tiny_layout 1) tiny_record 1)"
    by (simp add: reference_rows_def Let_def d h batch_found tiny_read_one m)
  then show ?thesis
    by (simp add: run_stream_reference reference_parse_def reference_status_def status_of_def
        Let_def decodable_end_def new_stream_def m)
qed

theorem truncated_trailer_hides_rest_witness:
  "\<exists>rows st. run_stream tiny_layout (tiny_options 1) [[0xaa, 1], [2, 2, 2, 0xbb]] =
     Some (rows, Inr st) \<and> ps_bytes_consumed st = ps_bytes_received st \<and> ps_trailing_bytes st = 0"
proof -
  obtain rows st where r: "run_stream tiny_layout (tiny_options 1) [[0xaa, 1], [2, 2, 2, 0xbb]] =
      Some (rows, Inr st)" "ps_truncated st" using tiny_limited by blast
  have "layout_header_size tiny_layout + layout_footer_size tiny_layout
      \<le> length (concat [[0xaa, 1], [2, 2, 2, 0xbb :: u8]])" by (simp add: tiny_layout_def)
  from truncated_trailer_hides_rest [OF wf_tiny r this] r show ?thesis by blast
qed

text \<open>The footer is never decoded: inputs that differ only in their last \<^verbatim>\<open>footer_size\<close> bytes
give the same rows and the same trailer or error.\<close>

theorem footer_never_decoded:
  assumes "wf_layout l" and "length f = layout_footer_size l" and "length f' = layout_footer_size l"
  shows "run_stream l opt [d @ f] = run_stream l opt [d @ f']"
proof -
  have "data_of l (d @ f) = data_of l (d @ f')" using assms(2,3) by (simp add: data_of_def)
  then have "reference_rows l opt (d @ f) = reference_rows l opt (d @ f')"
    by (simp add: reference_rows_def)
  moreover have "reference_status l opt (d @ f) = reference_status l opt (d @ f')"
    using assms(2,3) by (intro ext) (simp add: reference_status_def)
  ultimately have "reference_parse l opt (d @ f) = reference_parse l opt (d @ f')"
    by (simp only: reference_parse_def)
  then show ?thesis using assms(1) by (simp add: run_stream_reference)
qed

theorem footer_never_decoded_witness:
  "run_stream tiny_layout (tiny_options 0) [[0xaa, 1, 2] @ [0xbb]] =
   run_stream tiny_layout (tiny_options 0) [[0xaa, 1, 2] @ [0x00]]"
  by (rule footer_never_decoded [OF wf_tiny]) (simp_all add: tiny_layout_def)

subsection \<open>Promptness and memory\<close>

text \<open>The states between two frames of a parse: the input so far, the rows emitted for it, the walker.\<close>

inductive frame_step ::
  "u8 list \<times> record_row list \<times> record_stream \<Rightarrow> u8 list \<times> record_row list \<times> record_stream \<Rightarrow> bool" where
  frame: "drain (push chunk s) = Some (rows', None, s') \<Longrightarrow>
    frame_step (inp, rows, s) (inp @ chunk, rows @ rows', s')"

inductive_cases frame_step_cases: "frame_step (inp, rows, s) t"

definition fed :: "layout \<Rightarrow> decode_options \<Rightarrow> u8 list \<Rightarrow> record_row list \<Rightarrow> record_stream \<Rightarrow> bool" where
  "fed l opt inp rows s \<longleftrightarrow> reaches ((=) ([], [], new_stream l opt)) frame_step (inp, rows, s)"

lemma fed_start: "fed l opt [] [] (new_stream l opt)"
  unfolding fed_def by (rule reaches.Init) (rule refl)

lemma fed_frame:
  "fed l opt inp rows s \<Longrightarrow> drain (push chunk s) = Some (rows', None, s') \<Longrightarrow>
     fed l opt (inp @ chunk) (rows @ rows') s'"
  unfolding fed_def by (erule reaches.Step) (rule frame_step.frame)

lemma next_record_new: "next_record (new_stream l opt) = (Inr None, new_stream l opt)"
proof -
  have "skip_header (new_stream l opt) = new_stream l opt"
    by (simp add: skip_header_def new_stream_def available_def decodable_end_def consume_def)
  moreover have "available (new_stream l opt) = 0"
    by (simp add: available_def decodable_end_def new_stream_def)
  moreover have "\<not> rs_truncated (new_stream l opt)" by (simp add: new_stream_def)
  ultimately show ?thesis
    by (auto simp: next_record_def walk_record_def Let_def)
qed

text \<open>Between two frames the walker is drained and has no record left to give.\<close>

definition waiting :: "layout \<Rightarrow> decode_options \<Rightarrow> u8 list \<times> record_row list \<times> record_stream \<Rightarrow> bool" where
  "waiting l opt = (\<lambda>(inp, rows, s). wf_layout l \<longrightarrow> drained l opt inp s rows \<and> next_record s = (Inr None, s))"

lemma frame_step_waiting:
  assumes "waiting l opt (inp, rows, s)" and "drain (push chunk s) = Some (rows', None, s')"
  shows "waiting l opt (inp @ chunk, rows @ rows', s')"
  unfolding waiting_def prod.case
proof
  assume wf: "wf_layout l"
  with assms(1) have dr: "drained l opt inp s rows" by (simp add: waiting_def)
  then have "walker (push chunk s)" using wf by (intro walker_push) (auto simp: drained_def walker_def)
  with drained_push [OF wf dr, of chunk] walk.drains_done assms(2)
  show "drained l opt (inp @ chunk) s' (rows @ rows') \<and> next_record s' = (Inr None, s')" by auto
qed

interpretation frames: invariant_system "(=) ([], [], new_stream l opt)" frame_step "waiting l opt" for l opt
proof
  show "waiting l opt s" if "([], [], new_stream l opt) = s" for s
    unfolding that [symmetric] by (simp add: waiting_def drained_new next_record_new)
  show "waiting l opt t" if "waiting l opt s" "frame_step s t" for s t
  proof -
    obtain inp rows u where s: "s = (inp, rows, u)" by (cases s)
    from that(2) [unfolded s] that(1) show ?thesis
      by (elim frame_step_cases) (auto simp: s intro: frame_step_waiting)
  qed
qed

lemma fed_drained: "fed l opt inp rows s \<Longrightarrow> wf_layout l \<Longrightarrow> drained l opt inp s rows"
  and fed_exhausted: "fed l opt inp rows s \<Longrightarrow> wf_layout l \<Longrightarrow> next_record s = (Inr None, s)"
  using frames.reaches_inv [of l opt "(inp, rows, s)"] by (simp_all add: fed_def waiting_def)

lemma read_one_NeedMore:
  assumes "wf_layout l" and "read_one l opt base bs = NeedMore"
  shows "length bs < layout_prefix_size l + MAX_RECORD_BYTES"
proof (cases "length bs < layout_prefix_size l \<or> bs = []")
  case True
  then show ?thesis by (auto simp: MAX_RECORD_BYTES_def)
next
  case False
  then obtain r k where "read_prefix (stream_at l opt base bs) = Inr (r, k)"
    "length bs < layout_prefix_size l + k"
    using assms(2) by (auto simp: read_one_def Let_def split: if_splits sum.splits prod.splits)
  with read_prefix_Inr [of "stream_at l opt base bs" r k] assms(1) show ?thesis by simp
qed

lemma fed_pending:
  assumes r: "fed l opt inp rows s" and wf: "wf_layout l"
  shows "length (pending s) < layout_footer_size l + layout_prefix_size l + MAX_RECORD_BYTES"
proof -
  have d: "drained l opt inp s rows" using fed_drained [OF r wf] .
  then have rep: "represents s inp" "rs_layout s = l" "rs_options s = opt"
    "rs_header_left s = layout_header_size l - length (data_of l inp)" by (auto simp: drained_def)
  have n: "next_record s = (Inr None, s)" using fed_exhausted [OF r wf] .
  consider "rs_truncated s" | "\<not> rs_truncated s" "rs_header_left s \<noteq> 0"
    | "\<not> rs_truncated s" "rs_header_left s = 0" by blast
  then show ?thesis
  proof cases
    case 1
    then have "rs_buffer s = []" using rep(1) by (simp add: represents_def)
    then show ?thesis by (simp add: pending_def MAX_RECORD_BYTES_def)
  next
    case 2
    then have "rs_buffer_base s + rs_header_left s = layout_header_size l"
      "pending s = drop (rs_buffer_base s) inp"
      using rep by (simp_all add: represents_def)
    with rep(4) 2(2) show ?thesis by (auto simp: MAX_RECORD_BYTES_def)
  next
    case 3
    then have "walk_record s = (Inr None, s)" using n by (simp add: next_record_def Let_def)
    then have "read_one l opt (rs_buffer_base s) (drop (rs_buffer_base s) (data_of l inp)) = NeedMore"
      using walk_record_read_one [OF rep(1) 3(1)] rep(2,3) wf by (auto split: outcome.splits)
    from read_one_NeedMore [OF wf this]
    have "length inp - layout_footer_size l - rs_buffer_base s < layout_prefix_size l + MAX_RECORD_BYTES"
      by simp
    moreover have "length (pending s) = length inp - rs_buffer_base s"
      using rep(1) 3(1) by (simp add: represents_def)
    ultimately show ?thesis by linarith
  qed
qed

text \<open>C26. Promptness: between any two frames of a parse the rows emitted are exactly the reference
rows of the bytes received so far (every record whose last byte is certain not to be footer has been
emitted, and no other), and the walker has nothing further to give.\<close>

theorem rows_are_prompt:
  assumes "wf_layout l" and "fed l opt inp rows s"
  shows "(\<exists>p. reference_rows l opt inp = (rows, None, p)) \<and> next_record s = (Inr None, s)"
  using fed_drained [OF assms(2,1)] fed_exhausted [OF assms(2,1)] by (auto simp: drained_def)

lemma tiny_fed: "\<exists>rows s. fed tiny_layout (tiny_options 0) [0xaa] rows s"
proof -
  have "data_of tiny_layout [0xaa] = []" "layout_header_size tiny_layout = 1"
    by (simp_all add: data_of_def tiny_layout_def)
  then have "reference_rows tiny_layout (tiny_options 0) [0xaa] = ([], None, start_at tiny_layout 0)"
    by (simp add: reference_rows_def)
  with drained_push [OF wf_tiny drained_new [of tiny_layout "tiny_options 0"], of "[0xaa]"]
  have "\<exists>s. drain (push [0xaa] (new_stream tiny_layout (tiny_options 0))) = Some ([], None, s)"
    by auto
  then show ?thesis using fed_frame [OF fed_start, of "[0xaa]"] by fastforce
qed

theorem rows_are_prompt_witness:
  "\<exists>rows s. fed tiny_layout (tiny_options 0) [0xaa] rows s \<and> next_record s = (Inr None, s)"
  using tiny_fed rows_are_prompt [OF wf_tiny] by blast

text \<open>C31. The memory bound: between frames the walker holds less than a footer, a prefix and one
largest record, and after the next frame arrives its whole buffer is at most that plus the frame.\<close>

theorem buffer_bounded:
  assumes "wf_layout l" and "fed l opt inp rows s"
  shows "length (rs_buffer (push chunk s))
    < layout_footer_size l + layout_prefix_size l + MAX_RECORD_BYTES + length chunk"
proof -
  have "rs_buffer (push chunk s) = (if rs_truncated s then [] else pending s @ chunk)"
    by (simp add: push_def Let_def pending_def)
  with fed_pending [OF assms(2,1)] show ?thesis by auto
qed

theorem buffer_bounded_witness:
  "\<exists>rows s. fed tiny_layout (tiny_options 0) [0xaa] rows s \<and>
     length (rs_buffer (push [1, 2] s)) < 16777219"
proof -
  obtain rows s where r: "fed tiny_layout (tiny_options 0) [0xaa] rows s"
    using tiny_fed by blast
  from buffer_bounded [OF wf_tiny r, of "[1, 2]"] r show ?thesis
    by (auto simp: tiny_layout_def MAX_RECORD_BYTES_def)
qed

end
