(* ===== verification/Cell_Properties.thy ===== *)
theory Cell_Properties
  imports Record_Stream
begin

section \<open>Cells and prefixes\<close>

text \<open>
  What the walker decodes from the bytes of one record: the cells are the columns of the schema in
  order, numbers are exact and can be read back from their cells, the only failures of a body that is
  long enough are those of its fields, and a declared length is accepted exactly when it describes a
  body within bounds, wrap-around included.
\<close>

subsection \<open>Numbers in cells\<close>

fun number_of_cell :: "cell_value \<Rightarrow> (int \<times> nat) option" where
  "number_of_cell (TextValue t) = None"
| "number_of_cell (IntegerValue n) = Some (n, 0)"
| "number_of_cell (DecimalValue d) =
     (if fraction_digits (dec_text d) = dec_scale d
      then map_option (\<lambda>n. (n, dec_scale d)) (parse_i128 (filter (\<lambda>c. c \<noteq> 46) (dec_text d)))
      else None)"

fun unscaled_of_cell :: "cell_value \<Rightarrow> int option" where
  "unscaled_of_cell (DecimalValue d) = dec_unscaled d"
| "unscaled_of_cell _ = None"

text \<open>The value a numeric field denotes.\<close>

definition denotes :: "field_kind \<Rightarrow> u8 list \<Rightarrow> int" where
  "denotes kind bytes =
     (case kind of
        KPackedDecimal \<Rightarrow> packed_value bytes
      | KZonedDecimal \<Rightarrow> zoned_value bytes
      | KInteger \<Rightarrow> twos_value bytes
      | _ \<Rightarrow> int (be_value bytes))"

lemma decode_field_number:
  assumes f: "wf_field f" and len: "length bytes = field_size f" and k: "is_numeric (field_kind f)"
    and d: "decode_field f bytes opt = Inr v"
  shows "\<exists>u. v = Number u (field_scale f) \<and> sint u = denotes (field_kind f) bytes"
proof -
  have ne: "bytes \<noteq> []" using f len by (auto simp: wf_field_def)
  have lim: "length bytes \<le> width_limit (field_kind f)" using f len by (simp add: wf_field_def)
  show ?thesis
  proof (cases "field_kind f")
    case KPackedDecimal
    with d obtain u where "decode_packed bytes = Inr u" "v = Number u (field_scale f)"
      by (auto simp: decode_field_def result_simps)
    with decode_packed_spec [OF ne] lim KPackedDecimal show ?thesis by (simp add: denotes_def)
  next
    case KZonedDecimal
    with d obtain u where "decode_zoned bytes = Inr u" "v = Number u (field_scale f)"
      by (auto simp: decode_field_def result_simps)
    with decode_zoned_spec [OF ne] lim KZonedDecimal show ?thesis by (simp add: denotes_def)
  next
    case KInteger
    with d obtain u where "decode_binary bytes True = Inr u" "v = Number u (field_scale f)"
      by (auto simp: decode_field_def result_simps)
    with decode_binary_spec [of bytes True] KInteger show ?thesis by (simp add: denotes_def)
  next
    case KUnsignedInteger
    with d obtain u where "decode_binary bytes False = Inr u" "v = Number u (field_scale f)"
      by (auto simp: decode_field_def result_simps)
    with decode_binary_spec [of bytes False] KUnsignedInteger show ?thesis by (simp add: denotes_def)
  qed (use k in \<open>simp_all add: is_numeric_def\<close>)
qed

subsection \<open>The cells of a record\<close>

definition cell_of :: "u8 list \<Rightarrow> decode_options \<Rightarrow> field \<Rightarrow> cell \<Rightarrow> bool" where
  "cell_of body opt f c \<longleftrightarrow>
     field_offset f + field_size f \<le> length body \<and>
     cell_name c = field_name f \<and>
     cell_type c = field_type_number (kind_to_proto (field_kind f)) \<and>
     (\<exists>v. decode_field f (slice (field_offset f) (field_size f) body) opt = Inr v \<and>
          cell_val c = Some (to_cell_value v (field_scale f)))"

lemma decode_cell_Inr: "decode_cell r body opt f = Inr c \<longleftrightarrow> cell_of body opt f c"
  by (auto simp: decode_cell_def cell_of_def Let_def result_simps slice_get_def slice_def
      split: if_splits intro!: cell.equality)

lemma decode_fields_Inr:
  "decode_fields r body opt fs = Inr cs \<longleftrightarrow> list_all2 (cell_of body opt) (columns fs) cs"
  by (induction fs arbitrary: cs) (auto simp: result_simps decode_cell_Inr list_all2_Cons1)

text \<open>Which field a failing record is refused for: the first one whose decoder fails or that does
not fit, after fields that all decode.\<close>

lemma decode_fields_Inl:
  "decode_fields r body opt fs = Inl e \<Longrightarrow>
     \<exists>gs f hs. columns fs = gs @ f # hs \<and> decode_cell r body opt f = Inl e \<and>
       (\<forall>g \<in> set gs. \<exists>c. cell_of body opt g c)"
proof (induction fs)
  case (Cons f fs)
  show ?case
  proof (cases "field_kind f = KSkip")
    case True
    with Cons show ?thesis by simp
  next
    case False
    show ?thesis
    proof (cases "decode_cell r body opt f")
      case (Inl e')
      with False Cons.prems have "decode_cell r body opt f = Inl e" by simp
      with False show ?thesis by (intro exI [of _ "[]"]) auto
    next
      case (Inr c)
      with False Cons.prems have "decode_fields r body opt fs = Inl e" by (auto simp: result_simps)
      from Cons.IH [OF this] obtain gs g hs where "columns fs = gs @ g # hs"
        "decode_cell r body opt g = Inl e" "\<forall>g \<in> set gs. \<exists>c. cell_of body opt g c" by blast
      with False Inr show ?thesis
        by (intro exI [of _ "f # gs"] exI [of _ g] exI [of _ hs]) (auto simp: decode_cell_Inr)
    qed
  qed
qed simp

lemma decode_cell_fits_Inl:
  assumes "field_offset f + field_size f \<le> length body"
  shows "decode_cell r body opt f = Inl e \<longleftrightarrow>
    (\<exists>e'. decode_field f (slice (field_offset f) (field_size f) body) opt = Inl e' \<and>
       e = in_field (field_name f) (record_name r) e')"
  using assms by (auto simp: decode_cell_def Let_def result_simps slice_get_def slice_def)

subsection \<open>Declared lengths\<close>

lemma prefix_size_bound: "wf_layout l \<Longrightarrow> layout_prefix_size l \<le> 2 * MAX_RECORD_BYTES"
proof -
  assume wf: "wf_layout l"
  have w: "width_of f \<le> MAX_RECORD_BYTES" if "\<forall>g \<in> set_option f. \<exists>b. wf_prefix b g" for f
    using that width_limit_le
    by (cases f) (auto simp: width_of_def wf_prefix_def intro: order.trans)
  have "width_of (layout_length_field l) \<le> MAX_RECORD_BYTES"
    using wf by (intro w) (auto simp: wf_layout_def)
  moreover have "width_of (layout_type_field l) \<le> MAX_RECORD_BYTES"
    using wf by (intro w) (auto simp: wf_layout_def)
  ultimately show ?thesis using wf by (simp add: wf_layout_def)
qed

lemma sint_sub_i128:
  fixes len :: i128
  assumes "p < 2 ^ 126"
  shows "sint (len - word_of_nat p) =
    (if sint len - int p < i128_min then sint len - int p + 2 ^ 128 else sint len - int p)"
proof -
  have b: "i128_min \<le> sint len" "sint len \<le> i128_max" by (rule sint_i128_bounds)+
  have e: "len - word_of_nat p = word_of_int (sint len - int p)" by simp
  show ?thesis
  proof (cases "sint len - int p < i128_min")
    case True
    have "(word_of_int (2 ^ 128) :: i128) = 0" by (simp add: word_of_int_2p)
    then have "len - word_of_nat p = (word_of_int (sint len - int p + 2 ^ 128) :: i128)"
      unfolding e by (simp only: of_int_add) simp
    moreover have "sint (word_of_int (sint len - int p + 2 ^ 128) :: i128) = sint len - int p + 2 ^ 128"
      using True b assms by (intro sint_of_int_i128) auto
    ultimately have "sint (len - word_of_nat p) = sint len - int p + 2 ^ 128" by (simp only:)
    then show ?thesis using True by simp
  next
    case False
    have "sint (word_of_int (sint len - int p) :: i128) = sint len - int p"
      using False b by (intro sint_of_int_i128) auto
    then show ?thesis using False unfolding e by simp
  qed
qed

lemma check_body_size_declared:
  assumes "wf_layout (rs_layout s)"
  shows "check_body_size s (Some len) r = Inr n \<longleftrightarrow>
    sint len = int (layout_prefix_size (rs_layout s)) + int n \<and> n \<le> MAX_RECORD_BYTES"
proof -
  let ?p = "layout_prefix_size (rs_layout s)"
  have p: "?p \<le> 2 * MAX_RECORD_BYTES" using assms by (rule prefix_size_bound)
  then have p126: "?p < 2 ^ 126" by (simp add: MAX_RECORD_BYTES_def)
  have p': "int ?p \<le> 33554432" using p by (simp add: MAX_RECORD_BYTES_def)
  have b: "i128_min \<le> sint len" by (rule sint_i128_bounds)
  show ?thesis
    unfolding check_body_size_def Let_def option.case sint_sub_i128 [OF p126]
    using b p' by (auto simp: guard_Inr_iff MAX_RECORD_BYTES_def)
qed

subsection \<open>Properties\<close>

text \<open>C22. The numbers of a validated field are exact: decoding the bytes of a packed, zoned or binary
field yields the number they denote, with the field's scale, and its cell carries that number in full,
as an integer, or as a decimal text whose digits read back to it with as many after the point as the
scale says; the optional 64-bit copy is the same number.\<close>

theorem numeric_cells_exact:
  assumes "wf_field f" and "length bytes = field_size f" and "is_numeric (field_kind f)"
    and "decode_field f bytes opt = Inr v"
  shows "number_of_cell (to_cell_value v (field_scale f)) =
      Some (denotes (field_kind f) bytes, field_scale f) \<and>
    unscaled_of_cell (to_cell_value v (field_scale f)) \<in> {None, Some (denotes (field_kind f) bytes)}"
proof -
  obtain u where u: "v = Number u (field_scale f)" "sint u = denotes (field_kind f) bytes"
    using decode_field_number [OF assms] by blast
  show ?thesis
    unfolding u(2) [symmetric]
    by (auto simp: u(1) render_decimal_parse to_i64_def split: option.split)
qed

definition plain_options :: decode_options where
  "plain_options =
     \<lparr>opt_codec = CODE_PAGES ! 0, opt_strip_control = True, opt_max_records = 0,
      opt_abort_on_error = False\<rparr>"

theorem numeric_cells_exact_witness:
  "\<exists>v. decode_field (\<lparr>field_name = lit ''AMT'', field_offset = 0, field_size = 3,
         field_kind = KPackedDecimal, field_scale = 2, field_picture = [],
         field_declaration = empty_declaration\<lparr>decl_path := lit ''AMT''\<rparr>\<rparr>) [0x12, 0x34, 0x5d] plain_options = Inr v \<and>
     number_of_cell (to_cell_value v 2) = Some (- 12345, 2)"
proof -
  define f where "f = \<lparr>field_name = lit ''AMT'', field_offset = 0, field_size = 3,
    field_kind = KPackedDecimal, field_scale = 2, field_picture = [],
    field_declaration = empty_declaration\<lparr>decl_path := lit ''AMT''\<rparr>\<rparr>"
  have wf: "wf_field f"
    by (simp add: f_def wf_field_def MAX_PACKED_BYTES_def scale_ok_def is_numeric_def
        digit_limit_def saturating_mul_u32_def lit_def)
  have "decode_packed [0x12, 0x34, 0x5d] = Inr (- 12345)" by (simp add: decode_packed_eq dec_value_def)
  then have d: "decode_field f [0x12, 0x34, 0x5d] plain_options = Inr (Number (- 12345) 2)"
    by (simp add: decode_field_def f_def)
  have "packed_value [0x12, 0x34, 0x5d] = - 12345"
    by (simp add: packed_value_def signed_by_def dec_value_def)
  then have "denotes (field_kind f) [0x12, 0x34, 0x5d] = - 12345"
    by (simp add: denotes_def f_def)
  with numeric_cells_exact [OF wf _ _ d] d show ?thesis
    by (auto simp: f_def is_numeric_def)
qed

text \<open>The cells of a record are its columns: decoding a body succeeds exactly when every field
that is not filler lies inside the body and decodes, and then gives one cell per such field, in order,
with the field's name, its wire type and its decoded value.\<close>

theorem cells_are_the_columns:
  "decode_cells r body opt = Inr cells \<longleftrightarrow>
     list_all2 (cell_of body opt) (columns (record_fields r)) cells"
  by (simp add: decode_cells_def decode_fields_Inr)

text \<open>A body as long as its record fails only for a field's own bytes: the error is the decoder's,
for the first field that does not decode, named with its record; never a range error.\<close>

theorem whole_body_errors:
  assumes "wf_record r" and "record_size r \<le> length body" and "decode_cells r body opt = Inl e"
  shows "\<exists>gs f hs e'. columns (record_fields r) = gs @ f # hs \<and>
    (\<forall>g \<in> set gs. \<exists>c. cell_of body opt g c) \<and>
    decode_field f (slice (field_offset f) (field_size f) body) opt = Inl e' \<and>
    e = in_field (field_name f) (record_name r) e'"
proof -
  obtain gs f hs where f: "columns (record_fields r) = gs @ f # hs" "decode_cell r body opt f = Inl e"
    "\<forall>g \<in> set gs. \<exists>c. cell_of body opt g c"
    using assms(3) decode_fields_Inl unfolding decode_cells_def by blast
  have "f \<in> set (columns (record_fields r))" using f(1) by simp
  then have "f \<in> set (record_fields r)" by (simp add: columns_def)
  then have "field_offset f + field_size f \<le> record_size r"
    using assms(1) fields_from_bound unfolding wf_record_def by blast
  with assms(2) f show ?thesis by (auto simp: decode_cell_fits_Inl)
qed

definition bad_record :: record_layout where
  "bad_record =
     \<lparr>record_name = lit ''r'',
      record_fields = [\<lparr>field_name = lit ''Z'', field_offset = 0, field_size = 1,
        field_kind = KZonedDecimal, field_scale = 0, field_picture = [],
        field_declaration = empty_declaration\<lparr>decl_path := lit ''Z''\<rparr>\<rparr>],
      record_size = 1, record_selector = None\<rparr>"

theorem whole_body_errors_witness:
  "\<exists>e gs f hs e'. decode_cells bad_record [0xfa] plain_options = Inl e \<and>
     columns (record_fields bad_record) = gs @ f # hs \<and>
     e = in_field (field_name f) (record_name bad_record) e'"
proof -
  have wf: "wf_record bad_record"
    by (simp add: bad_record_def wf_record_def wf_field_def MAX_RECORD_BYTES_def
        MAX_ZONED_BYTES_def scale_ok_def lit_def columns_def)
  have "decode_zoned [0xfa] = Inl (zoned_error [0xfa] (0, 10))"
    by (simp add: decode_zoned_eq zoned_digits_def)
  then obtain e where e: "decode_cells bad_record [0xfa] plain_options = Inl e"
    by (auto simp: bad_record_def decode_cells_def decode_cell_def slice_get_def decode_field_def
        ok_or_def Let_def)
  have "record_size bad_record \<le> length [0xfa :: u8]" by (simp add: bad_record_def)
  from whole_body_errors [OF wf this e] e show ?thesis by blast
qed

text \<open>A declared record length is accepted exactly when it is the prefix plus a body of at most
sixteen mebibytes: a negative, short or huge number, whatever its \<^verbatim>\<open>i128\<close> subtraction wraps to, is
refused.\<close>

theorem declared_length_accepted:
  assumes "wf_layout (rs_layout s)"
  shows "check_body_size s (Some len) r = Inr n \<longleftrightarrow>
    sint len = int (layout_prefix_size (rs_layout s)) + int n \<and> n \<le> MAX_RECORD_BYTES"
  using assms by (rule check_body_size_declared)

definition counted_layout :: layout where
  "counted_layout =
     \<lparr>layout_records = [bad_record], layout_description = [], layout_header_size = 0,
      layout_footer_size = 0,
      layout_length_field = Some \<lparr>field_name = lit ''L'', field_offset = 0, field_size = 2,
        field_kind = KUnsignedInteger, field_scale = 0, field_picture = [],
        field_declaration = empty_declaration\<lparr>decl_path := lit ''L''\<rparr>\<rparr>,
      layout_type_field = None, layout_prefix_size = 2, layout_source_of = SourceProto\<rparr>"

lemma wf_counted: "wf_layout counted_layout"
  by (simp add: wf_layout_def counted_layout_def bad_record_def wf_record_def wf_field_def
      scale_ok_def lit_def MAX_RECORD_BYTES_def MAX_FOOTER_BYTES_def MAX_LAYOUT_FIELDS_def
      MAX_BINARY_BYTES_def MAX_ZONED_BYTES_def width_of_def columns_def wf_prefix_def)

theorem declared_length_accepted_witness:
  "check_body_size (new_stream counted_layout plain_options) (Some 3) bad_record = Inr 1 \<and>
   check_body_size (new_stream counted_layout plain_options) (Some (word_of_int i128_min)) bad_record \<noteq> Inr 0"
proof -
  have l: "rs_layout (new_stream counted_layout plain_options) = counted_layout"
    and p: "layout_prefix_size counted_layout = 2"
    by (simp_all add: new_stream_def counted_layout_def)
  have wf: "wf_layout (rs_layout (new_stream counted_layout plain_options))" unfolding l by (rule wf_counted)
  have "sint (word_of_int i128_min :: i128) = i128_min" by (rule sint_of_int_i128) simp_all
  then show ?thesis
    unfolding declared_length_accepted [OF wf] l p
    by (simp add: MAX_RECORD_BYTES_def)
qed

end
