(* ===== verification/Number_Formats.thy ===== *)
theory Number_Formats
  imports Decode
begin

section \<open>Formats of numbers\<close>

text \<open>
  What a format of numbers owes its user: bytes of the width asked for, and reading them back gives
  the number, when the width can hold it. Packed, zoned and two's complement and unsigned binary
  numbers are such formats, each with the decoder of \<^verbatim>\<open>src/decode.rs\<close> for it.
\<close>

locale number_format =
  fixes enc :: "nat \<Rightarrow> int \<Rightarrow> u8 list"
    and dec :: "u8 list \<Rightarrow> parse_error + i128"
    and limit :: nat
    and holds :: "nat \<Rightarrow> int \<Rightarrow> bool"
  assumes enc_width: "0 < w \<Longrightarrow> length (enc w n) = w"
    and dec_enc: "0 < w \<Longrightarrow> w \<le> limit \<Longrightarrow> holds w n \<Longrightarrow> \<exists>u. dec (enc w n) = Inr u \<and> sint u = n"
begin

lemma read_back:
  assumes "0 < w" and "w \<le> limit" and "holds w n"
  obtains u where "dec (enc w n) = Inr u" and "sint u = n"
  using dec_enc [OF assms] by blast

text \<open>Two numbers that a width holds never share their bytes.\<close>

lemma enc_inj:
  assumes "0 < w" and "w \<le> limit" and "holds w m" and "holds w n" and "enc w m = enc w n"
  shows "m = n"
proof -
  obtain u where "dec (enc w m) = Inr u" "sint u = m" using assms(1-3) by (rule read_back)
  moreover obtain v where "dec (enc w n) = Inr v" "sint v = n" using assms(1,2,4) by (rule read_back)
  ultimately show ?thesis unfolding assms(5) by simp
qed

text \<open>Bytes that decode to a number the width holds are read again after writing it.\<close>

lemma rewrite_number:
  assumes "0 < w" and "w \<le> limit" and "dec bs = Inr u" and "holds w (sint u)"
  shows "dec (enc w (sint u)) = Inr u"
  using dec_enc [OF assms(1,2,4)] by (auto dest: signed_word_eqI)

end

subsection \<open>Packed numbers\<close>

definition packed_holds :: "nat \<Rightarrow> int \<Rightarrow> bool" where
  "packed_holds w n \<longleftrightarrow> \<bar>n\<bar> < 10 ^ (2 * w - 1)"

definition zoned_holds :: "nat \<Rightarrow> int \<Rightarrow> bool" where
  "zoned_holds w n \<longleftrightarrow> \<bar>n\<bar> < 10 ^ w"

text \<open>Digits within the limits of both decimal formats fit an \<^verbatim>\<open>i128\<close>.\<close>

lemma sint_small:
  assumes "\<bar>n\<bar> < 10 ^ k" and "k \<le> 37"
  shows "sint (word_of_int n :: i128) = n"
proof (rule sint_of_int_i128)
  have "(10 :: int) ^ k \<le> 10 ^ 37" using assms(2) by (intro power_increasing) auto
  with assms(1) have "\<bar>n\<bar> < 10 ^ 37" by simp
  then show "i128_min \<le> n" "n \<le> i128_max" by auto
qed

interpretation packed: number_format encode_packed decode_packed MAX_PACKED_BYTES packed_holds
proof
  show "length (encode_packed w n) = w" if "0 < w" for w n
    using that by (simp add: encode_packed_def length_pack)
  show "\<exists>u. decode_packed (encode_packed w n) = Inr u \<and> sint u = n"
    if "0 < w" "w \<le> MAX_PACKED_BYTES" "packed_holds w n" for w n
    using decode_encode_packed [of w n] sint_small [of n "2 * w - 1"] that
    by (simp add: packed_holds_def MAX_PACKED_BYTES_def)
qed

subsection \<open>Zoned numbers\<close>

lemma last_pad_digits: "0 < w \<Longrightarrow> pad_digits w n = butlast (pad_digits w n) @ [last (pad_digits w n)]"
  by (metis append_butlast_last_id length_pad_digits less_numeral_extra(3) list.size(3))

lemma zone_byte: "d \<le> 9 \<Longrightarrow> z \<le> 0xf0 \<Longrightarrow> unat (word_of_nat (z + d) :: u8) = z + d"
  by (simp only: unsigned_of_nat) (simp add: take_bit_nat_eq_self_iff)

lemma zoned_digits_zoned: "\<forall>d \<in> set ds. d \<le> 9 \<Longrightarrow> 16 dvd z \<Longrightarrow> z \<le> 0xf0 \<Longrightarrow>
    zoned_digits (map (\<lambda>d. word_of_nat (z + d)) ds) = ds"
proof (induction ds)
  case (Cons d ds)
  have "(z + d) mod 16 = d mod 16" using Cons.prems(2) by (auto simp: dvd_def)
  with Cons zone_byte [of d z] show ?case by (simp add: zoned_digits_def)
qed (simp add: zoned_digits_def)

lemma encode_zoned_eq:
  "encode_zoned w n =
     map (\<lambda>d. word_of_nat (0xf0 + d)) (butlast (pad_digits w (nat \<bar>n\<bar>))) @
     map (\<lambda>d. word_of_nat ((if n < 0 then 0xd0 else 0xc0) + d)) [last (pad_digits w (nat \<bar>n\<bar>))]"
  by (simp add: encode_zoned_def Let_def)

lemma zoned_digits_encode:
  assumes "0 < w"
  shows "zoned_digits (encode_zoned w n) = pad_digits w (nat \<bar>n\<bar>)"
    and "unat (last (encode_zoned w n)) div 16 = (if n < 0 then 13 else 12)"
proof -
  let ?ds = "pad_digits w (nat \<bar>n\<bar>)"
  have ds: "?ds = butlast ?ds @ [last ?ds]" using assms by (rule last_pad_digits)
  have digit: "\<forall>d \<in> set ?ds. d \<le> 9" by (auto dest: pad_digits_digit)
  then have low: "\<forall>d \<in> set (butlast ?ds). d \<le> 9" "last ?ds \<le> 9"
    using ds by (auto dest: in_set_butlastD) (metis in_set_conv_decomp)
  have "zoned_digits (map (\<lambda>d. word_of_nat (0xf0 + d)) (butlast ?ds)) = butlast ?ds"
    by (rule zoned_digits_zoned [OF low(1)]) auto
  moreover have "zoned_digits (map (\<lambda>d. word_of_nat ((if n < 0 then 0xd0 else 0xc0) + d)) [last ?ds]) = [last ?ds]"
    by (rule zoned_digits_zoned) (use low(2) in auto)
  ultimately have "zoned_digits (encode_zoned w n) = butlast ?ds @ [last ?ds]"
    unfolding encode_zoned_eq by (simp only: zoned_digits_def map_append)
  with ds show "zoned_digits (encode_zoned w n) = ?ds" by simp
  show "unat (last (encode_zoned w n)) div 16 = (if n < 0 then 13 else 12)"
    unfolding encode_zoned_eq list.map last_snoc
    by (subst zone_byte [OF low(2)]) (use low(2) in auto)
qed

lemma length_encode_zoned: "0 < w \<Longrightarrow> length (encode_zoned w n) = w"
  by (simp add: encode_zoned_def Let_def)

lemma decode_encode_zoned:
  assumes "0 < w" and "zoned_holds w n"
  shows "decode_zoned (encode_zoned w n) = Inr (word_of_int n)"
proof -
  let ?ds = "pad_digits w (nat \<bar>n\<bar>)"
  have "nat \<bar>n\<bar> < 10 ^ w" using assms(2) by (simp add: zoned_holds_def nat_less_iff)
  then have val: "dec_value ?ds = nat \<bar>n\<bar>" by (rule dec_value_pad_digits)
  have abs: "word_of_int n = (if n < 0 then - word_of_nat (nat \<bar>n\<bar>) else word_of_nat (nat \<bar>n\<bar>) :: i128)"
    by (simp add: of_nat_nat)
  have "first_bad 0 ?ds = None" by (auto simp: first_bad_None dest: pad_digits_digit)
  moreover have "encode_zoned w n \<noteq> []" using length_encode_zoned [OF assms(1), of n] assms(1) by auto
  ultimately have "decode_zoned (encode_zoned w n) =
      Inr (if n < 0 then - word_of_nat (nat \<bar>n\<bar>) else word_of_nat (nat \<bar>n\<bar>))"
    using val [symmetric] by (auto simp: decode_zoned_eq zoned_digits_encode [OF assms(1)])
  then show ?thesis by (simp only: abs)
qed

interpretation zoned: number_format encode_zoned decode_zoned MAX_ZONED_BYTES zoned_holds
proof
  show "length (encode_zoned w n) = w" if "0 < w" for w n using that by (rule length_encode_zoned)
  show "\<exists>u. decode_zoned (encode_zoned w n) = Inr u \<and> sint u = n"
    if "0 < w" "w \<le> MAX_ZONED_BYTES" "zoned_holds w n" for w n
    using decode_encode_zoned [of w n] sint_small [of n w] that
    by (simp add: zoned_holds_def MAX_ZONED_BYTES_def)
qed

subsection \<open>Binary numbers\<close>

text \<open>The low \<open>w\<close> bytes of a number, most significant first.\<close>

fun encode_binary :: "nat \<Rightarrow> int \<Rightarrow> u8 list" where
  "encode_binary 0 n = []"
| "encode_binary (Suc w) n = encode_binary w (n div 256) @ [word_of_int n]"

lemma length_encode_binary [simp]: "length (encode_binary w n) = w"
  by (induction w arbitrary: n) simp_all

lemma be_value_encode: "int (be_value (encode_binary w n)) = n mod 256 ^ w"
proof (induction w arbitrary: n)
  case (Suc w)
  have "int (unat (word_of_int n :: u8)) = n mod 256"
    by (simp add: unsigned_of_int take_bit_eq_mod)
  with Suc [of "n div 256"] have "int (be_value (encode_binary (Suc w) n)) =
      256 * (n div 256 mod 256 ^ w) + n mod 256" by simp
  also have "\<dots> = n mod (256 * 256 ^ w)" by (simp only: zmod_zmult2_eq zero_le_power)
  finally show ?case by simp
qed simp

lemma half_of_bytes: "0 < w \<Longrightarrow> (256 :: int) ^ w = 2 * (128 * 256 ^ (w - 1))"
  by (cases w) simp_all

lemma twos_value_encode:
  assumes "0 < w" and "- (128 * 256 ^ (w - 1)) \<le> n" and "n < 128 * 256 ^ (w - 1)"
  shows "twos_value (encode_binary w n) = n"
proof -
  define h :: nat where "h = 128 * 256 ^ (w - 1)"
  have full: "(256 :: int) ^ w = 2 * int h" using half_of_bytes [OF assms(1)] by (simp add: h_def)
  have n: "- int h \<le> n" "n < int h" using assms(2,3) by (simp_all add: h_def)
  have ne: "encode_binary w n \<noteq> []" using assms(1) by (metis length_encode_binary less_numeral_extra(3) list.size(3))
  have be: "int (be_value (encode_binary w n)) = (if n < 0 then n + 2 * int h else n)"
  proof (cases "n < 0")
    case True
    have "n mod (2 * int h) = (n + 2 * int h) mod (2 * int h)" by simp
    also have "\<dots> = n + 2 * int h" using True n by (intro mod_pos_pos_trivial) auto
    finally show ?thesis using True by (simp add: be_value_encode full)
  next
    case False
    then show ?thesis using n by (simp add: be_value_encode full)
  qed
  have "128 \<le> unat (hd (encode_binary w n)) \<longleftrightarrow> h \<le> be_value (encode_binary w n)"
    using be_value_hd [OF ne] by (simp add: h_def)
  also have "\<dots> \<longleftrightarrow> int h \<le> int (be_value (encode_binary w n))" by simp
  also have "\<dots> \<longleftrightarrow> n < 0" unfolding be using n by auto
  finally show ?thesis by (auto simp: twos_value_def be full)
qed

lemma encode_binary_nonempty: "0 < w \<Longrightarrow> encode_binary w n \<noteq> []"
  by (metis length_encode_binary less_numeral_extra(3) list.size(3))

definition signed_holds :: "nat \<Rightarrow> int \<Rightarrow> bool" where
  "signed_holds w n \<longleftrightarrow> - (128 * 256 ^ (w - 1)) \<le> n \<and> n < 128 * 256 ^ (w - 1)"

definition unsigned_holds :: "nat \<Rightarrow> int \<Rightarrow> bool" where
  "unsigned_holds w n \<longleftrightarrow> 0 \<le> n \<and> n < 256 ^ w \<and> n < 2 ^ 127"

interpretation signed_binary: number_format encode_binary "\<lambda>bs. decode_binary bs True" MAX_BINARY_BYTES signed_holds
proof
  fix w :: nat and n
  assume a: "0 < w" "w \<le> MAX_BINARY_BYTES" "signed_holds w n"
  have "twos_value (encode_binary w n) = n"
    using a by (intro twos_value_encode) (simp_all add: signed_holds_def)
  then show "\<exists>u. decode_binary (encode_binary w n) True = Inr u \<and> sint u = n"
    using decode_binary_spec [of "encode_binary w n" True] a(2) encode_binary_nonempty [OF a(1), of n]
    by (auto simp: MAX_BINARY_BYTES_def split: sum.splits parse_error.splits)
qed simp

interpretation unsigned_binary: number_format encode_binary "\<lambda>bs. decode_binary bs False" MAX_BINARY_BYTES unsigned_holds
proof
  fix w :: nat and n
  assume a: "0 < w" "w \<le> MAX_BINARY_BYTES" "unsigned_holds w n"
  have v: "int (be_value (encode_binary w n)) = n" using a by (simp add: be_value_encode unsigned_holds_def)
  with a have "int (be_value (encode_binary w n)) < int (2 ^ 127)" by (simp add: unsigned_holds_def)
  then have "be_value (encode_binary w n) < 2 ^ 127" by (simp only: of_nat_less_iff)
  then show "\<exists>u. decode_binary (encode_binary w n) False = Inr u \<and> sint u = n"
    using decode_binary_spec [of "encode_binary w n" False] v a(2) encode_binary_nonempty [OF a(1), of n]
    by (auto simp: MAX_BINARY_BYTES_def split: sum.splits parse_error.splits)
qed simp

end
