(* ===== verification/Extracts.thy ===== *)
theory Extracts
  imports Number_Formats Stream_Properties Cell_Properties
begin

section \<open>Writing an extract and reading it back\<close>

text \<open>
  A reference writer of what the server reads: values into the bytes of their fields, fields into a
  record with blanks in its gaps and fillers, records after their length and type prefix, and the data
  between a header and a footer. What it writes is then read back by a parse, however it is cut.
\<close>

subsection \<open>Fields\<close>

datatype plain =
    PlainText rstr
  | PlainNumber int

text \<open>The bytes of a value in a field, when the field can hold it.\<close>

definition write_field :: "codec \<Rightarrow> field \<Rightarrow> plain \<Rightarrow> u8 list option" where
  "write_field c f v =
     (let w = field_size f in
      case (field_kind f, v) of
        (KText, PlainText t) \<Rightarrow>
          (case encode c t of
             Inl _ \<Rightarrow> None
           | Inr bs \<Rightarrow>
               if length bs \<le> w \<and> trim t = t \<and> list_all (\<lambda>ch. \<not> is_control ch) t
               then Some (bs @ replicate (w - length bs) 0x40) else None)
      | (KPackedDecimal, PlainNumber n) \<Rightarrow> if packed_holds w n then Some (encode_packed w n) else None
      | (KZonedDecimal, PlainNumber n) \<Rightarrow> if zoned_holds w n then Some (encode_zoned w n) else None
      | (KInteger, PlainNumber n) \<Rightarrow> if signed_holds w n then Some (encode_binary w n) else None
      | (KUnsignedInteger, PlainNumber n) \<Rightarrow> if unsigned_holds w n then Some (encode_binary w n) else None
      | _ \<Rightarrow> None)"

text \<open>A decoded value that is the one written, in the field's scale.\<close>

fun reads_as :: "field \<Rightarrow> plain \<Rightarrow> field_value \<Rightarrow> bool" where
  "reads_as f (PlainText t) v \<longleftrightarrow> v = Text t"
| "reads_as f (PlainNumber n) v \<longleftrightarrow> (\<exists>u. v = Number u (field_scale f) \<and> sint u = n)"

text \<open>A field whose decoder reads a format of numbers reads back what the format wrote.\<close>

context number_format
begin

lemma field_reads:
  assumes "\<And>bs. decode_field f bs opt = rbind (dec bs) (\<lambda>u. Inr (Number u (field_scale f)))"
    and "0 < field_size f" and "field_size f \<le> limit" and "holds (field_size f) n"
  shows "length (enc (field_size f) n) = field_size f \<and>
    (\<exists>x. decode_field f (enc (field_size f) n) opt = Inr x \<and> reads_as f (PlainNumber n) x)"
  using dec_enc [OF assms(2-4)] enc_width [OF assms(2)] by (auto simp: assms(1))

end

lemma write_text_reads:
  assumes "field_kind f = KText" and "c \<in> set CODE_PAGES" "opt_codec opt = c" and "write_field c f v = Some bs"
  shows "length bs = field_size f \<and> (\<exists>x. decode_field f bs opt = Inr x \<and> reads_as f v x)"
proof -
  from assms obtain t enc where t: "v = PlainText t" "encode c t = Inr enc" "length enc \<le> field_size f"
    "trim t = t" "\<forall>ch \<in> set t. \<not> is_control ch" "bs = enc @ replicate (field_size f - length enc) 0x40"
    by (auto simp: write_field_def Let_def list_all_iff split: plain.splits sum.splits if_splits)
  have "decode_text c bs (opt_strip_control opt) = Inr t"
    unfolding t(6) by (rule text_field_roundtrip [OF assms(2) t(2,4,5)])
  with t assms show ?thesis by (simp add: decode_field_def)
qed

lemma write_field_reads:
  assumes wf: "0 < field_size f" "field_size f \<le> width_limit (field_kind f)"
    and c: "c \<in> set CODE_PAGES" "opt_codec opt = c" and w: "write_field c f v = Some bs"
  shows "length bs = field_size f \<and> (\<exists>x. decode_field f bs opt = Inr x \<and> reads_as f v x)"
proof (cases "field_kind f")
  case KText
  then show ?thesis using c w by (rule write_text_reads)
next
  case KPackedDecimal
  with w wf packed.field_reads [of f opt] show ?thesis
    by (auto simp: write_field_def Let_def decode_field_def split: plain.splits if_splits)
next
  case KZonedDecimal
  with w wf zoned.field_reads [of f opt] show ?thesis
    by (auto simp: write_field_def Let_def decode_field_def split: plain.splits if_splits)
next
  case KInteger
  with w wf signed_binary.field_reads [of f opt] show ?thesis
    by (auto simp: write_field_def Let_def decode_field_def split: plain.splits if_splits)
next
  case KUnsignedInteger
  with w wf unsigned_binary.field_reads [of f opt] show ?thesis
    by (auto simp: write_field_def Let_def decode_field_def split: plain.splits if_splits)
qed (use w in \<open>simp add: write_field_def Let_def\<close>)

subsection \<open>Records\<close>

text \<open>The body of a record from byte \<open>at\<close> on: gaps and fillers are blanks.\<close>

fun write_fields :: "codec \<Rightarrow> nat \<Rightarrow> field list \<Rightarrow> plain list \<Rightarrow> u8 list option" where
  "write_fields c at [] [] = Some []"
| "write_fields c at [] (_ # _) = None"
| "write_fields c at (f # fs) vs =
     (let gap = replicate (field_offset f - at) 0x40; next_at = field_offset f + field_size f in
      if field_kind f = KSkip then
        map_option (\<lambda>rest. gap @ replicate (field_size f) 0x40 @ rest) (write_fields c next_at fs vs)
      else case vs of
        [] \<Rightarrow> None
      | v # vs \<Rightarrow>
          Option.bind (write_field c f v) (\<lambda>bs.
            map_option (\<lambda>rest. gap @ bs @ rest) (write_fields c next_at fs vs)))"

text \<open>A cell that shows a value: text as it is, a number exactly, in the
field's scale and in the range of 128 bits.\<close>

definition shows_plain :: "field \<Rightarrow> plain \<Rightarrow> cell \<Rightarrow> bool" where
  "shows_plain f v cell \<longleftrightarrow>
     cell_name cell = field_name f \<and>
     cell_type cell = field_type_number (kind_to_proto (field_kind f)) \<and>
     (case v of
        PlainText t \<Rightarrow> cell_val cell = Some (TextValue t)
      | PlainNumber n \<Rightarrow> \<exists>x. cell_val cell = Some x \<and>
          number_of_cell x = Some (n, field_scale f) \<and> i128_min \<le> n \<and> n \<le> i128_max)"

definition shows_record :: "record_layout \<Rightarrow> plain list \<Rightarrow> cell list \<Rightarrow> bool" where
  "shows_record r vs cells \<longleftrightarrow>
     length vs = length (columns (record_fields r)) \<and>
     list_all2 (\<lambda>(f, v) cell. shows_plain f v cell) (zip (columns (record_fields r)) vs) cells"

lemma number_of_to_cell [simp]:
  "number_of_cell (to_cell_value (Number u sc) sc) = Some (sint u, sc)"
  by (auto simp: render_decimal_parse to_i64_def split: option.split)

lemma reads_as_shows:
  assumes "cell_of body opt f cell" and "decode_field f (slice (field_offset f) (field_size f) body) opt = Inr x"
    and "reads_as f v x"
  shows "shows_plain f v cell"
  using assms sint_i128_bounds
  by (cases v) (auto simp: cell_of_def shows_plain_def simp del: to_cell_value.simps(2))

lemma slice_append_left:
  assumes "length pre = n"
  shows "slice n (length bs) (pre @ bs @ post) = bs"
  using assms by (simp add: slice_def)

text \<open>A value written at its field's place shows in the field's cell.\<close>

lemma value_shows:
  assumes "wf_field f" and c: "c \<in> set CODE_PAGES" "opt_codec opt = c"
    and w: "write_field c f v = Some enc" and "length pre = field_offset f"
  shows "length enc = field_size f \<and>
    (\<exists>cell. cell_of (pre @ enc @ post) opt f cell \<and> shows_plain f v cell)"
proof -
  have "0 < field_size f" "field_size f \<le> width_limit (field_kind f)"
    using assms(1) by (simp_all add: wf_field_def)
  from write_field_reads [OF this c w] obtain x where
    x: "length enc = field_size f" "decode_field f enc opt = Inr x" "reads_as f v x" by blast
  have sl: "slice (field_offset f) (field_size f) (pre @ enc @ post) = enc"
    using slice_append_left [OF assms(5)] x(1) by metis
  let ?cell = "\<lparr>cell_name = field_name f, cell_type = field_type_number (kind_to_proto (field_kind f)),
      cell_val = Some (to_cell_value x (field_scale f))\<rparr>"
  have "cell_of (pre @ enc @ post) opt f ?cell"
    using x assms(5) sl by (simp add: cell_of_def)
  with reads_as_shows [OF this] x sl show ?thesis by auto
qed

lemma write_fields_reads:
  "c \<in> set CODE_PAGES \<Longrightarrow> opt_codec opt = c \<Longrightarrow> fields_from at fs e \<Longrightarrow> \<forall>f \<in> set fs. wf_field f \<Longrightarrow> write_fields c at fs vs = Some bs \<Longrightarrow>
    length pre = at \<Longrightarrow>
    length bs = e - at \<and> at \<le> e \<and>
    (\<exists>cells. length vs = length (columns fs) \<and> list_all2 (cell_of (pre @ bs @ post) opt) (columns fs) cells \<and>
       list_all2 (\<lambda>(f, v) cell. shows_plain f v cell) (zip (columns fs) vs) cells)"
proof (induction c at fs vs arbitrary: bs pre rule: write_fields.induct)
  case (3 c at f fs vs)
  let ?gap = "replicate (field_offset f - at) (0x40 :: u8)" and ?next = "field_offset f + field_size f"
  from 3(5) have ff: "at \<le> field_offset f" "fields_from ?next fs e" by simp_all
  from 3(6) have wf: "wf_field f" "\<forall>f \<in> set fs. wf_field f" by simp_all
  show ?case
  proof (cases "field_kind f = KSkip")
    case True
    with 3(7) obtain rest where rest: "write_fields c ?next fs vs = Some rest"
      "bs = ?gap @ replicate (field_size f) 0x40 @ rest" by (auto simp: Let_def)
    have "length (pre @ ?gap @ replicate (field_size f) (0x40 :: u8)) = ?next" using 3(8) ff(1) by simp
    from 3(1) [OF refl refl True 3(3,4) ff(2) wf(2) rest(1) this] ff(1) True show ?thesis
      by (simp add: columns_def rest(2))
  next
    case False
    with 3(7) obtain v vs' enc rest where v: "vs = v # vs'" "write_field c f v = Some enc"
      "write_fields c ?next fs vs' = Some rest" "bs = ?gap @ enc @ rest"
      by (auto simp: Let_def bind_eq_Some_conv split: list.splits)
    let ?body = "pre @ bs @ post"
    have gap: "length (pre @ ?gap) = field_offset f" using 3(8) ff(1) by simp
    from value_shows [OF wf(1) 3(3,4) v(2) gap, of "rest @ post"] obtain cell where
      cell: "length enc = field_size f" "cell_of ?body opt f cell" "shows_plain f v cell" by (auto simp: v(4))
    have "length (pre @ ?gap @ enc) = ?next" using gap cell(1) by simp
    from 3(2) [OF refl refl False v(1,2) 3(3,4) ff(2) wf(2) v(3) this] obtain cells where
      "length rest = e - ?next" "?next \<le> e" "length vs' = length (columns fs)"
      "list_all2 (cell_of ?body opt) (columns fs) cells"
      "list_all2 (\<lambda>(f, v) cell. shows_plain f v cell) (zip (columns fs) vs') cells"
      by (auto simp: v(4))
    with cell False ff(1) show ?thesis
      by (intro conjI exI [of _ "cell # cells"]) (simp_all add: v(1,4) columns_def)
  qed
qed (auto simp: columns_def)

subsection \<open>Records with their prefix\<close>

text \<open>The declared length counts the prefix and the body; the type is the schema's selector.\<close>

definition write_length :: "codec \<Rightarrow> layout \<Rightarrow> nat \<Rightarrow> u8 list option" where
  "write_length c l n =
     (case layout_length_field l of
        None \<Rightarrow> Some []
      | Some f \<Rightarrow>
          write_field c f (if field_kind f = KText then PlainText (render_int (int n)) else PlainNumber (int n)))"

fun plain_display :: "field \<Rightarrow> plain \<Rightarrow> rstr" where
  "plain_display f (PlainText t) = t"
| "plain_display f (PlainNumber n) = render_decimal (word_of_int n) (field_scale f)"

definition type_value :: "field \<Rightarrow> rstr \<Rightarrow> plain" where
  "type_value f sel =
     (if field_kind f = KText then PlainText sel
      else PlainNumber (case parse_i128 (filter (\<lambda>c. c \<noteq> 46) sel) of Some n \<Rightarrow> n | None \<Rightarrow> 0))"

definition write_type :: "codec \<Rightarrow> layout \<Rightarrow> record_layout \<Rightarrow> u8 list option" where
  "write_type c l r =
     (case layout_type_field l of
        None \<Rightarrow> Some []
      | Some f \<Rightarrow>
          Option.bind (record_selector r) (\<lambda>sel.
            if plain_display f (type_value f sel) = sel then write_field c f (type_value f sel) else None))"

definition write_record :: "codec \<Rightarrow> layout \<Rightarrow> record_layout \<times> plain list \<Rightarrow> u8 list option" where
  "write_record c l = (\<lambda>(r, vs).
     Option.bind (write_length c l (layout_prefix_size l + record_size r)) (\<lambda>len.
     Option.bind (write_type c l r) (\<lambda>ty.
     map_option (\<lambda>body. len @ ty @ body) (write_fields c 0 (record_fields r) vs))))"

lemma wf_prefix_pos: "wf_prefix b f \<Longrightarrow> 0 < field_size f \<and> field_size f \<le> width_limit (field_kind f)"
  by (simp add: wf_prefix_def)

lemma reads_as_display: "reads_as f v x \<Longrightarrow> to_display_string x = plain_display f v"
  by (cases v) auto

lemma read_length_written:
  assumes wf: "wf_layout l" and c: "c \<in> set CODE_PAGES" "opt_codec opt = c" and n: "int n \<le> i128_max"
    and w: "write_length c l n = Some len"
  shows "length len = width_of (layout_length_field l) \<and>
    (case layout_length_field l of
       None \<Rightarrow> read_length (stream_at l opt base (len @ rest)) = Inr None
     | Some _ \<Rightarrow> \<exists>u. read_length (stream_at l opt base (len @ rest)) = Inr (Some u) \<and> sint u = int n)"
proof (cases "layout_length_field l")
  case None
  with w show ?thesis by (simp add: write_length_def width_of_def read_length_def)
next
  case (Some f)
  let ?v = "if field_kind f = KText then PlainText (render_int (int n)) else PlainNumber (int n)"
  have pos: "0 < field_size f" "field_size f \<le> width_limit (field_kind f)"
    using wf Some wf_prefix_pos by (auto simp: wf_layout_def)
  have enc: "write_field c f ?v = Some len" using w Some by (simp add: write_length_def)
  from write_field_reads [OF pos c enc] obtain x where
    x: "length len = field_size f" "decode_field f len opt = Inr x" "reads_as f ?v x" by blast
  have "slice 0 (field_size f) (len @ rest) = len" using x(1) by (simp add: slice_def)
  then have r: "read_length (stream_at l opt base (len @ rest)) =
      rtraverse (\<lambda>_. length_of_value (stream_at l opt base (len @ rest)) f x) (Some f)"
    using Some x(2) by (simp add: read_length_def)
  have "\<exists>u. length_of_value (stream_at l opt base (len @ rest)) f x = Inr u \<and> sint u = int n"
  proof (cases "field_kind f = KText")
    case True
    then have "x = Text (render_int (int n))" using x(3) by simp
    moreover have "trim (render_int (int n)) = render_int (int n)"
      using enc True by (auto simp: write_field_def Let_def split: sum.splits if_splits)
    moreover have "parse_i128 (render_int (int n)) = Some (int n)"
      using n by (intro parse_i128_render) auto
    moreover have "sint (word_of_int (int n) :: i128) = int n" using n by (intro sint_of_int_i128) auto
    ultimately show ?thesis by (simp add: length_of_value_def del: of_int_of_nat_eq)
  next
    case False
    with x(3) show ?thesis by (auto simp: length_of_value_def)
  qed
  with r Some x(1) show ?thesis by (auto simp: width_of_def rtraverse_def)
qed

lemma read_type_written:
  assumes wf: "wf_layout l" and c: "c \<in> set CODE_PAGES" "opt_codec opt = c"
    and w: "write_type c l r = Some ty" and len: "length len = width_of (layout_length_field l)"
  shows "length ty = width_of (layout_type_field l) \<and>
    read_type (stream_at l opt base (len @ ty @ rest)) =
      Inr (if layout_type_field l = None then None else record_selector r)"
proof (cases "layout_type_field l")
  case None
  with w show ?thesis by (simp add: write_type_def width_of_def read_type_def)
next
  case (Some f)
  have pos: "0 < field_size f" "field_size f \<le> width_limit (field_kind f)"
    using wf Some wf_prefix_pos by (auto simp: wf_layout_def)
  from w Some obtain sel where sel: "record_selector r = Some sel"
    "plain_display f (type_value f sel) = sel" "write_field c f (type_value f sel) = Some ty"
    by (auto simp: write_type_def bind_eq_Some_conv split: if_splits)
  from write_field_reads [OF pos c sel(3)] obtain x where
    x: "length ty = field_size f" "decode_field f ty opt = Inr x" "reads_as f (type_value f sel) x" by blast
  have "slice (width_of (layout_length_field l)) (field_size f) (len @ ty @ rest) = ty"
    using len x(1) by (simp add: slice_def)
  then show ?thesis
    using Some x sel reads_as_display [OF x(3)] by (simp add: read_type_def width_of_def rtraverse_def)
qed

lemma select_own:
  assumes "wf_layout l" and "r \<in> set (layout_records l)"
  shows "select l (if layout_type_field l = None then None else record_selector r) = Some r"
proof (cases "layout_type_field l")
  case None
  with assms have "\<not> 1 < length (layout_records l)" by (auto simp: wf_layout_def)
  with assms(2) None show ?thesis
    by (cases "layout_records l") (auto simp: select_def length_Suc_conv)
next
  case (Some f)
  with assms have "distinct (map record_selector (layout_records l))"
    by (simp add: wf_layout_def wf_selectors_def)
  with Some assms(2) show ?thesis by (simp add: select_def distinct_selector_find)
qed

text \<open>A body that a record's fields were written to decodes to cells that show the values.\<close>

lemma write_body_reads:
  assumes "wf_record r" and "c \<in> set CODE_PAGES" "opt_codec opt = c"
    and "write_fields c 0 (record_fields r) vs = Some body"
  shows "length body = record_size r \<and> (\<exists>cells. decode_cells r body opt = Inr cells \<and> shows_record r vs cells)"
proof -
  have "fields_from 0 (record_fields r) (record_size r)" "\<forall>f \<in> set (record_fields r). wf_field f"
    using assms(1) by (simp_all add: wf_record_def)
  from write_fields_reads [OF assms(2,3) this assms(4), of "[]" "[]"] obtain cells where
    "length body = record_size r" "length vs = length (columns (record_fields r))"
    "list_all2 (cell_of body opt) (columns (record_fields r)) cells"
    "list_all2 (\<lambda>(f, v) cell. shows_plain f v cell) (zip (columns (record_fields r)) vs) cells" by auto
  then show ?thesis by (auto simp: decode_cells_def decode_fields_Inr shows_record_def)
qed

text \<open>The prefix that was written selects the record and gives its length.\<close>

lemma read_prefix_written:
  assumes wf: "wf_layout l" and c: "c \<in> set CODE_PAGES" "opt_codec opt = c" and r: "r \<in> set (layout_records l)"
    and len: "write_length c l (layout_prefix_size l + record_size r) = Some len"
    and ty: "write_type c l r = Some ty"
  shows "length (len @ ty) = layout_prefix_size l \<and>
    read_prefix (stream_at l opt base (len @ ty @ rest)) = Inr (r, record_size r)"
proof -
  let ?s = "stream_at l opt base (len @ ty @ rest)"
  have size: "record_size r \<le> MAX_RECORD_BYTES" using wf r by (simp add: wf_layout_def wf_record_def)
  then have "int (layout_prefix_size l + record_size r) \<le> i128_max"
    using prefix_size_bound [OF wf] by (simp add: MAX_RECORD_BYTES_def)
  note L = read_length_written [OF wf c this len, where base = base and rest = "ty @ rest"]
  note T = read_type_written [OF wf c ty conjunct1 [OF L], where base = base and rest = rest]
  have "\<exists>d. read_length ?s = Inr d \<and> check_body_size ?s d r = Inr (record_size r)"
  proof (cases "layout_length_field l")
    case None
    with L size show ?thesis by (simp add: check_body_size_def guard_def MAX_RECORD_BYTES_def)
  next
    case (Some f)
    with L check_body_size_declared [of ?s _ r "record_size r"] wf size show ?thesis by auto
  qed
  moreover have "layout_prefix_size l = width_of (layout_length_field l) + width_of (layout_type_field l)"
    using wf by (simp add: wf_layout_def)
  ultimately show ?thesis
    using L T select_own [OF wf r] by (auto simp: read_prefix_def)
qed

lemma read_one_written:
  assumes wf: "wf_layout l" and c: "c \<in> set CODE_PAGES" "opt_codec opt = c"
    and r: "r \<in> set (layout_records l)" and w: "write_record c l (r, vs) = Some bs"
  shows "\<exists>cells. read_one l opt base (bs @ rest) = Found r cells (length bs) \<and> shows_record r vs cells"
proof -
  let ?p = "layout_prefix_size l"
  from w obtain len ty body where parts: "write_length c l (?p + record_size r) = Some len"
    "write_type c l r = Some ty" "write_fields c 0 (record_fields r) vs = Some body" "bs = len @ ty @ body"
    by (auto simp: write_record_def bind_eq_Some_conv)
  have wfr: "wf_record r" using wf r by (simp add: wf_layout_def)
  obtain cells where B: "length body = record_size r" "decode_cells r body opt = Inr cells"
    "shows_record r vs cells" using write_body_reads [OF wfr c parts(3)] by blast
  from read_prefix_written [OF wf c r parts(1,2), where base = base and rest = "body @ rest"]
  have P: "length (len @ ty) = ?p" "read_prefix (stream_at l opt base (bs @ rest)) = Inr (r, record_size r)"
    by (simp_all add: parts(4))
  have "length bs = ?p + record_size r" "slice ?p (record_size r) (bs @ rest) = body"
    using P(1) B(1) by (simp_all add: parts(4) slice_def)
  moreover from this have "bs \<noteq> []" using wf_prefix_record_size [OF wf r] by auto
  ultimately have "read_one l opt base (bs @ rest) = Found r cells (length bs)"
    using P(2) B(2) by (simp add: read_one_def Let_def)
  with B(3) show ?thesis by blast
qed

subsection \<open>Extracts\<close>

fun write_records :: "codec \<Rightarrow> layout \<Rightarrow> (record_layout \<times> plain list) list \<Rightarrow> u8 list option" where
  "write_records c l [] = Some []"
| "write_records c l (rv # recs) =
     Option.bind (write_record c l rv) (\<lambda>bs. map_option (\<lambda>rest. bs @ rest) (write_records c l recs))"

definition row_shows :: "record_layout \<times> plain list \<Rightarrow> record_row \<Rightarrow> bool" where
  "row_shows = (\<lambda>(r, vs) row. row_record_type row = record_name r \<and> shows_record r vs (row_cells row))"

lemma batch_written:
  assumes wf: "wf_layout l" and c: "c \<in> set CODE_PAGES" "opt_codec opt = c"
    and m: "opt_max_records opt = 0"
  shows "write_records c l recs = Some data \<Longrightarrow> \<forall>(r, vs) \<in> set recs. r \<in> set (layout_records l) \<Longrightarrow>
    \<not> pr_stopped p \<Longrightarrow>
    \<exists>rows q. batch l opt p data = (rows, None, q) \<and> list_all2 row_shows recs rows \<and>
      \<not> pr_stopped q \<and> pr_base q = pr_base p + length data \<and> pr_kept q = pr_kept p + length recs"
proof (induction recs arbitrary: data p)
  case Nil
  have "read_one l opt (pr_base p) [] = NeedMore" by (simp add: read_one_def Let_def)
  with Nil show ?case by (auto simp: batch_more)
next
  case (Cons rv recs)
  obtain r vs where rv: "rv = (r, vs)" by (cases rv)
  from Cons.prems(1) obtain bs rest where w: "write_record c l (r, vs) = Some bs"
    "write_records c l recs = Some rest" "data = bs @ rest"
    by (auto simp: rv bind_eq_Some_conv)
  have r: "r \<in> set (layout_records l)" using Cons.prems(2) by (auto simp: rv)
  from read_one_written [OF wf c r w(1), of "pr_base p" rest] obtain cells where
    one: "read_one l opt (pr_base p) data = Found r cells (length bs)" "shows_record r vs cells"
    by (auto simp: w(3))
  let ?p = "after_row opt p r (length bs)"
  have stop: "\<not> pr_stopped ?p" by (simp add: m)
  from Cons.IH [OF w(2) _ this] Cons.prems(2) obtain rows q where
    IH: "batch l opt ?p rest = (rows, None, q)" "list_all2 row_shows recs rows" "\<not> pr_stopped q"
      "pr_base q = pr_base ?p + length rest" "pr_kept q = pr_kept ?p + length recs" by auto
  have "batch l opt p data = (row_at p r cells (length bs) # rows, None, q)"
    using batch_found [OF wf Cons.prems(3) one(1)] IH(1) by (simp add: w(3))
  moreover have "row_shows rv (row_at p r cells (length bs))"
    using one(2) by (simp add: row_shows_def rv)
  ultimately show ?case using IH by (auto simp: w(3))
qed

text \<open>What the reference parse makes of a whole written extract.\<close>

lemma reference_parse_written:
  assumes "wf_layout l" and "c \<in> set CODE_PAGES" and "opt_codec opt = c" and "opt_max_records opt = 0"
    and "\<forall>(r, vs) \<in> set recs. r \<in> set (layout_records l)" and "write_records c l recs = Some data"
    and "length header = layout_header_size l" and "length footer = layout_footer_size l"
  shows "\<exists>rows st. reference_parse l opt (header @ data @ footer) = (rows, Inr st) \<and>
    list_all2 row_shows recs rows \<and> ps_records_kept st = length recs \<and> ps_warnings st = [] \<and>
    ps_trailing_bytes st = 0 \<and> \<not> ps_truncated st"
proof -
  let ?inp = "header @ data @ footer" and ?p = "start_at l (layout_header_size l)"
  obtain rows q where b: "batch l opt ?p data = (rows, None, q)" "list_all2 row_shows recs rows"
    "\<not> pr_stopped q" "pr_base q = pr_base ?p + length data" "pr_kept q = pr_kept ?p + length recs"
    using batch_written [OF assms(1-4,6,5), of ?p] by (auto simp: start_at_def)
  have d: "data_of l ?inp = header @ data" using assms(7,8) by (simp add: data_of_def)
  have "reference_rows l opt ?inp = (rows, None, q)"
    using assms(7) b(1) by (simp add: reference_rows_def Let_def d)
  moreover have "\<exists>st. reference_status l opt ?inp q = Inr st \<and> ps_records_kept st = length recs \<and>
      ps_warnings st = [] \<and> ps_trailing_bytes st = 0 \<and> \<not> ps_truncated st"
    using b(3-5) assms(7,8)
    by (simp add: reference_status_def status_of_def Let_def decodable_end_def new_stream_def start_at_def)
  ultimately show ?thesis
    using b(2) by (auto simp: reference_parse_def)
qed

subsection \<open>Properties\<close>

text \<open>C5. Round trip of a whole extract: values written into the fields of records (text in the code
page padded with blanks, packed, zoned and binary numbers), each record after its declared length
and its type when the layout has them, between a header and a footer, are what a parse returns, however
the file is cut into chunks: one row per record, in order, of the record's type, with one cell per
column that shows the value written, numbers exactly; no warning and nothing left over.\<close>

theorem extract_roundtrip:
  assumes "wf_layout l" and "c \<in> set CODE_PAGES" and "opt_codec opt = c" and "opt_max_records opt = 0"
    and "\<forall>(r, vs) \<in> set recs. r \<in> set (layout_records l)" and "write_records c l recs = Some data"
    and "length header = layout_header_size l" and "length footer = layout_footer_size l"
    and "concat chunks = header @ data @ footer"
  shows "\<exists>rows st. run_stream l opt chunks = Some (rows, Inr st) \<and> list_all2 row_shows recs rows \<and>
    ps_records_kept st = length recs \<and> ps_warnings st = [] \<and> ps_trailing_bytes st = 0 \<and>
    \<not> ps_truncated st"
proof -
  obtain rows st where "reference_parse l opt (header @ data @ footer) = (rows, Inr st)"
    and "list_all2 row_shows recs rows \<and> ps_records_kept st = length recs \<and> ps_warnings st = [] \<and>
      ps_trailing_bytes st = 0 \<and> \<not> ps_truncated st"
    using reference_parse_written [OF assms(1-8)] by blast
  then show ?thesis by (auto simp: run_stream_reference [OF assms(1)] assms(9))
qed

text \<open>A record of a packed amount, a filler and a zoned count, after a two-byte length.\<close>

definition plain_field :: "string \<Rightarrow> nat \<Rightarrow> nat \<Rightarrow> field_kind \<Rightarrow> nat \<Rightarrow> field" where
  "plain_field name off n kind sc =
     \<lparr>field_name = lit name, field_offset = off, field_size = n, field_kind = kind, field_scale = sc,
      field_picture = [], field_declaration = empty_declaration\<lparr>decl_path := lit name\<rparr>\<rparr>"

definition mixed_record :: record_layout where
  "mixed_record =
     \<lparr>record_name = lit ''r'',
      record_fields = [plain_field ''AMT'' 0 3 KPackedDecimal 2, plain_field [] 3 1 KSkip 0,
        plain_field ''QTY'' 4 2 KZonedDecimal 0],
      record_size = 6, record_selector = None\<rparr>"

definition mixed_layout :: layout where
  "mixed_layout =
     \<lparr>layout_records = [mixed_record], layout_description = [], layout_header_size = 0,
      layout_footer_size = 1, layout_length_field = Some (plain_field ''L'' 0 2 KUnsignedInteger 0),
      layout_type_field = None, layout_prefix_size = 2, layout_source_of = SourceProto\<rparr>"

lemmas mixed_defs = mixed_layout_def mixed_record_def plain_field_def width_of_def

lemma wf_mixed: "wf_layout mixed_layout"
  by (simp add: wf_layout_def mixed_defs wf_record_def wf_field_def wf_prefix_def scale_ok_def lit_def
      is_numeric_def digit_limit_def saturating_mul_u32_def columns_def empty_declaration_def
      MAX_RECORD_BYTES_def MAX_FOOTER_BYTES_def MAX_LAYOUT_FIELDS_def MAX_BINARY_BYTES_def
      MAX_PACKED_BYTES_def MAX_ZONED_BYTES_def)

lemma mixed_written:
  "write_records (CODE_PAGES ! 0) mixed_layout [(mixed_record, [PlainNumber (- 12345), PlainNumber 42])] =
     Some [0, 8, 0x12, 0x34, 0x5d, 0x40, 0xf4, 0xc2]"
proof -
  have len: "write_length (CODE_PAGES ! 0) mixed_layout 8 = Some [0, 8]"
    by (simp add: write_length_def mixed_layout_def plain_field_def write_field_def unsigned_holds_def
        eval_nat_numeral)
  have digits: "pad_digits (numeral k) n = pad_digits (pred_numeral k) (n div 10) @ [n mod 10]" for k n
    unfolding numeral_eq_Suc [of k] by (rule pad_digits.simps)
  have "encode_packed 3 (- 12345) = [0x12, 0x34, 0x5d]" "encode_zoned 2 42 = [0xf4, 0xc2]"
    by (simp_all add: encode_packed_def encode_zoned_def digits)
  then have body: "write_fields (CODE_PAGES ! 0) 0 (record_fields mixed_record)
      [PlainNumber (- 12345), PlainNumber 42] = Some [0x12, 0x34, 0x5d, 0x40, 0xf4, 0xc2]"
    by (simp add: mixed_record_def plain_field_def write_field_def packed_holds_def zoned_holds_def)
  have "write_type (CODE_PAGES ! 0) mixed_layout mixed_record = Some []"
    by (simp add: write_type_def mixed_layout_def)
  moreover have "layout_prefix_size mixed_layout + record_size mixed_record = 8"
    by (simp add: mixed_layout_def mixed_record_def)
  ultimately show ?thesis using len body by (simp add: write_record_def)
qed

theorem extract_roundtrip_witness:
  "\<exists>rows st. run_stream mixed_layout (tiny_options 0) [[0, 8, 0x12], [0x34, 0x5d, 0x40, 0xf4, 0xc2, 0xff]] =
       Some (rows, Inr st) \<and>
     list_all2 row_shows [(mixed_record, [PlainNumber (- 12345), PlainNumber 42])] rows"
proof -
  have c: "CODE_PAGES ! 0 \<in> set CODE_PAGES" by (simp add: CODE_PAGES_def)
  have opt: "opt_codec (tiny_options 0) = CODE_PAGES ! 0" "opt_max_records (tiny_options 0) = 0"
    by (simp_all add: tiny_options_def)
  have recs: "\<forall>(r, vs) \<in> set [(mixed_record, [PlainNumber (- 12345), PlainNumber 42])].
      r \<in> set (layout_records mixed_layout)" by (simp add: mixed_layout_def)
  have ends: "length [] = layout_header_size mixed_layout"
    "length [0xff :: u8] = layout_footer_size mixed_layout" by (simp_all add: mixed_layout_def)
  have cut: "concat [[0, 8, 0x12], [0x34, 0x5d, 0x40, 0xf4, 0xc2, 0xff]] =
      [] @ [0, 8, 0x12, 0x34, 0x5d, 0x40, 0xf4, 0xc2] @ [0xff :: u8]" by simp
  from extract_roundtrip [OF wf_mixed c opt recs mixed_written ends cut] show ?thesis
    by (elim exE conjE) (intro exI conjI)
qed

end
