(* ===== verification/Picture.thy ===== *)
theory Picture
  imports Layout_Correct
begin

section \<open>Picture clauses\<close>

text \<open>
  The picture half of \<^verbatim>\<open>src/copybook.rs\<close>: \<open>expand\<close> resolves the repeat counts of a picture into
  its run of symbols, \<open>describe\<close> turns a run and a usage into a field kind, a width and a scale. The
  theorems bound the run, give the round trip of run-length notation, and show that the widths
  chosen hold every number the picture can declare.
\<close>

datatype usage =
    UDisplay
  | UPacked
  | UBinary

definition MAX_RECORD_SYMBOLS :: nat where
  "MAX_RECORD_SYMBOLS = 65536"

definition FILLER :: rstr where
  "FILLER = lit ''FILLER''"

subsection \<open>Repeat counts\<close>

definition picture_of :: "rstr \<Rightarrow> rstr \<Rightarrow> string \<Rightarrow> msg" where
  "picture_of picture name rest =
     [MLit ''picture '', MDbg picture, MLit '' of '', MDbg name, MLit rest]"

text \<open>
  The count after a symbol: one, or what stands between the parentheses that follow it, with the
  characters left.
\<close>

definition read_count :: "rstr \<Rightarrow> rstr \<Rightarrow> rstr \<Rightarrow> parse_error + (nat \<times> rstr)" where
  "read_count picture name chars =
     (case chars of
        [] \<Rightarrow> Inr (1, [])
      | c # rest \<Rightarrow>
          if c \<noteq> 40 then Inr (1, chars)
          else
            let digits = takeWhile (\<lambda>c. c \<noteq> 41) rest;
                closed = (41 \<in> set rest);
                rest = drop (length digits + 1) rest in
            guard (\<not> closed \<or> digits = [])
              (Invalid (picture_of picture name '' has an unterminated repeat count'')) (
            rbind (ok_or (Invalid (picture_of picture name '' has a non-numeric repeat count '' @
                            [MDbg digits]))
                     (parse_unsigned u64_max digits)) (\<lambda>count.
            guard (count = 0 \<or> MAX_RECORD_SYMBOLS < count)
              (Invalid (picture_of picture name '' repeats '' @
                 [MNat count, MLit '' times, outside 1..='', MNat MAX_RECORD_SYMBOLS]))
              (Inr (count, rest)))))"

lemma read_count_rest: "read_count picture name chars = Inr (n, rest) \<Longrightarrow> length rest \<le> length chars"
  by (auto simp: read_count_def Let_def result_simps split: list.splits if_splits)

function expand_from :: "rstr \<Rightarrow> rstr \<Rightarrow> rstr \<Rightarrow> rstr \<Rightarrow> parse_error + rstr" where
  "expand_from picture name out [] = Inr out"
| "expand_from picture name out (symbol # chars) =
     guard (symbol = 40)
       (Invalid (picture_of picture name '' starts a repeat count with nothing to repeat'')) (
     rbind (read_count picture name chars) (\<lambda>(count, rest).
     let out = out @ replicate count symbol in
     guard (MAX_RECORD_SYMBOLS < length out)
       (Invalid (picture_of picture name '' describes more than '' @
          [MNat MAX_RECORD_SYMBOLS, MLit '' character positions'']))
       (expand_from picture name out rest)))"
  by pat_completeness auto
termination
  by (relation "measure (\<lambda>(_, _, _, chars). length chars)") (auto dest: read_count_rest)

definition expand :: "rstr \<Rightarrow> rstr \<Rightarrow> parse_error + rstr" where
  "expand picture name = expand_from picture name [] picture"

subsection \<open>Descriptions\<close>

record described =
  described_kind :: field_kind
  described_size :: nat
  described_scale :: nat

definition describe_character ::
  "rstr \<Rightarrow> rstr \<Rightarrow> usage \<Rightarrow> rstr \<Rightarrow> parse_error + described" where
  "describe_character symbols picture usage label =
     guard (list_ex (\<lambda>c. c = 83 \<or> c = 86 \<or> c = 80) symbols)
       (Invalid (picture_of picture label '' mixes character symbols with the numeric symbols S, V or P''))
     (case find (\<lambda>c. \<not> (c = 88 \<or> c = 65 \<or> c = 57)) symbols of
        Some bad \<Rightarrow>
          Inl (Unsupported (picture_of picture label '' uses the editing symbol '' @
            [MChr bad, MLit ''; numeric-edited and alphanumeric-edited items are not decoded'']))
      | None \<Rightarrow>
          guard (usage \<noteq> UDisplay)
            (Invalid [MDbg label,
               MLit '' is a character item, so it cannot have a computational usage''])
            (Inr \<lparr>described_kind = KText, described_size = min (length symbols) u32_max,
                  described_scale = 0\<rparr>))"

text \<open>The loop over the symbols: the position, and the digits, scale, point and sign so far.\<close>

fun numeric_symbols ::
  "rstr \<Rightarrow> rstr \<Rightarrow> nat \<Rightarrow> nat \<Rightarrow> nat \<Rightarrow> bool \<Rightarrow> bool \<Rightarrow> rstr \<Rightarrow> parse_error + (nat \<times> nat \<times> bool)" where
  "numeric_symbols picture label position digits scale seen_point is_signed [] =
     Inr (digits, scale, is_signed)"
| "numeric_symbols picture label position digits scale seen_point is_signed (symbol # symbols) =
     (if symbol = 83 then
        guard (position \<noteq> 0)
          (Invalid (picture_of picture label '' puts S somewhere other than the front''))
          (numeric_symbols picture label (position + 1) digits scale seen_point True symbols)
      else if symbol = 86 then
        guard seen_point
          (Invalid (picture_of picture label '' has more than one implied decimal point''))
          (numeric_symbols picture label (position + 1) digits scale True is_signed symbols)
      else if symbol = 57 then
        numeric_symbols picture label (position + 1) (digits + 1)
          (if seen_point then scale + 1 else scale) seen_point is_signed symbols
      else
        Inl (Unsupported (picture_of picture label '' uses the symbol '' @
          [MChr symbol, MLit ''; only S, 9 and V describe stored digits, everything else is '',
           MLit ''an edited picture this build does not decode''])))"

definition binary_size :: "rstr \<Rightarrow> nat \<Rightarrow> parse_error + nat" where
  "binary_size label digits =
     (if 1 \<le> digits \<and> digits \<le> 4 then Inr 2
      else if 5 \<le> digits \<and> digits \<le> 9 then Inr 4
      else if 10 \<le> digits \<and> digits \<le> 18 then Inr 8
      else Inl (Unsupported [MDbg label, MLit '' is a binary item of '', MNat digits,
                  MLit '' digits; COBOL binary stops at 18'']))"

definition describe_numeric ::
  "rstr \<Rightarrow> rstr \<Rightarrow> usage \<Rightarrow> rstr \<Rightarrow> parse_error + described" where
  "describe_numeric symbols picture usage label =
     rbind (numeric_symbols picture label 0 0 0 False False symbols) (\<lambda>(digits, scale, is_signed).
     guard (digits = 0) (Invalid (picture_of picture label '' declares no digit positions''))
     (case usage of
        UDisplay \<Rightarrow> Inr \<lparr>described_kind = KZonedDecimal, described_size = digits,
                         described_scale = scale\<rparr>
      | UPacked \<Rightarrow> Inr \<lparr>described_kind = KPackedDecimal, described_size = digits div 2 + 1,
                        described_scale = scale\<rparr>
      | UBinary \<Rightarrow>
          rbind (binary_size label digits) (\<lambda>n.
          Inr \<lparr>described_kind = (if is_signed then KInteger else KUnsignedInteger),
               described_size = n, described_scale = scale\<rparr>)))"

definition describe :: "rstr \<Rightarrow> usage \<Rightarrow> rstr option \<Rightarrow> parse_error + described" where
  "describe picture usage name =
     (let label = (case name of None \<Rightarrow> FILLER | Some n \<Rightarrow> n) in
      rbind (expand picture label) (\<lambda>symbols.
      guard (symbols = []) (Invalid [MLit ''picture clause of '', MDbg label, MLit '' is empty''])
      (if list_ex (\<lambda>c. c = 88 \<or> c = 65) symbols
       then describe_character symbols picture usage label
       else describe_numeric symbols picture usage label)))"

subsection \<open>Expansion\<close>

lemma expand_from_bound:
  "expand_from picture name out chars = Inr syms \<Longrightarrow> length out \<le> MAX_RECORD_SYMBOLS \<Longrightarrow>
     length syms \<le> MAX_RECORD_SYMBOLS \<and> prefix out syms \<and> (chars \<noteq> [] \<longrightarrow> length out < length syms)"
proof (induction picture name out chars rule: expand_from.induct)
  case (1 picture name out)
  then show ?case by simp
next
  case (2 picture name out symbol chars)
  from "2.prems"(1) obtain count rest where
    c: "read_count picture name chars = Inr (count, rest)" and s: "symbol \<noteq> 40"
    and b: "length (out @ replicate count symbol) \<le> MAX_RECORD_SYMBOLS"
    and e: "expand_from picture name (out @ replicate count symbol) rest = Inr syms"
    by (auto simp: result_simps Let_def)
  have IH: "length syms \<le> MAX_RECORD_SYMBOLS \<and> prefix (out @ replicate count symbol) syms"
    using "2.IH" [OF s c refl] b e by auto
  have "0 < count"
    using c by (auto simp: read_count_def Let_def result_simps split: list.splits if_splits)
  moreover have "length (out @ replicate count symbol) \<le> length syms"
    using IH by (blast intro: prefix_length_le)
  moreover have "prefix out syms" using IH by (auto simp: prefix_def)
  ultimately show ?case using IH by auto
qed

lemma expand_bound:
  "expand picture name = Inr syms \<Longrightarrow> length syms \<le> MAX_RECORD_SYMBOLS \<and> (syms = [] \<longleftrightarrow> picture = [])"
  using expand_from_bound [of picture name "[]" picture syms]
  by (cases picture) (auto simp: expand_def MAX_RECORD_SYMBOLS_def)

definition show_runs :: "(uchar \<times> nat) list \<Rightarrow> rstr" where
  "show_runs rs = concat (map (\<lambda>(c, n). c # 40 # render_nat n @ [41]) rs)"

definition runs_symbols :: "(uchar \<times> nat) list \<Rightarrow> rstr" where
  "runs_symbols rs = concat (map (\<lambda>(c, n). replicate n c) rs)"

lemma read_count_shown:
  assumes "0 < n" and "n \<le> MAX_RECORD_SYMBOLS"
  shows "read_count picture name (40 # render_nat n @ 41 # rest) = Inr (n, rest)"
proof -
  have "41 \<notin> set (render_nat n)" by (rule render_nat_not) (simp add: is_ascii_digit_def)
  then have tw: "takeWhile (\<lambda>c. c \<noteq> 41) (render_nat n @ 41 # rest) = render_nat n"
    by (subst takeWhile_append2) auto
  have "n \<le> u64_max" using assms(2) by (simp add: MAX_RECORD_SYMBOLS_def)
  then have "parse_unsigned u64_max (render_nat n) = Some n" by (rule parse_unsigned_render)
  with assms show ?thesis by (simp add: read_count_def Let_def tw guard_def)
qed

lemma expand_from_runs:
  "\<forall>(c, n) \<in> set rs. c \<noteq> 40 \<and> 0 < n \<Longrightarrow>
     length (out @ runs_symbols rs) \<le> MAX_RECORD_SYMBOLS \<Longrightarrow>
     expand_from picture name out (show_runs rs) = Inr (out @ runs_symbols rs)"
proof (induction rs arbitrary: out)
  case Nil
  then show ?case by (simp add: show_runs_def runs_symbols_def)
next
  case (Cons r rs)
  obtain c n where r: "r = (c, n)" by (cases r)
  have cn: "c \<noteq> 40" "0 < n" using Cons.prems(1) by (auto simp: r)
  have shape: "show_runs (r # rs) = c # 40 # render_nat n @ 41 # show_runs rs"
    "runs_symbols (r # rs) = replicate n c @ runs_symbols rs"
    by (simp_all add: show_runs_def runs_symbols_def r)
  have n: "n \<le> MAX_RECORD_SYMBOLS" "length (out @ replicate n c) \<le> MAX_RECORD_SYMBOLS"
    using Cons.prems(2) by (simp_all add: shape)
  have "expand_from picture name (out @ replicate n c) (show_runs rs) =
      Inr ((out @ replicate n c) @ runs_symbols rs)"
    using Cons.prems by (intro Cons.IH) (auto simp: shape)
  then show ?case
    using cn n by (simp add: shape read_count_shown guard_def)
qed

subsection \<open>Numeric pictures\<close>

definition nines :: "rstr \<Rightarrow> nat" where
  "nines syms = length (filter (\<lambda>c. c = 57) syms)"

definition after_point :: "rstr \<Rightarrow> rstr" where
  "after_point syms = drop 1 (dropWhile (\<lambda>c. c \<noteq> 86) syms)"

lemma nines_simps [simp]:
  "nines [] = 0" "nines (c # syms) = (if c = 57 then 1 else 0) + nines syms"
  by (simp_all add: nines_def)

lemma after_point_Cons:
  "after_point (c # syms) = (if c = 86 then syms else after_point syms)"
  by (simp add: after_point_def)

lemma nines_after_point_le: "nines (after_point syms) \<le> nines syms"
proof -
  have "nines (dropWhile P syms) \<le> nines syms" for P by (induction syms) auto
  moreover have "nines (drop 1 xs) \<le> nines xs" for xs by (cases xs) auto
  ultimately show ?thesis unfolding after_point_def using order.trans by blast
qed

lemma numeric_symbols_Inr:
  "numeric_symbols picture label position d s seen sg syms = Inr (d', s', g) \<Longrightarrow>
     d' = d + nines syms \<and>
     s' = s + (if seen then nines syms else nines (after_point syms)) \<and>
     (g \<longleftrightarrow> sg \<or> 83 \<in> set syms) \<and> set syms \<subseteq> {83, 86, 57}"
proof (induction syms arbitrary: position d s seen sg)
  case Nil
  then show ?case by (simp add: after_point_def)
next
  case (Cons c syms)
  consider "c = 83" | "c = 86" | "c = 57" using Cons.prems by (auto split: if_splits)
  then show ?case
    by cases (use Cons.prems in \<open>auto simp: after_point_Cons result_simps split: if_splits dest!: Cons.IH\<close>)
qed

lemma binary_size_Inr:
  "binary_size label k = Inr n \<Longrightarrow>
     n \<in> {2, 4, 8} \<and> 0 < k \<and> k \<le> 18 \<and> (10 :: nat) ^ k \<le> 2 ^ (8 * n - 1)"
proof -
  assume b: "binary_size label k = Inr n"
  have le: "(10 :: nat) ^ k \<le> 10 ^ m" if "k \<le> m" for m using that by (intro power_increasing) auto
  consider "k \<le> 4" "n = 2" "0 < k" | "k \<le> 9" "n = 4" "0 < k" | "k \<le> 18" "n = 8" "0 < k"
    using b by (auto simp: binary_size_def split: if_splits)
  then show ?thesis
  proof cases
    case 1
    have "(10 :: nat) ^ 4 \<le> 2 ^ 15" by simp
    with le [OF 1(1)] have "(10 :: nat) ^ k \<le> 2 ^ 15" by (rule order.trans)
    with 1 show ?thesis by simp
  next
    case 2
    have "(10 :: nat) ^ 9 \<le> 2 ^ 31" by simp
    with le [OF 2(1)] have "(10 :: nat) ^ k \<le> 2 ^ 31" by (rule order.trans)
    with 2 show ?thesis by simp
  next
    case 3
    have "(10 :: nat) ^ 18 \<le> 2 ^ 63" by simp
    with le [OF 3(1)] have "(10 :: nat) ^ k \<le> 2 ^ 63" by (rule order.trans)
    with 3 show ?thesis by simp
  qed
qed

text \<open>What a numeric description promises of the digits of its picture.\<close>

definition holds_digits :: "usage \<Rightarrow> described \<Rightarrow> nat \<Rightarrow> bool" where
  "holds_digits u d k \<longleftrightarrow>
     (case u of
        UDisplay \<Rightarrow> described_kind d = KZonedDecimal \<and> described_size d = k
      | UPacked \<Rightarrow> described_kind d = KPackedDecimal \<and>
          k \<le> 2 * described_size d - 1 \<and> 2 * described_size d - 1 \<le> k + 1
      | UBinary \<Rightarrow> described_kind d \<in> {KInteger, KUnsignedInteger} \<and>
          described_size d \<in> {2, 4, 8} \<and> k \<le> 18 \<and> (10 :: nat) ^ k \<le> 2 ^ (8 * described_size d - 1))"

lemma describe_numeric_holds:
  assumes "describe_numeric syms picture u label = Inr d"
  shows "holds_digits u d (nines syms) \<and> 0 < nines syms \<and>
    described_scale d = nines (after_point syms) \<and>
    (u = UBinary \<longrightarrow> (described_kind d = KInteger \<longleftrightarrow> 83 \<in> set syms))"
proof -
  obtain k sc g where n: "numeric_symbols picture label 0 0 0 False False syms = Inr (k, sc, g)"
    using assms by (auto simp: describe_numeric_def result_simps)
  note N = numeric_symbols_Inr [OF n]
  show ?thesis
  proof (cases u)
    case UBinary
    then obtain m where "binary_size label k = Inr m" "described_size d = m" "0 < k"
      "described_kind d = (if g then KInteger else KUnsignedInteger)" "described_scale d = sc"
      using assms by (auto simp: describe_numeric_def n result_simps)
    with N binary_size_Inr [of label k m] UBinary show ?thesis
      by (auto simp: holds_digits_def)
  qed (use assms N in \<open>auto simp: describe_numeric_def n result_simps holds_digits_def\<close>)
qed

lemma describe_cases:
  assumes "describe picture u name = Inr d"
  obtains syms label where "expand picture label = Inr syms" "syms \<noteq> []"
    "(described_kind d = KText \<and> u = UDisplay \<and> described_size d = length syms \<and>
        described_scale d = 0 \<and> set syms \<subseteq> {88, 65, 57}) \<or>
     describe_numeric syms picture u label = Inr d"
proof -
  let ?label = "case name of None \<Rightarrow> FILLER | Some n \<Rightarrow> n"
  obtain syms where s: "expand picture ?label = Inr syms" "syms \<noteq> []"
    "(if list_ex (\<lambda>c. c = 88 \<or> c = 65) syms then describe_character syms picture u ?label
      else describe_numeric syms picture u ?label) = Inr d"
    using assms by (auto simp: describe_def Let_def result_simps)
  have "length syms \<le> u32_max"
    using expand_bound [OF s(1)] by (simp add: MAX_RECORD_SYMBOLS_def)
  then show ?thesis
    using s by (intro that [OF s(1,2)])
      (auto simp: describe_character_def guard_def find_None_iff split: if_splits option.splits)
qed

lemma describe_numeric_scale_ok:
  assumes "describe_numeric syms picture u label = Inr d" and "length syms \<le> MAX_RECORD_SYMBOLS"
  shows "0 < described_size d \<and> scale_ok (described_kind d) (described_size d) (described_scale d) \<and>
    described_kind d \<noteq> KSkip \<and> described_size d \<le> MAX_RECORD_SYMBOLS"
proof -
  note D = describe_numeric_holds [OF assms(1)]
  have n: "nines syms \<le> length syms" by (simp add: nines_def)
  have sc: "described_scale d \<le> nines syms" using D nines_after_point_le by simp
  show ?thesis
  proof (cases u)
    case UDisplay
    with D sc assms(2) n show ?thesis
      by (auto simp: holds_digits_def scale_ok_def is_numeric_def digit_limit_def)
  next
    case UPacked
    have k: "2 * described_size d - 1 \<le> nines syms + 1" "nines syms \<le> 2 * described_size d - 1"
      using D UPacked by (simp_all add: holds_digits_def)
    then have "described_size d \<le> MAX_RECORD_SYMBOLS"
      using assms(2) n by (simp add: MAX_RECORD_SYMBOLS_def)
    moreover have "min (described_size d * 2) u32_max = described_size d * 2"
      using calculation by (simp add: MAX_RECORD_SYMBOLS_def)
    ultimately show ?thesis
      using D UPacked sc k
      by (auto simp: holds_digits_def scale_ok_def is_numeric_def digit_limit_def
          saturating_mul_u32_def)
  next
    case UBinary
    have "described_size d \<in> {2, 4, 8}" "described_kind d \<in> {KInteger, KUnsignedInteger}"
      "nines syms \<le> 18"
      using conjunct1 [OF D] unfolding UBinary holds_digits_def usage.case by blast+
    then show ?thesis
      using sc by (auto simp: scale_ok_def is_numeric_def digit_limit_def MAX_BINARY_DIGITS_def
          MAX_RECORD_SYMBOLS_def)
  qed
qed

lemma describe_scale_ok:
  assumes "describe picture u name = Inr d"
  shows "0 < described_size d \<and> scale_ok (described_kind d) (described_size d) (described_scale d) \<and>
    described_kind d \<noteq> KSkip \<and> described_size d \<le> MAX_RECORD_SYMBOLS"
  using assms
proof (rule describe_cases)
  fix syms label
  assume e: "expand picture label = Inr syms" "syms \<noteq> []"
    and d: "(described_kind d = KText \<and> u = UDisplay \<and> described_size d = length syms \<and>
        described_scale d = 0 \<and> set syms \<subseteq> {88, 65, 57}) \<or>
     describe_numeric syms picture u label = Inr d"
  have len: "length syms \<le> MAX_RECORD_SYMBOLS" using expand_bound [OF e(1)] by simp
  from d show ?thesis
  proof
    assume "described_kind d = KText \<and> u = UDisplay \<and> described_size d = length syms \<and>
        described_scale d = 0 \<and> set syms \<subseteq> {88, 65, 57}"
    then show ?thesis using e(2) len by (simp add: scale_ok_def)
  next
    assume "describe_numeric syms picture u label = Inr d"
    then show ?thesis using len by (rule describe_numeric_scale_ok)
  qed
qed

subsection \<open>Properties\<close>

text \<open>Run-length notation round trips: a picture written as symbols with their repeat counts
expands to exactly that many of each symbol, as long as it stays within the limit; and no picture
expands past the limit.\<close>

theorem expand_roundtrip:
  "((\<forall>(c, n) \<in> set rs. c \<noteq> 40 \<and> 0 < n) \<and> length (runs_symbols rs) \<le> MAX_RECORD_SYMBOLS \<longrightarrow>
      expand (show_runs rs) name = Inr (runs_symbols rs)) \<and>
   (expand picture name = Inr syms \<longrightarrow> length syms \<le> MAX_RECORD_SYMBOLS)"
  using expand_from_runs [of rs "[]"] expand_bound [of picture name syms]
  by (simp add: expand_def)

theorem expand_roundtrip_witness:
  "expand (show_runs [(83, 1), (57, 7), (86, 1), (57, 2)]) (lit ''AMT'') = Inr (lit ''S9999999V99'')"
proof -
  have "runs_symbols [(83, 1), (57, 7), (86, 1), (57, 2)] = lit ''S9999999V99''"
    by (simp add: runs_symbols_def lit_def eval_nat_numeral)
  moreover have "length (runs_symbols [(83, 1), (57, 7), (86, 1), (57, 2)]) \<le> MAX_RECORD_SYMBOLS"
    by (simp add: runs_symbols_def MAX_RECORD_SYMBOLS_def)
  ultimately show ?thesis
    using expand_roundtrip [of "[(83, 1), (57, 7), (86, 1), (57, 2)]" "lit ''AMT''"] by simp
qed

text \<open>C34. A described numeric item holds what its picture declares: one byte per digit in display,
the fewest bytes for the digits and the sign nibble when packed, two, four or eight bytes that hold
every number of that many digits in binary (signed exactly when the picture has an S), and a scale
that counts the digits after the point.\<close>

theorem describe_holds_picture:
  assumes "describe picture u name = Inr d" and "described_kind d \<noteq> KText"
  shows "\<exists>syms label. expand picture label = Inr syms \<and> holds_digits u d (nines syms) \<and>
    0 < nines syms \<and> described_scale d = nines (after_point syms) \<and>
    (u = UBinary \<longrightarrow> (described_kind d = KInteger \<longleftrightarrow> 83 \<in> set syms))"
  using assms(1)
proof (rule describe_cases)
  fix syms label
  assume e: "expand picture label = Inr syms"
    and d: "(described_kind d = KText \<and> u = UDisplay \<and> described_size d = length syms \<and>
        described_scale d = 0 \<and> set syms \<subseteq> {88, 65, 57}) \<or>
     describe_numeric syms picture u label = Inr d"
  then have "describe_numeric syms picture u label = Inr d" using assms(2) by blast
  with describe_numeric_holds [OF this] e show ?thesis by blast
qed

theorem describe_holds_picture_witness:
  "\<exists>d syms label. describe (lit ''S9(2)V99'') UPacked None = Inr d \<and>
     expand (lit ''S9(2)V99'') label = Inr syms \<and> holds_digits UPacked d (nines syms)"
proof -
  have r: "read_count p n (57 # s) = Inr (1, 57 # s)" "read_count p n (86 # s) = Inr (1, 86 # s)"
    "read_count p n [] = Inr (1, [])" "read_count p n (40 # 50 # 41 # s) = Inr (2, s)" for p n s
    by (simp_all add: read_count_def Let_def guard_def parse_unsigned_def strip_plus_def
        parse_digits_def is_ascii_digit_def digits_value_def MAX_RECORD_SYMBOLS_def)
  have two: "replicate 2 (57 :: nat) = [57, 57]" by (simp add: numeral_2_eq_2)
  have "expand (lit ''S9(2)V99'') FILLER = Inr (lit ''S99V99'')"
    by (simp add: expand_def lit_def r guard_def MAX_RECORD_SYMBOLS_def two)
  then have "describe (lit ''S9(2)V99'') UPacked None =
      Inr \<lparr>described_kind = KPackedDecimal, described_size = 3, described_scale = 2\<rparr>"
    by (simp add: describe_def lit_def describe_numeric_def guard_def)
  with describe_holds_picture [OF this] show ?thesis by auto
qed

end
