(* ===== verification/Copybook_Lexer.thy ===== *)
theory Copybook_Lexer
  imports Errors
begin

section \<open>Copybook source to statements\<close>

text \<open>
  The lexer of \<^verbatim>\<open>src/copybook.rs\<close>: lines, card columns, and the split into statements of tokens.
  The columns are characters: the tests on bytes in the source only succeed where the first seven
  characters are ASCII, so byte and character positions agree there. \<open>lex_line\<close> is the loop over the
  characters of one line with the token, the statement and the statements so far; \<open>statements\<close> is
  the loop over the lines.
\<close>

type_synonym statement = "rstr list"

text \<open>\<^verbatim>\<open>str::lines\<close>: a line ends at a line feed, and a carriage return before it goes too.\<close>

definition strip_cr :: "rstr \<Rightarrow> rstr" where
  "strip_cr l = (if l \<noteq> [] \<and> last l = 13 then butlast l else l)"

function lines_of :: "rstr \<Rightarrow> rstr list" where
  "lines_of s =
     (if s = [] then []
      else case dropWhile (\<lambda>c. c \<noteq> 10) s of
             [] \<Rightarrow> [s]
           | _ # rest \<Rightarrow> strip_cr (takeWhile (\<lambda>c. c \<noteq> 10) s) # lines_of rest)"
  by pat_completeness auto
termination
proof (relation "measure length")
  fix s rest :: rstr and c
  assume "dropWhile (\<lambda>c. c \<noteq> 10) s = c # rest"
  then have "length (c # rest) \<le> length s" using length_dropWhile_le by metis
  then show "(rest, s) \<in> measure length" by simp
qed simp

declare lines_of.simps [simp del]

definition fixed_format :: "rstr \<Rightarrow> bool" where
  "fixed_format line \<longleftrightarrow>
     7 \<le> length line \<and> list_all (\<lambda>c. is_ascii_digit c \<or> c = 32) (take 6 line) \<and>
     (let c = line ! 6 in c = 32 \<or> c = 45 \<or> c = 42 \<or> c = 47 \<or> c = 68 \<or> c = 100)"

definition strip_card_columns :: "rstr \<Rightarrow> rstr option" where
  "strip_card_columns line =
     (case trim_start line of
        c # _ \<Rightarrow> if c = 42 \<or> c = 47 then None else
          if \<not> fixed_format line then Some line
          else if line ! 6 = 42 \<or> line ! 6 = 47 then None
          else Some (drop 6 (take 72 line))
      | [] \<Rightarrow>
          if \<not> fixed_format line then Some line
          else if line ! 6 = 42 \<or> line ! 6 = 47 then None
          else Some (drop 6 (take 72 line)))"

text \<open>A finished token joins the statement unless it is empty; so a finished statement the output.\<close>

definition flush :: "'a list \<Rightarrow> 'a list list \<Rightarrow> 'a list list" where
  "flush token current = (if token \<noteq> [] then current @ [token] else current)"

function lex_line ::
  "rstr \<Rightarrow> rstr \<Rightarrow> statement \<Rightarrow> statement list \<Rightarrow> rstr \<Rightarrow> parse_error + (statement \<times> statement list)"
where
  "lex_line line token current out [] = Inr (flush token current, out)"
| "lex_line line token current out (ch # chars) =
     (if ch = 39 \<or> ch = 34 then
        (case dropWhile (\<lambda>c. c \<noteq> ch) chars of
           [] \<Rightarrow> Inl (Invalid [MLit ''unterminated literal in copybook line '', MDbg line])
         | _ # rest \<Rightarrow>
             lex_line line (token @ ch # takeWhile (\<lambda>c. c \<noteq> ch) chars @ [ch]) current out rest)
      else if ch = 46 \<and> (chars = [] \<or> is_whitespace (hd chars)) then
        lex_line line [] [] (flush (flush token current) out) chars
      else if is_whitespace ch then lex_line line [] (flush token current) out chars
      else lex_line line (token @ [ch]) current out chars)"
  by pat_completeness auto
termination
proof (relation "measure (\<lambda>(_, _, _, _, chars). length chars)")
  fix line token ch chars and current :: statement and out :: "statement list" and c rest
  assume "dropWhile (\<lambda>c. c \<noteq> ch) chars = c # rest"
  then have "length (c # rest) \<le> length chars" using length_dropWhile_le by metis
  then show "((line, token @ ch # takeWhile (\<lambda>c. c \<noteq> ch) chars @ [ch], current, out, rest),
      line, token, current, out, ch # chars) \<in> measure (\<lambda>(_, _, _, _, chars). length chars)"
    by simp
qed auto

fun lex_lines ::
  "statement \<Rightarrow> statement list \<Rightarrow> rstr list \<Rightarrow> parse_error + (statement \<times> statement list)" where
  "lex_lines current out [] = Inr (current, out)"
| "lex_lines current out (raw_line # rest) =
     (case strip_card_columns raw_line of
        None \<Rightarrow> lex_lines current out rest
      | Some line \<Rightarrow>
          rbind (lex_line line [] current out line) (\<lambda>(current, out). lex_lines current out rest))"

definition statements :: "rstr \<Rightarrow> parse_error + statement list" where
  "statements source =
     rbind (lex_lines [] [] (lines_of source)) (\<lambda>(current, out).
     guard (current \<noteq> [])
       (Invalid [MLit ''the copybook ends without a period after '', MDbg (join [32] current)])
       (Inr out))"

subsection \<open>Every statement has a token, every token a character\<close>

definition proper :: "statement list \<Rightarrow> bool" where
  "proper out \<longleftrightarrow> (\<forall>st \<in> set out. st \<noteq> [] \<and> [] \<notin> set st)"

lemma flush_proper [simp]: "[] \<in> set (flush token current) \<longleftrightarrow> [] \<in> set current"
  by (simp add: flush_def)

lemma lex_line_proper:
  "lex_line line token current out chars = Inr (current', out') \<Longrightarrow> [] \<notin> set current \<Longrightarrow> proper out \<Longrightarrow>
     [] \<notin> set current' \<and> proper out'"
proof (induction line token current out chars rule: lex_line.induct)
  case (2 line token current out ch chars)
  have p: "proper (flush (flush token current) out)"
    using "2.prems" by (auto simp: proper_def flush_def)
  show ?case
    using 2 p by (auto split: if_splits list.splits)
qed auto

lemma lex_lines_proper:
  "lex_lines current out ls = Inr (current', out') \<Longrightarrow> [] \<notin> set current \<Longrightarrow> proper out \<Longrightarrow>
     [] \<notin> set current' \<and> proper out'"
proof (induction current out ls rule: lex_lines.induct)
  case (2 current out raw_line rest)
  show ?case
  proof (cases "strip_card_columns raw_line")
    case None
    with 2 show ?thesis by simp
  next
    case (Some line)
    with "2.prems"(1) obtain c1 o1 where
      l: "lex_line line [] current out line = Inr (c1, o1)"
        "lex_lines c1 o1 rest = Inr (current', out')"
      by (auto simp: result_simps)
    from "2.IH"(2) [OF Some l(1) refl l(2)] lex_line_proper [OF l(1) "2.prems"(2,3)]
    show ?thesis by blast
  qed
qed auto

lemma statements_proper: "statements source = Inr out \<Longrightarrow> proper out"
  using lex_lines_proper [of "[]" "[]" "lines_of source"]
  by (auto simp: statements_def result_simps proper_def)

subsection \<open>Printing a statement and reading it back\<close>

definition plain_token :: "rstr \<Rightarrow> bool" where
  "plain_token t \<longleftrightarrow>
     t \<noteq> [] \<and> (\<forall>c \<in> set t. \<not> is_whitespace c \<and> c \<noteq> 39 \<and> c \<noteq> 34) \<and> last t \<noteq> 46"

definition literal_token :: "rstr \<Rightarrow> bool" where
  "literal_token t \<longleftrightarrow>
     (\<exists>q body. t = q # body @ [q] \<and> (q = 39 \<or> q = 34) \<and> q \<notin> set body \<and> 10 \<notin> set body)"

definition show_statement :: "statement \<Rightarrow> rstr" where
  "show_statement ts = join [32] ts @ [46]"

definition show_statements :: "statement list \<Rightarrow> rstr" where
  "show_statements sts = concat (map (\<lambda>ts. show_statement ts @ [10]) sts)"

lemma lex_plain:
  "plain_token t \<Longrightarrow> lex_line line token current out (t @ rest) = lex_line line (token @ t) current out rest"
proof (induction t arbitrary: token)
  case Nil
  then show ?case by (simp add: plain_token_def)
next
  case (Cons c t)
  have c: "\<not> is_whitespace c" "c \<noteq> 39" "c \<noteq> 34" using Cons.prems by (simp_all add: plain_token_def)
  have nf: "\<not> (c = 46 \<and> (t @ rest = [] \<or> is_whitespace (hd (t @ rest))))"
  proof
    assume a: "c = 46 \<and> (t @ rest = [] \<or> is_whitespace (hd (t @ rest)))"
    then have "t \<noteq> []" using Cons.prems by (auto simp: plain_token_def)
    then show False using a Cons.prems by (cases t) (auto simp: plain_token_def)
  qed
  have step: "lex_line line token current out (c # t @ rest) =
      lex_line line (token @ [c]) current out (t @ rest)"
    unfolding lex_line.simps(2) by (simp only: c nf if_False simp_thms)
  show ?case
  proof (cases "t = []")
    case True
    with step show ?thesis by simp
  next
    case False
    then have "plain_token t" using Cons.prems by (auto simp: plain_token_def split: if_splits)
    from Cons.IH [OF this, of "token @ [c]"] step show ?thesis by simp
  qed
qed

lemma lex_literal:
  assumes "literal_token t"
  shows "lex_line line [] current out (t @ rest) = lex_line line t current out rest"
proof -
  obtain q body where t: "t = q # body @ [q]" "q = 39 \<or> q = 34" "q \<notin> set body"
    using assms by (auto simp: literal_token_def)
  have "dropWhile (\<lambda>c. c \<noteq> q) (body @ q # rest) = q # rest"
    "takeWhile (\<lambda>c. c \<noteq> q) (body @ q # rest) = body"
    using t(3) by (induction body) auto
  with t show ?thesis by simp
qed

lemma lex_token:
  "plain_token t \<or> literal_token t \<Longrightarrow>
     lex_line line [] current out (t @ rest) = lex_line line t current out rest"
  using lex_plain [of t line "[]"] lex_literal by auto

lemma token_nonempty: "plain_token t \<or> literal_token t \<Longrightarrow> t \<noteq> []"
  by (auto simp: plain_token_def literal_token_def)

text \<open>What the lexer reads as one token, and a line of such tokens.\<close>

definition one_token :: "rstr \<Rightarrow> bool" where
  "one_token t \<longleftrightarrow>
     t \<noteq> [] \<and> (\<forall>line current out rest. lex_line line [] current out (t @ rest) = lex_line line t current out rest)"

lemma printed_one_token: "plain_token t \<or> literal_token t \<Longrightarrow> one_token t"
  using lex_token token_nonempty by (simp add: one_token_def)

lemma lex_tokens:
  "\<forall>t \<in> set ts. one_token t \<Longrightarrow> ts \<noteq> [] \<Longrightarrow>
     lex_line line [] current out (join [32] ts @ [46]) = Inr ([], flush (current @ ts) out)"
proof (induction "[32 :: nat]" ts arbitrary: current rule: join.induct)
  case (2 x)
  then have x: "one_token x" by simp
  then have "lex_line line [] current out (x @ [46]) = lex_line line x current out [46]"
    by (simp add: one_token_def)
  with x show ?case by (simp add: flush_def one_token_def)
next
  case (3 x y ys)
  have x: "one_token x" using 3 by simp
  have w: "is_whitespace 32" by (simp add: is_whitespace_def)
  have "lex_line line [] current out (x @ 32 # join [32] (y # ys) @ [46]) =
      lex_line line x current out (32 # join [32] (y # ys) @ [46])"
    using x by (simp add: one_token_def)
  also have "\<dots> = lex_line line [] (current @ [x]) out (join [32] (y # ys) @ [46])"
    using w x by (simp add: flush_def one_token_def)
  also have "\<dots> = Inr ([], flush ((current @ [x]) @ y # ys) out)"
    using 3(2,3) by (intro 3(1)) auto
  finally show ?case by simp
qed simp

lemma lex_printed:
  "\<forall>t \<in> set ts. plain_token t \<or> literal_token t \<Longrightarrow> ts \<noteq> [] \<Longrightarrow>
     lex_line line [] current out (join [32] ts @ [46]) = Inr ([], flush (current @ ts) out)"
  by (rule lex_tokens) (use printed_one_token in blast)+

lemma lex_lines_printed:
  "\<forall>ts \<in> set sts. ts \<noteq> [] \<and> (\<forall>t \<in> set ts. plain_token t \<or> literal_token t) \<and>
     strip_card_columns (show_statement ts) = Some (show_statement ts) \<Longrightarrow>
   lex_lines [] out (map show_statement sts) = Inr ([], out @ sts)"
proof (induction sts arbitrary: out)
  case (Cons ts sts)
  have "lex_line (show_statement ts) [] [] out (show_statement ts) = Inr ([], out @ [ts])"
    using Cons.prems lex_printed [of ts "show_statement ts" "[]" out]
    by (simp add: show_statement_def flush_def)
  with Cons show ?case by simp
qed simp

lemma lines_of_line:
  assumes "10 \<notin> set l" and "l = [] \<or> last l \<noteq> 13"
  shows "lines_of (l @ 10 # rest) = l # lines_of rest"
proof -
  have "dropWhile (\<lambda>c. c \<noteq> 10) (l @ 10 # rest) = 10 # rest"
    "takeWhile (\<lambda>c. c \<noteq> 10) (l @ 10 # rest) = l"
    using assms(1) by (auto intro!: takeWhile_append2 [THEN trans] dropWhile_append2 [THEN trans])
  with assms(2) show ?thesis by (subst lines_of.simps) (auto simp: strip_cr_def)
qed

text \<open>One statement on one line.\<close>

lemma statement_read:
  assumes "\<forall>t \<in> set ts. one_token t \<and> 10 \<notin> set t" and "ts \<noteq> []"
    and "strip_card_columns (show_statement ts) = Some (show_statement ts)"
  shows "statements (show_statement ts @ [10]) = Inr [ts]"
proof -
  have "10 \<notin> set (join [32] ts)" if "\<forall>t \<in> set ts. 10 \<notin> set t" for ts
    using that by (induction "[32 :: nat]" ts rule: join.induct) auto
  then have "10 \<notin> set (show_statement ts)" using assms(1) by (simp add: show_statement_def)
  moreover have "last (show_statement ts) \<noteq> 13" by (simp add: show_statement_def)
  ultimately have "lines_of (show_statement ts @ [10]) = [show_statement ts]"
    using lines_of_line [of "show_statement ts" "[]"] by (simp add: lines_of.simps)
  moreover have "lex_line (show_statement ts) [] [] [] (show_statement ts) = Inr ([], [ts])"
    using lex_tokens [of ts "show_statement ts" "[]" "[]"] assms(1,2) by (simp add: show_statement_def flush_def)
  ultimately show ?thesis using assms(3) by (simp add: statements_def guard_def)
qed

lemma printed_no_newline:
  "\<forall>t \<in> set ts. plain_token t \<or> literal_token t \<Longrightarrow> 10 \<notin> set (show_statement ts)"
proof -
  have w: "is_whitespace 10" by (simp add: is_whitespace_def)
  have "10 \<notin> set t" if "plain_token t \<or> literal_token t" for t
    using that w by (auto simp: plain_token_def literal_token_def)
  then have "10 \<notin> set (join [32] ts)" if "\<forall>t \<in> set ts. plain_token t \<or> literal_token t" for ts
    using that by (induction "[32 :: nat]" ts rule: join.induct) auto
  then show "10 \<notin> set (show_statement ts)"
    if "\<forall>t \<in> set ts. plain_token t \<or> literal_token t" using that by (simp add: show_statement_def)
qed

lemma lines_of_printed:
  "\<forall>ts \<in> set sts. \<forall>t \<in> set ts. plain_token t \<or> literal_token t \<Longrightarrow>
     lines_of (show_statements sts) = map show_statement sts"
proof (induction sts)
  case Nil
  then show ?case by (simp add: show_statements_def lines_of.simps)
next
  case (Cons ts sts)
  have "10 \<notin> set (show_statement ts)" using Cons.prems by (intro printed_no_newline) simp
  moreover have "last (show_statement ts) \<noteq> 13" by (simp add: show_statement_def)
  ultimately have "lines_of (show_statement ts @ 10 # show_statements sts) =
      show_statement ts # lines_of (show_statements sts)" by (intro lines_of_line) auto
  with Cons show ?case by (simp add: show_statements_def)
qed

lemma statements_shown:
  "\<forall>ts \<in> set sts. ts \<noteq> [] \<and> (\<forall>t \<in> set ts. plain_token t \<or> literal_token t) \<and>
     strip_card_columns (show_statement ts) = Some (show_statement ts) \<Longrightarrow>
   statements (show_statements sts) = Inr sts"
  using lines_of_printed [of sts] lex_lines_printed [of sts "[]"]
  by (simp add: statements_def guard_def)

subsection \<open>Properties\<close>

text \<open>The lexer reads back what is printed: statements of words and quoted literals, one to a
free-format line, closed by a period, lex to exactly those statements; a literal may hold spaces and
periods, and a period inside a word does not end the statement.\<close>

theorem lexer_roundtrip:
  assumes "\<forall>ts \<in> set sts. ts \<noteq> [] \<and> (\<forall>t \<in> set ts. plain_token t \<or> literal_token t) \<and>
     strip_card_columns (show_statement ts) = Some (show_statement ts)"
  shows "statements (show_statements sts) = Inr sts"
  using assms by (rule statements_shown)

theorem lexer_roundtrip_witness:
  "statements (show_statements [[lit ''05'', lit ''AMT'', lit ''PIC'', lit ''ZZ9.99'', lit ''VALUE'',
      lit ''\"A. B\"'']]) =
   Inr [[lit ''05'', lit ''AMT'', lit ''PIC'', lit ''ZZ9.99'', lit ''VALUE'', lit ''\"A. B\"'']]"
proof (rule lexer_roundtrip)
  have p: "plain_token (lit ''05'')" "plain_token (lit ''AMT'')" "plain_token (lit ''PIC'')"
    "plain_token (lit ''ZZ9.99'')" "plain_token (lit ''VALUE'')"
    by (simp_all add: plain_token_def lit_def is_whitespace_def)
  have "lit ''\"A. B\"'' = 34 # lit ''A. B'' @ [34]" by (simp add: lit_def)
  then have "literal_token (lit ''\"A. B\"'')"
    unfolding literal_token_def by (intro exI [of _ 34] exI [of _ "lit ''A. B''"]) (simp add: lit_def)
  with p show "\<forall>ts \<in> set [[lit ''05'', lit ''AMT'', lit ''PIC'', lit ''ZZ9.99'', lit ''VALUE'',
      lit ''\"A. B\"'']]. ts \<noteq> [] \<and> (\<forall>t \<in> set ts. plain_token t \<or> literal_token t) \<and>
      strip_card_columns (show_statement ts) = Some (show_statement ts)"
    by (simp add: show_statement_def strip_card_columns_def fixed_format_def trim_start_def lit_def
        is_whitespace_def is_ascii_digit_def)
qed

text \<open>Whatever the source, a statement the lexer returns has at least one token and no token is
empty: the compiler's first access to a statement, its level number, is always there.\<close>

theorem statements_have_tokens:
  assumes "statements source = Inr sts" and "st \<in> set sts"
  shows "st \<noteq> [] \<and> [] \<notin> set st"
  using statements_proper [OF assms(1)] assms(2) by (simp add: proper_def)

theorem statements_have_tokens_witness:
  "\<exists>sts. statements (show_statements [[lit ''01'', lit ''R'']]) = Inr sts \<and>
     [lit ''01'', lit ''R''] \<in> set sts \<and> [] \<notin> set [lit ''01'', lit ''R'']"
proof -
  have "statements (show_statements [[lit ''01'', lit ''R'']]) = Inr [[lit ''01'', lit ''R'']]"
    by (rule statements_shown)
      (simp add: plain_token_def show_statement_def strip_card_columns_def fixed_format_def
        trim_start_def lit_def is_whitespace_def is_ascii_digit_def)
  with statements_have_tokens [OF this, of "[lit ''01'', lit ''R'']"] show ?thesis by simp
qed

end
