(* ===== verification/Copybook_Items.thy ===== *)
theory Copybook_Items
  imports Picture Copybook_Lexer
begin

section \<open>Statements to items\<close>

text \<open>
  The parser of \<^verbatim>\<open>src/copybook.rs\<close> from a statement to a data item or a level-88 condition
  name. \<open>parse_clauses\<close> is the loop over the tokens after the name; it is given the tokens that are
  left, and its state is the picture, the usage and the repeat count so far.
\<close>

definition MAX_OCCURS :: nat where
  "MAX_OCCURS = 4096"

record item =
  item_level :: nat
  item_name :: "rstr option"
  item_picture :: "rstr option"
  item_usage :: usage
  item_occurs :: "nat option"
  item_conditions :: "condition_name list"

datatype parsed =
    ParsedItem item
  | ParsedCondition condition_name

subsection \<open>Keywords\<close>

definition one_of :: "string list \<Rightarrow> rstr \<Rightarrow> bool" where
  "one_of words token = (token \<in> set (map lit words))"

definition usage_of :: "rstr \<Rightarrow> usage option" where
  "usage_of token =
     (if one_of [''COMP'', ''COMPUTATIONAL'', ''COMP-4'', ''COMPUTATIONAL-4'', ''BINARY''] token
      then Some UBinary
      else if one_of [''COMP-3'', ''COMPUTATIONAL-3'', ''PACKED-DECIMAL''] token then Some UPacked
      else if one_of [''DISPLAY''] token then Some UDisplay
      else None)"

definition refused :: "rstr \<Rightarrow> msg option" where
  "refused token =
     (if one_of [''REDEFINES''] token then
        Some [MLit ''REDEFINES gives one run of bytes two layouts; send the layout you actually '',
          MLit ''want as ParseOptions.layout'']
      else if one_of [''RENAMES''] token then
        Some [MLit ''level-66 RENAMES regroups fields that are already described'']
      else if one_of [''COMP-1'', ''COMPUTATIONAL-1'', ''COMP-2'', ''COMPUTATIONAL-2''] token then
        Some [MLit ''COMP-1 and COMP-2 are hexadecimal floating point, which this build does not '',
          MLit ''decode'']
      else if one_of [''COMP-5'', ''COMPUTATIONAL-5''] token then
        Some [MLit ''COMP-5 is native-endian binary, so its bytes depend on the machine that '',
          MLit ''wrote them; declare the field as COMP if it is big-endian'']
      else if one_of [''SYNCHRONIZED'', ''SYNC''] token then
        Some [MLit ''SYNCHRONIZED inserts compiler-chosen slack bytes, so the offsets in the '',
          MLit ''copybook are no longer the offsets in the file'']
      else if one_of [''SIGN''] token then
        Some [MLit ''an explicit SIGN clause moves or separates the sign; only the default '',
          MLit ''trailing overpunch is decoded'']
      else if one_of [''DEPENDING''] token then
        Some [MLit ''OCCURS DEPENDING ON makes the record variable-length in a way the layout '',
          MLit ''cannot describe'']
      else if one_of [''POINTER'', ''INDEX'', ''PROCEDURE-POINTER'', ''FUNCTION-POINTER''] token then
        Some [MLit ''pointer and index items hold machine addresses, not data'']
      else None)"

definition ignorable :: "rstr \<Rightarrow> bool" where
  "ignorable token =
     one_of [''VALUE'', ''VALUES'', ''JUSTIFIED'', ''JUST'', ''RIGHT'', ''LEFT'', ''GLOBAL'',
       ''EXTERNAL'', ''BLANK'', ''WHEN'', ''ZERO'', ''ZEROS'', ''ZEROES'', ''IS'', ''ARE'', ''TIMES'',
       ''CHARACTERS''] token"

definition is_clause_keyword :: "rstr \<Rightarrow> bool" where
  "is_clause_keyword token =
     (one_of [''PIC'', ''PICTURE'', ''USAGE'', ''OCCURS'', ''REDEFINES''] token \<or>
      usage_of token \<noteq> None \<or> ignorable token \<or> refused token \<noteq> None)"

definition unquote :: "rstr \<Rightarrow> rstr" where
  "unquote literal =
     (if 2 \<le> length literal \<and> (hd literal = 39 \<or> hd literal = 34) \<and> last literal = hd literal
      then tl (butlast literal) else literal)"

subsection \<open>Condition names\<close>

text \<open>The loop over the tokens after \<^verbatim>\<open>VALUE\<close>, each with its spelling in the statement.\<close>

fun condition_values ::
  "rstr \<Rightarrow> condition_value list \<Rightarrow> bool \<Rightarrow> (rstr \<times> rstr) list \<Rightarrow>
     parse_error + (condition_value list \<times> bool)" where
  "condition_values name values in_range [] = Inr (values, in_range)"
| "condition_values name values in_range ((token, spelling) # rest) =
     (if one_of [''IS'', ''ARE''] token then condition_values name values in_range rest
      else if one_of [''THRU'', ''THROUGH''] token then
        guard (values = [])
          (Invalid [MLit ''condition name '', MDbg name,
             MLit '' starts a THRU range with no value before it''])
          (condition_values name values True rest)
      else if in_range then
        condition_values name
          (if values = [] then []
           else butlast values @ [(last values)\<lparr>cv_high := Some (unquote spelling)\<rparr>]) False rest
      else condition_values name (values @ [condition_literal (unquote spelling)]) False rest)"

definition parse_condition :: "statement \<Rightarrow> rstr list \<Rightarrow> parse_error + condition_name" where
  "parse_condition st tokens =
     (case st of
        _ # name # _ \<Rightarrow>
          guard (is_clause_keyword (tokens ! 1))
            (Invalid [MLit ''the level-88 entry '', MDbg (join [32] st),
               MLit '' starts with a clause where its name should be'']) (
          let after = dropWhile (\<lambda>(token, _). \<not> one_of [''VALUE'', ''VALUES''] token) (zip tokens st) in
          guard (after = [])
            (Invalid [MLit ''condition name '', MDbg name,
               MLit '' has no VALUE clause, so it names no values'']) (
          rbind (condition_values name [] False (tl after)) (\<lambda>(values, in_range).
          guard (in_range \<or> values = [])
            (Invalid [MLit ''the VALUE clause of condition name '', MDbg name,
               MLit '' is incomplete''])
            (Inr \<lparr>cn_name = name, cn_values = values\<rparr>))))
      | _ \<Rightarrow> Inl (Invalid [MLit ''a level-88 entry declares no condition name'']))"

subsection \<open>Data items\<close>

definition label_of :: "rstr option \<Rightarrow> rstr" where
  "label_of name = (case name of None \<Rightarrow> FILLER | Some n \<Rightarrow> n)"

definition skip_is :: "rstr list \<Rightarrow> rstr list" where
  "skip_is tokens =
     (case tokens of t # rest \<Rightarrow> if t = lit ''IS'' then rest else tokens | [] \<Rightarrow> [])"

definition uses :: "rstr option \<Rightarrow> rstr \<Rightarrow> msg \<Rightarrow> parse_error" where
  "uses name token reason =
     Unsupported ([MLit ''copybook item '', MDbg (label_of name), MLit '' uses '', MStr token,
       MLit '': ''] @ reason)"

definition usage_clause :: "rstr option \<Rightarrow> rstr \<Rightarrow> parse_error + usage" where
  "usage_clause name clause =
     (case refused clause of
        Some reason \<Rightarrow> Inl (uses name clause reason)
      | None \<Rightarrow>
          ok_or (Unsupported [MLit ''USAGE '', MStr clause,
                   MLit '' is not a usage this build decodes''])
            (usage_of clause))"

definition occurs_clause :: "rstr option \<Rightarrow> rstr list \<Rightarrow> parse_error + nat" where
  "occurs_clause name tokens =
     rbind (ok_or (Invalid [MLit ''OCCURS clause of '', MDbg (label_of name),
                     MLit '' has no repeat count''])
              (case tokens of [] \<Rightarrow> None | t # _ \<Rightarrow> parse_unsigned u32_max t)) (\<lambda>count.
     guard (count = 0 \<or> MAX_OCCURS < count)
       (Invalid [MLit ''OCCURS '', MNat count, MLit '' is outside the supported range 1..='',
          MNat MAX_OCCURS])
       (Inr count))"

lemma length_skip_is: "length (skip_is tokens) \<le> length tokens"
  by (simp add: skip_is_def split: list.split)

function parse_clauses ::
  "rstr option \<Rightarrow> rstr option \<Rightarrow> usage option \<Rightarrow> nat option \<Rightarrow> rstr list \<Rightarrow>
     parse_error + (rstr option \<times> usage option \<times> nat option)" where
  "parse_clauses name picture usage occurs [] = Inr (picture, usage, occurs)"
| "parse_clauses name picture usage occurs (token # rest) =
     (case refused token of
        Some reason \<Rightarrow> Inl (uses name token reason)
      | None \<Rightarrow>
          if one_of [''PIC'', ''PICTURE''] token then
            (case skip_is rest of
               [] \<Rightarrow> Inl (Invalid [MLit ''PICTURE clause of '', MDbg (label_of name),
                        MLit '' has no picture string''])
             | clause # rest' \<Rightarrow> parse_clauses name (Some clause) usage occurs rest')
          else if one_of [''USAGE''] token then
            (case skip_is rest of
               [] \<Rightarrow> Inl (Invalid [MLit ''USAGE clause of '', MDbg (label_of name),
                        MLit '' names no usage''])
             | clause # rest' \<Rightarrow>
                 rbind (usage_clause name clause) (\<lambda>u.
                 parse_clauses name picture (Some u) occurs rest'))
          else if one_of [''OCCURS''] token then
            rbind (occurs_clause name rest) (\<lambda>count.
            parse_clauses name picture usage (Some count) (drop 1 rest))
          else if usage_of token \<noteq> None then
            parse_clauses name picture (usage_of token) occurs rest
          else if ignorable token then
            (if one_of [''VALUE'', ''VALUES''] token
             then Inr (picture, usage, occurs)
             else parse_clauses name picture usage occurs rest)
          else Inl (Invalid [MLit ''unrecognized clause '', MDbg token, MLit '' in copybook item '',
                 MDbg (label_of name)]))"
  by pat_completeness auto
termination
proof (relation "measure (\<lambda>(_, _, _, _, tokens). length tokens)")
  show "wf (measure (\<lambda>(_ :: rstr option, _ :: rstr option, _ :: usage option, _ :: nat option,
      tokens :: rstr list). length tokens))" by simp
  show "((name, Some clause, usage, occurs, rest'), name, picture, usage, occurs, token # rest)
      \<in> measure (\<lambda>(_, _, _, _, tokens). length tokens)"
    if "skip_is rest = clause # rest'" for name picture usage occurs token rest clause rest'
    using length_skip_is [of rest] that by simp
  show "((name, picture, Some u, occurs, rest'), name, picture, usage, occurs, token # rest)
      \<in> measure (\<lambda>(_, _, _, _, tokens). length tokens)"
    if "skip_is rest = clause # rest'" for name picture usage occurs token rest clause rest' u
    using length_skip_is [of rest] that by simp
qed auto

definition item_tokens :: "statement \<Rightarrow> rstr list \<Rightarrow> rstr option \<times> rstr list" where
  "item_tokens st tokens =
     (case drop 1 tokens of
        [] \<Rightarrow> (None, [])
      | token # rest \<Rightarrow>
          if is_clause_keyword token then (None, token # rest)
          else (if token \<noteq> lit ''FILLER'' then Some (st ! 1) else None, rest))"

definition parse_item :: "statement \<Rightarrow> parse_error + parsed" where
  "parse_item st =
     (let tokens = map to_uppercase st in
      rbind (ok_or (Invalid [MLit ''expected a level number at the start of '', MDbg (join [32] st),
                      MLit '', found '', MDbg (st ! 0)])
               (parse_unsigned 255 (tokens ! 0))) (\<lambda>level.
      if level = 88 then rbind (parse_condition st tokens) (\<lambda>c. Inr (ParsedCondition c))
      else if level = 66 then
        Inl (Unsupported [MLit ''level-66 RENAMES regroups fields that are already described''])
      else guard (\<not> ((1 \<le> level \<and> level \<le> 49) \<or> level = 77))
        (Invalid [MLit ''level '', MNat level, MLit '' is not a data-description level number'']) (
      let (name, rest) = item_tokens st tokens in
      rbind (parse_clauses name None None None rest) (\<lambda>(picture, usage, occurs).
      Inr (ParsedItem \<lparr>item_level = level, item_name = name, item_picture = picture,
             item_usage = (case usage of None \<Rightarrow> UDisplay | Some u \<Rightarrow> u),
             item_occurs = occurs, item_conditions = []\<rparr>)))))"

end
