(* ===== verification/Copybook.thy ===== *)
theory Copybook
  imports Copybook_Items
begin

section \<open>Items to fields: the copybook compiler\<close>

text \<open>
  The rest of \<^verbatim>\<open>src/copybook.rs\<close>: \<open>collect\<close> is the loop of \<^verbatim>\<open>compile\<close> over the
  statements, \<open>flatten\<close> the walk over the level tree, and \<open>compile\<close> the checks around them. The
  state of the walk is the groups that are open, the bytes and condition values so far, and the
  fields emitted.
\<close>

definition MAX_CONDITION_VALUES :: nat where
  "MAX_CONDITION_VALUES = 262144"

subsection \<open>Collecting items\<close>

fun collect :: "item list \<Rightarrow> statement list \<Rightarrow> parse_error + item list" where
  "collect items [] = Inr items"
| "collect items (st # rest) =
     rbind (parse_item st) (\<lambda>parsed.
     case parsed of
       ParsedItem i \<Rightarrow> collect (items @ [i]) rest
     | ParsedCondition c \<Rightarrow>
         guard (items = [])
           (Invalid [MLit ''condition name '', MDbg (cn_name c),
              MLit '' comes before any data item to qualify''])
           (collect (butlast items @
              [(last items)\<lparr>item_conditions := item_conditions (last items) @ [c]\<rparr>]) rest))"

subsection \<open>Flattening\<close>

definition is_group :: "item \<Rightarrow> item list \<Rightarrow> bool" where
  "is_group i rest =
     (case rest of [] \<Rightarrow> False | next # _ \<Rightarrow> item_level i < item_level next \<and> item_level i \<noteq> 77)"

definition group_error :: "item \<Rightarrow> parse_error option" where
  "group_error i =
     (if item_picture i \<noteq> None then
        Some (Invalid [MLit ''item '', MDbg (label_of (item_name i)),
          MLit '' has both a PICTURE clause and subordinate items''])
      else if item_occurs i \<noteq> None then
        Some (Unsupported [MLit ''OCCURS on the group item '', MDbg (label_of (item_name i)),
          MLit '' is not supported; put it on the elementary items instead''])
      else None)"

text \<open>\<^verbatim>\<open>qualify\<close>: the open groups, outermost first, and the leaf, joined by dots.\<close>

definition qualify :: "item \<Rightarrow> (nat \<times> rstr) list \<Rightarrow> rstr \<Rightarrow> rstr" where
  "qualify i groups leaf =
     (if item_name i = None then [] else concat (map (\<lambda>(_, g). g @ [46]) groups) @ leaf)"

definition leaf_name :: "item \<Rightarrow> nat \<Rightarrow> rstr" where
  "leaf_name i occurrence =
     (case item_name i of
        None \<Rightarrow> []
      | Some name \<Rightarrow>
          if item_occurs i \<noteq> None then name @ [40] @ render_nat occurrence @ [41] else name)"

definition occurrence_field ::
  "item \<Rightarrow> (nat \<times> rstr) list \<Rightarrow> rstr \<Rightarrow> described \<Rightarrow> nat \<Rightarrow> raw_field" where
  "occurrence_field i groups picture d occurrence =
     \<lparr>raw_name = leaf_name i occurrence, raw_size = described_size d,
      raw_kind = (if item_name i = None then KSkip else described_kind d),
      raw_scale = described_scale d, raw_picture = picture, raw_offset = None,
      raw_declaration =
        \<lparr>decl_level = Some (item_level i), decl_path = qualify i groups (leaf_name i occurrence),
         decl_occurs_index = map_option (\<lambda>_. occurrence) (item_occurs i),
         decl_occurs_group = (if item_occurs i = None then None else item_name i),
         decl_conditions = item_conditions i\<rparr>\<rparr>"

definition occurrences_of :: "item \<Rightarrow> nat" where
  "occurrences_of i = (case item_occurs i of None \<Rightarrow> 1 | Some n \<Rightarrow> n)"

definition condition_weight :: "item \<Rightarrow> nat" where
  "condition_weight i = sum_list (map (\<lambda>c. 1 + length (cn_values c)) (item_conditions i))"

text \<open>One elementary item: the bytes and condition values it brings the record to, its fields.\<close>

definition elementary ::
  "item \<Rightarrow> (nat \<times> rstr) list \<Rightarrow> nat \<Rightarrow> nat \<Rightarrow> nat \<Rightarrow> parse_error + (nat \<times> nat \<times> raw_field list)" where
  "elementary i groups record_bytes condition_count emitted =
     (let label = label_of (item_name i); occurrences = occurrences_of i in
      rbind (ok_or (Invalid [MLit ''elementary item '', MDbg label,
                      MLit '' has no PICTURE clause'']) (item_picture i)) (\<lambda>picture.
      rbind (describe picture (item_usage i) (item_name i)) (\<lambda>d.
      let record_bytes = record_bytes + described_size d * occurrences;
          condition_count = condition_count + condition_weight i * occurrences in
      guard (MAX_RECORD_BYTES < record_bytes)
        (Unsupported [MLit ''the record reaches '', MNat record_bytes, MLit '' bytes at '',
           MDbg label, MLit ''; this build decodes records up to '', MNat MAX_RECORD_BYTES,
           MLit '' bytes'']) (
      guard (MAX_LAYOUT_FIELDS < emitted + occurrences)
        (Unsupported [MLit ''the record expands to more than '', MNat MAX_LAYOUT_FIELDS,
           MLit '' fields at '', MDbg label, MLit ''; this build accepts at most '',
           MNat MAX_LAYOUT_FIELDS]) (
      guard (MAX_CONDITION_VALUES < condition_count)
        (Unsupported [MLit ''the record's level-88 conditions expand to more than '',
           MNat MAX_CONDITION_VALUES, MLit '' values at '', MDbg label,
           MLit ''; this build accepts at most '', MNat MAX_CONDITION_VALUES])
      (Inr (record_bytes, condition_count,
            map (occurrence_field i groups picture d) [1..<occurrences + 1])))))))"

fun flatten ::
  "(nat \<times> rstr) list \<Rightarrow> nat \<Rightarrow> nat \<Rightarrow> raw_field list \<Rightarrow> item list \<Rightarrow> parse_error + raw_field list"
where
  "flatten groups record_bytes condition_count out [] = Inr out"
| "flatten groups record_bytes condition_count out (i # rest) =
     (let groups = filter (\<lambda>(level, _). level < item_level i) groups in
      if is_group i rest then
        (case group_error i of
           Some e \<Rightarrow> Inl e
         | None \<Rightarrow> flatten (groups @ [(item_level i, label_of (item_name i))])
                     record_bytes condition_count out rest)
      else
        rbind (elementary i groups record_bytes condition_count (length out))
          (\<lambda>(record_bytes, condition_count, fields).
        flatten groups record_bytes condition_count (out @ fields) rest))"

subsection \<open>Compiling\<close>

definition is_root :: "item \<Rightarrow> bool" where
  "is_root i = (item_level i = 1 \<or> item_level i = 77)"

definition compile :: "rstr \<Rightarrow> parse_error + raw_layout" where
  "compile source =
     rbind (statements source) (\<lambda>sts.
     guard (sts = [])
       (Invalid [MLit ''the copybook has no data descriptions; a copybook is a list of '',
          MLit ''level-numbered items such as `01 REC.  05 NAME PIC X(20).`'']) (
     rbind (collect [] sts) (\<lambda>items.
     guard (items = [])
       (Invalid [MLit ''the copybook declares no storage: every item in it is a level-88 '',
          MLit ''condition name'']) (
     let roots = length (filter is_root items) in
     guard (roots = 0)
       (Invalid [MLit ''the copybook has no 01-level record description'']) (
     guard (1 < roots)
       (Unsupported [MLit ''the copybook describes more than one 01-level record. Multi-schema '',
          MLit ''files need a record_type_field and per-schema selectors, which a copybook '',
          MLit ''cannot express; send ParseOptions.layout instead'']) (
     guard (\<not> is_root (items ! 0))
       (Invalid [MLit ''the copybook starts at level '', MNat02 (item_level (items ! 0)),
          MLit '' rather than 01'']) (
     let record_name = (case item_name (items ! 0) of None \<Rightarrow> lit ''record'' | Some n \<Rightarrow> n) in
     rbind (flatten [] 0 0 [] items) (\<lambda>fields.
     guard (fields = [])
       (Invalid [MLit ''record '', MDbg record_name, MLit '' has no elementary fields'']) (
     Inr \<lparr>raw_records = [\<lparr>raw_record_name = record_name, raw_fields = fields,
            raw_selector = None\<rparr>],
          raw_description = [], raw_header_size = 0, raw_footer_size = 0,
          raw_length_field = None, raw_type_field = None\<rparr>)))))))))"

text \<open>
  \<^verbatim>\<open>layout::resolve\<close>: the three request forms, each lifted to the raw layout and validated. The
  parameter stands for the JSON parser, as in \<open>from_json\<close>.
\<close>

definition resolve_layout ::
  "(u8 list \<Rightarrow> rstr + json_layout) \<Rightarrow> parse_options \<Rightarrow> parse_error + layout" where
  "resolve_layout parse options =
     (case po_layout_source options of
        None \<Rightarrow>
          Inl (Invalid [MLit ''an EBCDIC file is an opaque code page without its copybook: set '',
            MLit ''exactly one of ParseOptions.layout, ParseOptions.layout_json, or '',
            MLit ''ParseOptions.copybook''])
      | Some (LayoutForm l) \<Rightarrow> rbind (from_proto l) (\<lambda>raw. validate raw SourceProto)
      | Some (LayoutJson bytes) \<Rightarrow> rbind (from_json parse bytes) (\<lambda>raw. validate raw SourceJson)
      | Some (CopybookForm source) \<Rightarrow> rbind (compile source) (\<lambda>raw. validate raw SourceCopybook))"

end
