(* ===== verification/Copybook_Correct.thy ===== *)
theory Copybook_Correct
  imports Copybook
begin

section \<open>What the copybook compiler delivers\<close>

text \<open>
  Invariants of parsed items, the fields of a flattened record with their qualified paths and bounds,
  and the meeting with the validator: a compiled copybook passes it except for widths no decoder
  reads and names that are not unique.
\<close>

subsection \<open>Parsed items\<close>

definition wf_item :: "item \<Rightarrow> bool" where
  "wf_item i \<longleftrightarrow>
     ((1 \<le> item_level i \<and> item_level i \<le> 49) \<or> item_level i = 77) \<and>
     item_name i \<noteq> Some [] \<and>
     (\<forall>n \<in> set_option (item_occurs i). 1 \<le> n \<and> n \<le> MAX_OCCURS)"

lemma parse_clauses_occurs:
  "parse_clauses name picture usage occurs tokens = Inr (p, u, oc) \<Longrightarrow>
     \<forall>n \<in> set_option occurs. 1 \<le> n \<and> n \<le> MAX_OCCURS \<Longrightarrow>
     \<forall>n \<in> set_option oc. 1 \<le> n \<and> n \<le> MAX_OCCURS"
proof (induction name picture usage occurs tokens rule: parse_clauses.induct)
  case (1 name picture usage occurs)
  then show ?case by simp
next
  case (2 name picture usage occurs token rest)
  have nr: "refused token = None" using "2.prems"(1) by (simp split: option.splits)
  have oc: "1 \<le> n \<and> n \<le> MAX_OCCURS" if "occurs_clause name rest = Inr n" for n
    using that by (auto simp: occurs_clause_def result_simps)
  show ?case
    using "2.prems" nr "2.IH" [OF nr] oc
    by (auto simp: result_simps split: if_splits list.splits)
qed

lemma parse_item_wf:
  assumes "parse_item st = Inr (ParsedItem i)" and "[] \<notin> set st" and "st \<noteq> []"
  shows "wf_item i \<and> item_conditions i = []"
proof -
  let ?tokens = "map to_uppercase st"
  obtain level name rest p u oc where
    l: "\<not> \<not> ((1 \<le> level \<and> level \<le> 49) \<or> level = 77)"
    and n: "item_tokens st ?tokens = (name, rest)"
    and c: "parse_clauses name None None None rest = Inr (p, u, oc)"
    and i: "i = \<lparr>item_level = level, item_name = name, item_picture = p,
             item_usage = (case u of None \<Rightarrow> UDisplay | Some u \<Rightarrow> u),
             item_occurs = oc, item_conditions = []\<rparr>"
    using assms(1) by (auto simp: parse_item_def Let_def result_simps split: if_splits prod.splits)
  have "name \<noteq> Some []"
  proof
    assume "name = Some []"
    then have "1 < length st" "st ! 1 = []"
      using n by (auto simp: item_tokens_def split: list.splits if_splits)
        (metis One_nat_def Suc_lessI drop_eq_Nil length_map linorder_not_less list.distinct(1)
          not_less_eq_eq zero_less_Suc)+
    then show False using assms(2) nth_mem by metis
  qed
  with l parse_clauses_occurs [OF c] show ?thesis by (auto simp: wf_item_def i)
qed

subsection \<open>The level tree\<close>

text \<open>The level tree of a copybook: item \<open>j\<close> encloses item \<open>k\<close> when every item after \<open>j\<close> up to \<open>k\<close>
has a higher level number than \<open>j\<close>.\<close>

definition enclosing :: "item list \<Rightarrow> nat \<Rightarrow> nat list" where
  "enclosing items k =
     filter (\<lambda>j. \<forall>m \<in> set [Suc j..<Suc k]. item_level (items ! j) < item_level (items ! m)) [0..<k]"

definition group_of :: "item \<Rightarrow> nat \<times> rstr" where
  "group_of i = (item_level i, label_of (item_name i))"

definition groups_at :: "item list \<Rightarrow> nat \<Rightarrow> (nat \<times> rstr) list" where
  "groups_at items k = map (\<lambda>j. group_of (items ! j)) (enclosing items k)"

definition is_leaf :: "item list \<Rightarrow> nat \<Rightarrow> bool" where
  "is_leaf items k = (\<not> is_group (items ! k) (drop (Suc k) items))"

lemma enclosing_Suc:
  "enclosing items (Suc k) =
     filter (\<lambda>j. item_level (items ! j) < item_level (items ! Suc k)) (enclosing items k @ [k])"
proof -
  have *: "(\<forall>m \<in> set [Suc j..<Suc (Suc k)]. P m) \<longleftrightarrow>
      (\<forall>m \<in> set [Suc j..<Suc k]. P m) \<and> P (Suc k)" if "j \<le> k" for j P
    using that by (auto simp: le_Suc_eq)
  have "filter (\<lambda>j. \<forall>m \<in> set [Suc j..<Suc (Suc k)]. item_level (items ! j) < item_level (items ! m))
      [0..<Suc k] =
    filter (\<lambda>j. (\<forall>m \<in> set [Suc j..<Suc k]. item_level (items ! j) < item_level (items ! m)) \<and>
      item_level (items ! j) < item_level (items ! Suc k)) [0..<Suc k]"
    by (rule filter_cong [OF refl], rule *) auto
  also have "\<dots> = filter (\<lambda>j. item_level (items ! j) < item_level (items ! Suc k))
      (filter (\<lambda>j. \<forall>m \<in> set [Suc j..<Suc k]. item_level (items ! j) < item_level (items ! m))
        [0..<Suc k])"
    by (simp only: filter_filter conj_commute)
  finally show ?thesis by (simp add: enclosing_def)
qed

text \<open>The walk without its checks: every item with the groups open above it.\<close>

fun placed :: "(nat \<times> rstr) list \<Rightarrow> item list \<Rightarrow> (item \<times> (nat \<times> rstr) list \<times> bool) list" where
  "placed groups [] = []"
| "placed groups (i # rest) =
     (let groups = filter (\<lambda>(level, _). level < item_level i) groups in
      (i, groups, is_group i rest) #
      placed (if is_group i rest then groups @ [group_of i] else groups) rest)"

lemma placed_from:
  assumes "k < length items"
    and "filter (\<lambda>(level, _). level < item_level (items ! k)) groups = groups_at items k"
    and "\<forall>i \<in> set items. item_level i \<le> 77"
  shows "placed groups (drop k items) =
    map (\<lambda>k. (items ! k, groups_at items k, \<not> is_leaf items k)) [k..<length items]"
  using assms
proof (induction "length items - k" arbitrary: k groups)
  case (Suc n)
  let ?g = "if is_leaf items k then groups_at items k else groups_at items k @ [group_of (items ! k)]"
  have d: "drop k items = items ! k # drop (Suc k) items"
    using Suc.prems(1) by (simp add: Cons_nth_drop_Suc)
  have p: "placed groups (drop k items) =
      (items ! k, groups_at items k, \<not> is_leaf items k) # placed ?g (drop (Suc k) items)"
    using Suc.prems(2) by (simp add: d is_leaf_def Let_def)
  show ?case
  proof (cases "Suc k < length items")
    case True
    then have nx: "drop (Suc k) items = items ! Suc k # drop (Suc (Suc k)) items"
      by (simp add: Cons_nth_drop_Suc)
    have lev: "item_level (items ! k) < item_level (items ! Suc k) \<longleftrightarrow> \<not> is_leaf items k"
      using Suc.prems(3) nth_mem [OF True]
      by (fastforce simp: is_leaf_def is_group_def nx)
    have "filter (\<lambda>(level, _). level < item_level (items ! Suc k)) ?g = groups_at items (Suc k)"
      using lev by (auto simp: groups_at_def enclosing_Suc filter_map comp_def group_of_def)
    with Suc.hyps(1) [of "Suc k"] Suc.hyps(2) Suc.prems True
    have "placed ?g (drop (Suc k) items) =
      map (\<lambda>k. (items ! k, groups_at items k, \<not> is_leaf items k)) [Suc k..<length items]" by simp
    with p Suc.prems(1) show ?thesis by (simp add: upt_conv_Cons)
  next
    case False
    with Suc.prems(1) have "length items = Suc k" by simp
    with p show ?thesis by simp
  qed
qed simp

lemma placed_items:
  assumes "\<forall>i \<in> set items. item_level i \<le> 77"
  shows "placed [] items =
    map (\<lambda>k. (items ! k, groups_at items k, \<not> is_leaf items k)) [0..<length items]"
proof (cases "items = []")
  case False
  then show ?thesis
    using placed_from [of 0 items "[]"] assms by (simp add: groups_at_def enclosing_def)
qed simp

subsection \<open>The walk against the tree\<close>

definition item_described :: "item \<Rightarrow> (rstr \<times> described) option" where
  "item_described i =
     (case item_picture i of
        None \<Rightarrow> None
      | Some picture \<Rightarrow>
          (case describe picture (item_usage i) (item_name i) of
             Inl _ \<Rightarrow> None
           | Inr d \<Rightarrow> Some (picture, d)))"

definition item_fields :: "item \<Rightarrow> (nat \<times> rstr) list \<Rightarrow> raw_field list" where
  "item_fields i groups =
     (case item_described i of
        None \<Rightarrow> []
      | Some (picture, d) \<Rightarrow> map (occurrence_field i groups picture d) [1..<occurrences_of i + 1])"

definition item_weight :: "item \<Rightarrow> nat" where
  "item_weight i = condition_weight i * occurrences_of i"

definition bytes_of :: "raw_field list \<Rightarrow> nat" where
  "bytes_of fs = sum_list (map raw_size fs)"

lemma bytes_of_append [simp]: "bytes_of (xs @ ys) = bytes_of xs + bytes_of ys"
  by (simp add: bytes_of_def)

lemma bytes_of_item:
  "item_described i = Some (picture, d) \<Longrightarrow>
     bytes_of (item_fields i groups) = described_size d * occurrences_of i"
  by (simp add: bytes_of_def item_fields_def comp_def occurrence_field_def sum_list_triv)

lemma length_item_fields:
  "item_described i \<noteq> None \<Longrightarrow> length (item_fields i groups) = occurrences_of i"
  by (auto simp: item_fields_def)

lemma elementary_Inr:
  "elementary i groups bytes weight n = Inr (bytes', weight', fs) \<longleftrightarrow>
     item_described i \<noteq> None \<and> fs = item_fields i groups \<and>
     bytes' = bytes + bytes_of fs \<and> bytes' \<le> MAX_RECORD_BYTES \<and>
     weight' = weight + item_weight i \<and> weight' \<le> MAX_CONDITION_VALUES \<and>
     n + length fs \<le> MAX_LAYOUT_FIELDS"
proof (cases "item_described i")
  case None
  then show ?thesis
    by (auto simp: elementary_def Let_def result_simps item_described_def
        split: option.splits sum.splits)
next
  case (Some pd)
  obtain p d where pd: "pd = (p, d)" by (cases pd)
  have "item_picture i = Some p" "describe p (item_usage i) (item_name i) = Inr d"
    using Some by (auto simp: item_described_def pd split: option.splits sum.splits)
  then have e: "elementary i groups bytes weight n = Inr (bytes', weight', fs) \<longleftrightarrow>
      bytes' = bytes + described_size d * occurrences_of i \<and> bytes' \<le> MAX_RECORD_BYTES \<and>
      n + occurrences_of i \<le> MAX_LAYOUT_FIELDS \<and>
      weight' = weight + item_weight i \<and> weight' \<le> MAX_CONDITION_VALUES \<and>
      fs = map (occurrence_field i groups p d) [1..<occurrences_of i + 1]"
    by (auto simp: elementary_def Let_def result_simps item_weight_def not_less
        simp del: upt_Suc)
  have f: "item_fields i groups = map (occurrence_field i groups p d) [1..<occurrences_of i + 1]"
    by (simp add: item_fields_def Some pd)
  show ?thesis
    unfolding e f [symmetric]
    using Some bytes_of_item [of i p d groups] length_item_fields [of i groups] by (auto simp: pd)
qed

definition placed_fields :: "(item \<times> (nat \<times> rstr) list \<times> bool) list \<Rightarrow> raw_field list" where
  "placed_fields ps = concat (map (\<lambda>(i, groups, g). if g then [] else item_fields i groups) ps)"

definition placed_weight :: "(item \<times> (nat \<times> rstr) list \<times> bool) list \<Rightarrow> nat" where
  "placed_weight ps = sum_list (map (\<lambda>(i, groups, g). if g then 0 else item_weight i) ps)"

definition placed_ok :: "(item \<times> (nat \<times> rstr) list \<times> bool) list \<Rightarrow> bool" where
  "placed_ok ps =
     (\<forall>(i, groups, g) \<in> set ps. if g then group_error i = None else item_described i \<noteq> None)"

lemma placed_simps [simp]:
  "placed_fields [] = []" "placed_weight [] = 0" "placed_ok []"
  "placed_fields ((i, groups, g) # ps) =
     (if g then placed_fields ps else item_fields i groups @ placed_fields ps)"
  "placed_weight ((i, groups, g) # ps) =
     (if g then placed_weight ps else item_weight i + placed_weight ps)"
  "placed_ok ((i, groups, g) # ps) \<longleftrightarrow>
     (if g then group_error i = None else item_described i \<noteq> None) \<and> placed_ok ps"
  by (simp_all add: placed_fields_def placed_weight_def placed_ok_def)

lemma flatten_placed:
  assumes "bytes \<le> MAX_RECORD_BYTES" and "weight \<le> MAX_CONDITION_VALUES"
    and "length out \<le> MAX_LAYOUT_FIELDS"
  shows "flatten groups bytes weight out items = Inr res \<longleftrightarrow>
    placed_ok (placed groups items) \<and>
    bytes + bytes_of (placed_fields (placed groups items)) \<le> MAX_RECORD_BYTES \<and>
    weight + placed_weight (placed groups items) \<le> MAX_CONDITION_VALUES \<and>
    length out + length (placed_fields (placed groups items)) \<le> MAX_LAYOUT_FIELDS \<and>
    res = out @ placed_fields (placed groups items)"
  using assms
proof (induction items arbitrary: groups bytes weight out)
  case Nil
  then show ?case by (auto simp: bytes_of_def)
next
  case (Cons i rest)
  let ?g = "filter (\<lambda>(level, _). level < item_level i) groups"
  show ?case
  proof (cases "is_group i rest")
    case True
    then show ?thesis
      using Cons.IH [OF Cons.prems, of "?g @ [group_of i]"]
      by (simp add: Let_def group_of_def split: option.split)
  next
    case False
    show ?thesis
    proof (cases "\<exists>b w f. elementary i ?g bytes weight (length out) = Inr (b, w, f)")
      case True
      then obtain b w f where e: "elementary i ?g bytes weight (length out) = Inr (b, w, f)" by blast
      note E = e [unfolded elementary_Inr]
      have "flatten groups bytes weight out (i # rest) = flatten ?g b w (out @ f) rest"
        using False by (simp add: Let_def e)
      moreover have "length (out @ f) \<le> MAX_LAYOUT_FIELDS" using E by auto
      ultimately show ?thesis
        using Cons.IH [of b w "out @ f" ?g] E False by (auto simp: Let_def)
    next
      case bad: False
      then obtain x where "elementary i ?g bytes weight (length out) = Inl x"
        by (cases "elementary i ?g bytes weight (length out)") auto
      then have "flatten groups bytes weight out (i # rest) \<noteq> Inr res"
        using False by (simp add: Let_def)
      moreover have "\<not> (item_described i \<noteq> None \<and>
          bytes + bytes_of (item_fields i ?g) \<le> MAX_RECORD_BYTES \<and>
          weight + item_weight i \<le> MAX_CONDITION_VALUES \<and>
          length out + length (item_fields i ?g) \<le> MAX_LAYOUT_FIELDS)"
        using bad by (simp add: elementary_Inr)
      ultimately show ?thesis using False by (auto simp: Let_def)
    qed
  qed
qed

subsection \<open>Items with their conditions\<close>

definition unfold_item :: "item \<Rightarrow> parsed list" where
  "unfold_item i =
     ParsedItem (i\<lparr>item_conditions := []\<rparr>) # map ParsedCondition (item_conditions i)"

definition unfold_items :: "item list \<Rightarrow> parsed list" where
  "unfold_items items = concat (map unfold_item items)"

lemma unfold_items_simps [simp]:
  "unfold_items [] = []" "unfold_items (i # items) = unfold_item i @ unfold_items items"
  "unfold_items (xs @ ys) = unfold_items xs @ unfold_items ys"
  by (simp_all add: unfold_items_def)

lemma unfold_item_snoc:
  "unfold_item (i\<lparr>item_conditions := item_conditions i @ [c]\<rparr>) = unfold_item i @ [ParsedCondition c]"
  by (simp add: unfold_item_def)

lemma unfold_items_conditions:
  "takeWhile (\<lambda>p. \<exists>c. p = ParsedCondition c) (map ParsedCondition cs @ unfold_items items) =
     map ParsedCondition cs"
  by (cases items) (simp_all add: takeWhile_append2 unfold_item_def takeWhile_append)

lemma unfold_items_inject: "unfold_items xs = unfold_items ys \<longleftrightarrow> xs = ys"
proof (induction xs arbitrary: ys)
  case Nil
  show ?case by (cases ys) (simp_all add: unfold_item_def)
next
  case (Cons x xs)
  show ?case
  proof (cases ys)
    case Nil
    then show ?thesis by (simp add: unfold_item_def)
  next
    case (Cons y zs)
    have "x = y \<and> xs = zs" if "unfold_items (x # xs) = unfold_items (y # zs)"
    proof -
      have h: "x\<lparr>item_conditions := []\<rparr> = y\<lparr>item_conditions := []\<rparr>"
        and t: "map ParsedCondition (item_conditions x) @ unfold_items xs =
          map ParsedCondition (item_conditions y) @ unfold_items zs"
        using that by (simp_all add: unfold_item_def)
      have "map ParsedCondition (item_conditions x) = map ParsedCondition (item_conditions y)"
        using unfold_items_conditions t by metis
      then have c: "item_conditions x = item_conditions y"
        by (simp add: inj_map_eq_map inj_def)
      with h have "x = y" by (cases x, cases y) simp
      with t Cons.IH show ?thesis by simp
    qed
    with Cons show ?thesis by auto
  qed
qed

lemma parse_item_bare:
  "parse_item st = Inr (ParsedItem i) \<Longrightarrow> item_conditions i = []"
  by (auto simp: parse_item_def Let_def result_simps split: if_splits prod.splits)

lemma unfold_items_condition:
  assumes "items \<noteq> []"
  shows "unfold_items (butlast items @
      [(last items)\<lparr>item_conditions := item_conditions (last items) @ [c]\<rparr>]) =
    unfold_items items @ [ParsedCondition c]"
proof -
  have "items = butlast items @ [last items]" using assms by simp
  then show ?thesis
    unfolding unfold_items_simps unfold_item_snoc by (metis append.assoc append_Nil2 unfold_items_simps)
qed

lemma collect_unfold:
  "collect items sts = Inr res \<longleftrightarrow>
     (\<exists>ps. rmap parse_item sts = Inr ps \<and> unfold_items res = unfold_items items @ ps)"
proof (induction sts arbitrary: items)
  case Nil
  show ?case using unfold_items_inject by auto
next
  case (Cons st rest)
  show ?case
  proof (cases "parse_item st")
    case (Inl e)
    then show ?thesis by simp
  next
    case (Inr p)
    show ?thesis
    proof (cases p)
      case (ParsedItem i)
      then have "unfold_item i = [ParsedItem i]"
        using Inr parse_item_bare by (simp add: unfold_item_def)
      with Inr ParsedItem Cons.IH [of "items @ [i]"] show ?thesis
        by (auto simp: result_simps)
    next
      case (ParsedCondition c)
      show ?thesis
      proof (cases "items = []")
        case True
        have "ParsedCondition c # ps \<noteq> unfold_items res" for ps
          by (cases res) (simp_all add: unfold_item_def)
        then have "\<not> (\<exists>ps. rmap parse_item (st # rest) = Inr ps \<and> unfold_items res = ps)"
          using Inr ParsedCondition by (auto simp: result_simps)
        with Inr ParsedCondition True show ?thesis by (simp add: guard_def)
      next
        case False
        let ?items = "butlast items @
          [(last items)\<lparr>item_conditions := item_conditions (last items) @ [c]\<rparr>]"
        from unfold_items_condition [OF False] Inr ParsedCondition False Cons.IH [of ?items] show ?thesis
          by (auto simp: result_simps)
      qed
    qed
  qed
qed

lemma collect_exact:
  "collect [] sts = Inr items \<longleftrightarrow> rmap parse_item sts = Inr (unfold_items items)"
  by (auto simp: collect_unfold)

lemma wf_item_conditions [simp]: "wf_item (i\<lparr>item_conditions := cs\<rparr>) = wf_item i"
  by (simp add: wf_item_def)

lemma collect_wf:
  assumes "statements source = Inr sts" and "collect [] sts = Inr items" and "i \<in> set items"
  shows "wf_item i"
proof -
  have "ParsedItem (i\<lparr>item_conditions := []\<rparr>) \<in> set (unfold_items items)"
    using assms(3) by (auto simp: unfold_items_def unfold_item_def)
  then obtain st where st: "st \<in> set sts"
    "parse_item st = Inr (ParsedItem (i\<lparr>item_conditions := []\<rparr>))"
    using assms(2) unfolding collect_exact rmap_Inr_list_all2 list_all2_conv_all_nth
    by (metis in_set_conv_nth)
  then have "st \<noteq> []" "[] \<notin> set st"
    using statements_proper [OF assms(1)] by (auto simp: proper_def)
  with parse_item_wf [OF st(2)] show ?thesis by simp
qed

subsection \<open>What the compiler returns\<close>

definition leaves :: "item list \<Rightarrow> nat list" where
  "leaves items = filter (is_leaf items) [0..<length items]"

definition tree_fields :: "item list \<Rightarrow> raw_field list" where
  "tree_fields items = concat (map (\<lambda>k. item_fields (items ! k) (groups_at items k)) (leaves items))"

definition tree_ok :: "item list \<Rightarrow> bool" where
  "tree_ok items \<longleftrightarrow>
     (\<forall>k < length items. if is_leaf items k then item_described (items ! k) \<noteq> None
        else item_picture (items ! k) = None \<and> item_occurs (items ! k) = None) \<and>
     bytes_of (tree_fields items) \<le> MAX_RECORD_BYTES \<and>
     length (tree_fields items) \<le> MAX_LAYOUT_FIELDS \<and>
     sum_list (map (\<lambda>k. item_weight (items ! k)) (leaves items)) \<le> MAX_CONDITION_VALUES"

definition one_root :: "item list \<Rightarrow> bool" where
  "one_root items \<longleftrightarrow>
     items \<noteq> [] \<and> is_root (items ! 0) \<and> (\<forall>i \<in> set (tl items). \<not> is_root i)"

definition record_title :: "item \<Rightarrow> rstr" where
  "record_title i = (case item_name i of None \<Rightarrow> lit ''record'' | Some n \<Rightarrow> n)"

definition one_record :: "rstr \<Rightarrow> raw_field list \<Rightarrow> raw_layout" where
  "one_record name fs =
     \<lparr>raw_records = [\<lparr>raw_record_name = name, raw_fields = fs, raw_selector = None\<rparr>],
      raw_description = [], raw_header_size = 0, raw_footer_size = 0,
      raw_length_field = None, raw_type_field = None\<rparr>"

lemma concat_map_if:
  "concat (map (\<lambda>x. if P x then [] else f x) xs) = concat (map f (filter (\<lambda>x. \<not> P x) xs))"
  by (induction xs) simp_all

lemma sum_list_map_if:
  "sum_list (map (\<lambda>x. if P x then 0 else f x :: nat) xs) = sum_list (map f (filter (\<lambda>x. \<not> P x) xs))"
  by (induction xs) simp_all

lemma flatten_tree:
  assumes "\<forall>i \<in> set items. wf_item i"
  shows "flatten [] 0 0 [] items = Inr fs \<longleftrightarrow> tree_ok items \<and> fs = tree_fields items"
proof -
  have "\<forall>i \<in> set items. item_level i \<le> 77" using assms by (auto simp: wf_item_def)
  note P = placed_items [OF this]
  have f: "placed_fields (placed [] items) = tree_fields items"
    by (simp add: P placed_fields_def comp_def concat_map_if tree_fields_def leaves_def)
  have w: "placed_weight (placed [] items) = sum_list (map (\<lambda>k. item_weight (items ! k)) (leaves items))"
    by (simp add: P placed_weight_def comp_def sum_list_map_if leaves_def)
  have g: "group_error i = None \<longleftrightarrow> item_picture i = None \<and> item_occurs i = None" for i
    by (simp add: group_error_def)
  have ok: "placed_ok (placed [] items) \<longleftrightarrow>
      (\<forall>k < length items. if is_leaf items k then item_described (items ! k) \<noteq> None
        else item_picture (items ! k) = None \<and> item_occurs (items ! k) = None)"
    by (auto simp: P placed_ok_def g)
  show ?thesis
    using flatten_placed [of 0 0 "[]" "[]" items fs]
    by (auto simp: f w ok tree_ok_def)
qed

lemma one_root_iff:
  "items \<noteq> [] \<Longrightarrow> length (filter is_root items) \<noteq> 0 \<and> \<not> 1 < length (filter is_root items) \<and>
     is_root (items ! 0) \<longleftrightarrow> one_root items"
  by (cases items) (auto simp: one_root_def filter_empty_conv)

lemma compile_exact:
  "compile source = Inr raw \<longleftrightarrow>
     (\<exists>sts items. statements source = Inr sts \<and> rmap parse_item sts = Inr (unfold_items items) \<and>
        one_root items \<and> tree_ok items \<and> tree_fields items \<noteq> [] \<and>
        raw = one_record (record_title (items ! 0)) (tree_fields items))"
    (is "?L \<longleftrightarrow> ?R")
proof
  assume ?L
  then obtain sts items fs where s: "statements source = Inr sts" and c: "collect [] sts = Inr items"
    and i: "items \<noteq> []" "length (filter is_root items) \<noteq> 0" "\<not> 1 < length (filter is_root items)"
      "is_root (items ! 0)"
    and f: "flatten [] 0 0 [] items = Inr fs" "fs \<noteq> []"
    and r: "raw = one_record (record_title (items ! 0)) fs"
    unfolding compile_def Let_def rbind_Inr_iff guard_Inr_iff one_record_def record_title_def
    by auto
  have "tree_ok items \<and> fs = tree_fields items"
    using f collect_wf [OF s c] flatten_tree by blast
  with s c [unfolded collect_exact] one_root_iff [OF i(1)] i f r show ?R by blast
next
  assume ?R
  then obtain sts items where s: "statements source = Inr sts" and c: "collect [] sts = Inr items"
    and o: "one_root items" "tree_ok items" "tree_fields items \<noteq> []"
    and r: "raw = one_record (record_title (items ! 0)) (tree_fields items)"
    unfolding collect_exact by blast
  have "sts \<noteq> []" using c o by (auto simp: one_root_def)
  moreover have "flatten [] 0 0 [] items = Inr (tree_fields items)"
    using collect_wf [OF s c] flatten_tree o by blast
  moreover have "items \<noteq> []" using o by (simp add: one_root_def)
  ultimately show ?L
    using s c o one_root_iff [of items] unfolding r
    by (simp add: compile_def Let_def guard_def one_record_def record_title_def)
qed

subsection \<open>The compiler meets the validator\<close>

definition named :: "raw_field list \<Rightarrow> raw_field list" where
  "named fs = filter (\<lambda>f. raw_kind f \<noteq> KSkip) fs"

definition packable :: "raw_field \<Rightarrow> bool" where
  "packable f \<longleftrightarrow>
     raw_offset f = None \<and> 0 < raw_size f \<and>
     scale_ok (raw_kind f) (raw_size f) (raw_scale f) \<and> (raw_kind f \<noteq> KSkip \<longrightarrow> raw_name f \<noteq> [])"

lemma bytes_of_simps [simp]: "bytes_of [] = 0" "bytes_of (f # fs) = raw_size f + bytes_of fs"
  by (simp_all add: bytes_of_def)

definition placed_field :: "nat \<Rightarrow> raw_field \<Rightarrow> field" where
  "placed_field c raw =
     \<lparr>field_name = raw_name raw, field_offset = c, field_size = raw_size raw,
      field_kind = raw_kind raw, field_scale = raw_scale raw, field_picture = raw_picture raw,
      field_declaration = (raw_declaration raw)\<lparr>decl_path :=
          if decl_path (raw_declaration raw) = [] then raw_name raw
          else decl_path (raw_declaration raw)\<rparr>\<rparr>"

lemma validate_field_packable:
  assumes "packable raw"
  shows "validate_field name c ns raw = Inr (f, c', ns') \<longleftrightarrow>
     raw_size raw \<le> width_limit (raw_kind raw) \<and> c + raw_size raw \<le> MAX_RECORD_BYTES \<and>
     (raw_kind raw \<noteq> KSkip \<longrightarrow> raw_name raw \<notin> ns) \<and> f = placed_field c raw \<and>
     c' = c + raw_size raw \<and> ns' = (if raw_kind raw \<noteq> KSkip then insert (raw_name raw) ns else ns)"
  unfolding validate_field_Inr using assms
  by (cases f) (auto simp: packable_def wf_field_def keeps_def placed_field_def)

lemma validate_fields_packable:
  assumes "\<forall>raw \<in> set raws. packable raw" and "c + bytes_of raws \<le> MAX_RECORD_BYTES"
  shows "(\<exists>r. validate_fields name c ns raws = Inr r) \<longleftrightarrow>
     (\<forall>raw \<in> set raws. raw_size raw \<le> width_limit (raw_kind raw)) \<and>
     distinct (map raw_name (named raws)) \<and> raw_name ` set (named raws) \<inter> ns = {}"
  using assms
proof (induction raws arbitrary: c ns)
  case Nil
  show ?case by (simp add: named_def)
next
  case (Cons raw raws)
  let ?ns = "if raw_kind raw \<noteq> KSkip then insert (raw_name raw) ns else ns"
  have p: "packable raw" and c: "c + raw_size raw \<le> MAX_RECORD_BYTES" using Cons.prems by auto
  have IH: "(\<exists>r. validate_fields name (c + raw_size raw) ?ns raws = Inr r) \<longleftrightarrow>
      (\<forall>raw \<in> set raws. raw_size raw \<le> width_limit (raw_kind raw)) \<and>
      distinct (map raw_name (named raws)) \<and> raw_name ` set (named raws) \<inter> ?ns = {}"
    using Cons.prems by (intro Cons.IH) auto
  have "(\<exists>r. validate_fields name c ns (raw # raws) = Inr r) \<longleftrightarrow>
      (\<exists>f. validate_field name c ns raw = Inr (f, c + raw_size raw, ?ns)) \<and>
      (\<exists>r. validate_fields name (c + raw_size raw) ?ns raws = Inr r)"
    using validate_field_packable [OF p] by (auto simp: result_simps)
  also have "\<dots> \<longleftrightarrow> (raw_size raw \<le> width_limit (raw_kind raw) \<and>
      (raw_kind raw \<noteq> KSkip \<longrightarrow> raw_name raw \<notin> ns)) \<and>
      (\<exists>r. validate_fields name (c + raw_size raw) ?ns raws = Inr r)"
    using validate_field_packable [OF p] c by simp
  finally show ?case
    unfolding IH by (auto simp: named_def)
qed

lemma described_packable:
  assumes "item_described i = Some (picture, d)" and "item_name i \<noteq> Some []"
  shows "packable (occurrence_field i groups picture d n)"
proof -
  have "describe picture (item_usage i) (item_name i) = Inr d"
    using assms(1) by (auto simp: item_described_def split: option.splits sum.splits)
  from describe_scale_ok [OF this] assms(2) show ?thesis
    by (auto simp: packable_def occurrence_field_def leaf_name_def scale_ok_def
        split: option.splits)
qed

lemma tree_fields_packable:
  assumes "\<forall>i \<in> set items. wf_item i" and "f \<in> set (tree_fields items)"
  shows "packable f"
  using assms described_packable
  by (fastforce simp: tree_fields_def item_fields_def leaves_def wf_item_def
      split: option.splits)

lemma validate_one_record:
  assumes "fs \<noteq> []" and "length fs \<le> MAX_LAYOUT_FIELDS"
  shows "(\<exists>l. validate (one_record name fs) src = Inr l) \<longleftrightarrow>
    (\<exists>r. validate_fields (if name = [] then DEFAULT_RECORD_NAME else name) 0 {} fs = Inr r)"
  using assms
  by (simp add: validate_def one_record_def guard_def Let_def validate_record_def
      check_selector_def schema_name_def rbind_Inr_iff)

end
