(* ===== verification/Copybook_Roundtrip.thy ===== *)
theory Copybook_Roundtrip
  imports Copybook_Correct
begin

section \<open>Printing a copybook and compiling it again\<close>

text \<open>
  A printer for items and condition names, and the proof that the statement parser reads back what
  it prints. With the round trip of the lexer it gives the one for whole copybooks.
\<close>

subsection \<open>The printer\<close>

definition show_usage :: "usage \<Rightarrow> rstr list" where
  "show_usage u =
     (case u of
        UDisplay \<Rightarrow> []
      | UBinary \<Rightarrow> [lit ''USAGE'', lit ''IS'', lit ''COMP'']
      | UPacked \<Rightarrow> [lit ''COMP-3''])"

definition show_clauses :: "item \<Rightarrow> rstr list" where
  "show_clauses i =
     (case item_picture i of None \<Rightarrow> [] | Some p \<Rightarrow> [lit ''PIC'', p]) @
     (case item_occurs i of None \<Rightarrow> [] | Some n \<Rightarrow> [lit ''OCCURS'', render_nat n, lit ''TIMES'']) @
     show_usage (item_usage i)"

definition show_item :: "item \<Rightarrow> statement" where
  "show_item i = render_nat (item_level i) # label_of (item_name i) # show_clauses i"

definition quote :: "rstr \<Rightarrow> rstr" where
  "quote s = 39 # s @ [39]"

definition show_value :: "condition_value \<Rightarrow> rstr list" where
  "show_value v =
     quote (cv_low v) # (case cv_high v of None \<Rightarrow> [] | Some h \<Rightarrow> [lit ''THRU'', quote h])"

definition show_condition :: "condition_name \<Rightarrow> statement" where
  "show_condition c = lit ''88'' # cn_name c # lit ''VALUES'' # concat (map show_value (cn_values c))"

definition show_full :: "item \<Rightarrow> statement list" where
  "show_full i = show_item i # map show_condition (item_conditions i)"

text \<open>What can be printed: names that are not keywords, pictures in capitals.\<close>

definition plain_name :: "rstr \<Rightarrow> bool" where
  "plain_name n \<longleftrightarrow> \<not> is_clause_keyword (to_uppercase n)"

definition printable_condition :: "condition_name \<Rightarrow> bool" where
  "printable_condition c \<longleftrightarrow> plain_name (cn_name c) \<and> cn_values c \<noteq> []"

definition printable :: "item \<Rightarrow> bool" where
  "printable i \<longleftrightarrow>
     wf_item i \<and>
     (\<forall>n \<in> set_option (item_name i). plain_name n \<and> to_uppercase n \<noteq> FILLER) \<and>
     (\<forall>p \<in> set_option (item_picture i). to_uppercase p = p \<and> p \<noteq> lit ''IS'') \<and>
     (\<forall>c \<in> set (item_conditions i). printable_condition c)"

subsection \<open>Reading items back\<close>

lemmas keyword_defs = usage_of_def refused_def ignorable_def one_of_def lit_def

lemma keyword_facts [simp]:
  "refused (lit ''PIC'') = None" "refused (lit ''USAGE'') = None" "refused (lit ''OCCURS'') = None"
  "refused (lit ''COMP-3'') = None" "refused (lit ''COMP'') = None" "refused (lit ''TIMES'') = None"
  "usage_of (lit ''COMP-3'') = Some UPacked" "usage_of (lit ''COMP'') = Some UBinary"
  "usage_of (lit ''TIMES'') = None" "ignorable (lit ''TIMES'')"
  by (simp_all add: keyword_defs)

lemma to_uppercase_lit:
  "list_all (\<lambda>c. of_char c < (97 :: nat)) s \<Longrightarrow> to_uppercase (lit s) = lit s"
  by (rule to_uppercase_id) (auto simp: lit_def list_all_iff)

lemma to_uppercase_words [simp]:
  "to_uppercase (lit ''PIC'') = lit ''PIC''" "to_uppercase (lit ''USAGE'') = lit ''USAGE''"
  "to_uppercase (lit ''IS'') = lit ''IS''" "to_uppercase (lit ''COMP'') = lit ''COMP''"
  "to_uppercase (lit ''COMP-3'') = lit ''COMP-3''" "to_uppercase (lit ''OCCURS'') = lit ''OCCURS''"
  "to_uppercase (lit ''TIMES'') = lit ''TIMES''" "to_uppercase (lit ''THRU'') = lit ''THRU''"
  "to_uppercase (lit ''88'') = lit ''88''" "to_uppercase (lit ''VALUES'') = lit ''VALUES''"
  "to_uppercase FILLER = FILLER" "to_uppercase (lit ''FILLER'') = lit ''FILLER''"
  by (simp_all add: to_uppercase_lit FILLER_def)

lemma to_uppercase_render_nat [simp]: "to_uppercase (render_nat n) = render_nat n"
  by (rule to_uppercase_id) (auto dest!: render_nat_digits simp: is_ascii_digit_def)

lemma to_uppercase_quote: "to_uppercase (quote s) = quote (to_uppercase s)"
  by (simp add: quote_def to_uppercase_def upper_char_def)

lemma unquote_quote [simp]: "unquote (quote s) = s"
  by (simp add: unquote_def quote_def butlast_append)

lemma keyword_tests [simp]:
  "one_of [''PIC'', ''PICTURE''] (lit ''PIC'')"
  "\<not> one_of [''PIC'', ''PICTURE''] (lit ''USAGE'')" "one_of [''USAGE''] (lit ''USAGE'')"
  "\<not> one_of [''PIC'', ''PICTURE''] (lit ''OCCURS'')" "\<not> one_of [''USAGE''] (lit ''OCCURS'')"
  "one_of [''OCCURS''] (lit ''OCCURS'')"
  "\<not> one_of [''PIC'', ''PICTURE''] (lit ''TIMES'')" "\<not> one_of [''USAGE''] (lit ''TIMES'')"
  "\<not> one_of [''OCCURS''] (lit ''TIMES'')" "\<not> one_of [''VALUE'', ''VALUES''] (lit ''TIMES'')"
  "\<not> one_of [''PIC'', ''PICTURE''] (lit ''COMP-3'')" "\<not> one_of [''USAGE''] (lit ''COMP-3'')"
  "\<not> one_of [''OCCURS''] (lit ''COMP-3'')"
  by (simp_all add: one_of_def lit_def)

lemma skip_is_simps [simp]:
  "skip_is (lit ''IS'' # rest) = rest" "t \<noteq> lit ''IS'' \<Longrightarrow> skip_is (t # rest) = t # rest"
  by (simp_all add: skip_is_def)

declare parse_clauses.simps(2) [simp del]

lemma parse_picture_shown:
  assumes "p \<noteq> lit ''IS''"
  shows "parse_clauses name picture usage occurs (lit ''PIC'' # p # rest) =
    parse_clauses name (Some p) usage occurs rest"
  unfolding parse_clauses.simps(2) [of _ _ _ _ "lit ''PIC''"] using assms by simp

lemma parse_usage_shown:
  "parse_clauses name picture None occurs (show_usage u) =
     Inr (picture, if u = UDisplay then None else Some u, occurs)"
proof (cases u)
  case UBinary
  have "usage_clause name (lit ''COMP'') = Inr UBinary" by (simp add: usage_clause_def)
  then show ?thesis
    unfolding UBinary show_usage_def usage.simps parse_clauses.simps(2) [of _ _ _ _ "lit ''USAGE''"]
    by simp
next
  case UPacked
  show ?thesis
    unfolding UPacked show_usage_def usage.simps parse_clauses.simps(2) [of _ _ _ _ "lit ''COMP-3''"]
    by simp
qed (simp add: show_usage_def)

lemma parse_occurs_shown:
  assumes "1 \<le> n" and "n \<le> MAX_OCCURS"
  shows "parse_clauses name picture None occurs
      (lit ''OCCURS'' # render_nat n # lit ''TIMES'' # rest) =
    parse_clauses name picture None (Some n) rest"
proof -
  have "n \<le> u32_max" using assms by (simp add: MAX_OCCURS_def)
  then have "occurs_clause name (render_nat n # lit ''TIMES'' # rest) = Inr n"
    using assms by (simp add: occurs_clause_def parse_unsigned_render guard_def)
  then show ?thesis
    unfolding parse_clauses.simps(2) [of _ _ _ _ "lit ''OCCURS''"]
      by (simp add: parse_clauses.simps(2) [of _ _ _ _ "lit ''TIMES''"])
qed

lemma parse_clauses_shown:
  assumes "printable i"
  shows "parse_clauses name None None None (map to_uppercase (show_clauses i)) =
    Inr (item_picture i, if item_usage i = UDisplay then None else Some (item_usage i),
      item_occurs i)"
proof -
  have u: "map to_uppercase (show_usage u) = show_usage u" for u
    by (cases u) (simp_all add: show_usage_def)
  have occ: "parse_clauses name picture None None
      ((case item_occurs i of None \<Rightarrow> []
        | Some n \<Rightarrow> [lit ''OCCURS'', render_nat n, lit ''TIMES'']) @ show_usage (item_usage i)) =
    Inr (picture, if item_usage i = UDisplay then None else Some (item_usage i), item_occurs i)"
    for picture
    using assms by (cases "item_occurs i")
      (simp_all add: parse_usage_shown parse_occurs_shown printable_def wf_item_def)
  have m: "map to_uppercase (show_clauses i) = show_clauses i"
    using assms by (auto simp: show_clauses_def u printable_def split: option.splits)
  show ?thesis
  proof (cases "item_picture i")
    case None
    then show ?thesis unfolding m unfolding show_clauses_def using occ [of None] by simp
  next
    case (Some p)
    then have "p \<noteq> lit ''IS''" using assms by (simp add: printable_def)
    then show ?thesis
      unfolding m unfolding show_clauses_def using Some occ [of "Some p"] parse_picture_shown by simp
  qed
qed

lemma parse_item_shown:
  assumes "printable i"
  shows "parse_item (show_item i) = Inr (ParsedItem (i\<lparr>item_conditions := []\<rparr>))"
proof -
  let ?st = "show_item i" and ?n = "item_name i"
  have lv: "(1 \<le> item_level i \<and> item_level i \<le> 49) \<or> item_level i = 77"
    using assms by (simp add: printable_def wf_item_def)
  then have p: "parse_unsigned 255 (render_nat (item_level i)) = Some (item_level i)"
    by (intro parse_unsigned_render) auto
  have f: "\<not> is_clause_keyword FILLER"
    by (simp add: is_clause_keyword_def keyword_defs FILLER_def)
  have it: "item_tokens ?st (map to_uppercase ?st) = (?n, map to_uppercase (show_clauses i))"
    using assms f by (cases ?n)
      (auto simp: item_tokens_def show_item_def label_of_def printable_def plain_name_def FILLER_def)
  have "map to_uppercase ?st ! 0 = render_nat (item_level i)" by (simp add: show_item_def)
  with lv p it parse_clauses_shown [OF assms, of ?n] show ?thesis
    by (cases "item_usage i") (auto simp: parse_item_def Let_def guard_def)
qed

subsection \<open>Reading condition names back\<close>

lemma quote_not_word [simp]:
  "\<not> one_of [''IS'', ''ARE''] (quote s)" "\<not> one_of [''THRU'', ''THROUGH''] (quote s)"
  by (simp_all add: one_of_def lit_def quote_def)

lemma thru_word [simp]:
  "\<not> one_of [''IS'', ''ARE''] (lit ''THRU'')" "one_of [''THRU'', ''THROUGH''] (lit ''THRU'')"
  by (simp_all add: one_of_def lit_def)

abbreviation spelled :: "rstr list \<Rightarrow> (rstr \<times> rstr) list" where
  "spelled ts \<equiv> zip (map to_uppercase ts) ts"

lemma condition_value_shown:
  "condition_values name acc False (spelled (show_value v @ ts)) =
     condition_values name (acc @ [v]) False (spelled ts)"
  by (cases v; cases "cv_high v")
    (simp_all add: show_value_def to_uppercase_quote condition_literal_def guard_def)

lemma condition_values_shown:
  "condition_values name acc False (spelled (concat (map show_value vs))) =
     Inr (acc @ vs, False)"
proof (induction vs arbitrary: acc)
  case (Cons v vs)
  have "condition_values name acc False (spelled (concat (map show_value (v # vs)))) =
      condition_values name acc False (spelled (show_value v @ concat (map show_value vs)))"
    by simp
  also have "\<dots> = condition_values name (acc @ [v]) False (spelled (concat (map show_value vs)))"
    by (rule condition_value_shown)
  finally show ?case using Cons.IH [of "acc @ [v]"] by simp
qed simp

lemma parse_condition_shown:
  assumes "printable_condition c"
  shows "parse_condition (show_condition c) (map to_uppercase (show_condition c)) = Inr c"
proof -
  let ?n = "cn_name c" and ?rest = "concat (map show_value (cn_values c))"
  have n: "\<not> is_clause_keyword (to_uppercase ?n)" and v: "cn_values c \<noteq> []"
    using assms by (simp_all add: printable_condition_def plain_name_def)
  have w: "\<not> one_of [''VALUE'', ''VALUES''] (to_uppercase ?n)"
    using n by (auto simp: is_clause_keyword_def ignorable_def one_of_def)
  have k: "\<not> one_of [''VALUE'', ''VALUES''] (lit ''88'')" "one_of [''VALUE'', ''VALUES''] (lit ''VALUES'')"
    by (simp_all add: one_of_def lit_def)
  have d: "dropWhile (\<lambda>(token, _). \<not> one_of [''VALUE'', ''VALUES''] token)
      (spelled (show_condition c)) = (lit ''VALUES'', lit ''VALUES'') # spelled ?rest"
    using w k by (simp add: show_condition_def)
  have s: "show_condition c = lit ''88'' # ?n # lit ''VALUES'' # ?rest"
    by (simp add: show_condition_def)
  have t: "map to_uppercase (show_condition c) ! 1 = to_uppercase ?n"
    by (simp add: show_condition_def)
  show ?thesis
    unfolding parse_condition_def d t Let_def
    by (subst s) (simp add: n v guard_def condition_values_shown)
qed

lemma parse_condition_item_shown:
  assumes "printable_condition c"
  shows "parse_item (show_condition c) = Inr (ParsedCondition c)"
proof -
  have "parse_unsigned 255 (render_nat 88) = Some 88" by (rule parse_unsigned_render) simp
  moreover have "lit ''88'' = render_nat 88" by (simp add: render_nat.simps lit_def)
  moreover have "map to_uppercase (show_condition c) ! 0 = lit ''88''" by (simp add: show_condition_def)
  ultimately have "parse_unsigned 255 (map to_uppercase (show_condition c) ! 0) = Some 88" by simp
  with parse_condition_shown [OF assms] show ?thesis by (simp add: parse_item_def Let_def)
qed

lemma rmap_append:
  "rmap f xs = Inr us \<Longrightarrow> rmap f ys = Inr vs \<Longrightarrow> rmap f (xs @ ys) = Inr (us @ vs)"
  by (simp add: rmap_Inr_list_all2 list_all2_appendI)

lemma parse_items_shown:
  assumes "\<forall>i \<in> set items. printable i"
  shows "rmap parse_item (concat (map show_full items)) = Inr (unfold_items items)"
  using assms
proof (induction items)
  case (Cons i items)
  have "rmap parse_item (map show_condition (item_conditions i)) =
      Inr (map ParsedCondition (item_conditions i))"
    using Cons.prems parse_condition_item_shown
    by (auto simp: rmap_Inr_list_all2 printable_def list_all2_map1 list_all2_map2 list_all2_same)
  then have "rmap parse_item (show_full i) = Inr (unfold_item i)"
    using Cons.prems parse_item_shown [of i] by (simp add: show_full_def unfold_item_def)
  with Cons show ?case by (simp add: rmap_append)
qed simp

subsection \<open>Printed text\<close>

text \<open>A name that prints and lexes as one word and does not start like a sequence number.\<close>

definition wordy :: "rstr \<Rightarrow> bool" where
  "wordy t \<longleftrightarrow> plain_token t \<and> \<not> is_ascii_digit (hd t)"

definition lexable :: "item \<Rightarrow> bool" where
  "lexable i \<longleftrightarrow>
     (\<forall>n \<in> set_option (item_name i). wordy n) \<and>
     (\<forall>p \<in> set_option (item_picture i). plain_token p) \<and>
     (\<forall>c \<in> set (item_conditions i). wordy (cn_name c) \<and>
        (\<forall>v \<in> set (cn_values c). \<forall>s \<in> insert (cv_low v) (set_option (cv_high v)).
           39 \<notin> set s \<and> 10 \<notin> set s))"

lemma free_format_line:
  assumes "digits \<noteq> []" and "\<forall>c \<in> set digits. is_ascii_digit c" and "length digits \<le> 2"
    and "wordy w"
  shows "strip_card_columns (show_statement (digits # w # rest)) = Some (show_statement (digits # w # rest))"
proof -
  let ?s = "show_statement (digits # w # rest)"
  obtain c cs where w: "w = c # cs" using assms(4) by (cases w) (auto simp: wordy_def plain_token_def)
  have c: "\<not> is_ascii_digit c" "c \<noteq> 32"
    using assms(4) by (auto simp: w wordy_def plain_token_def is_whitespace_def)
  obtain d ds where d: "digits = d # ds" using assms(1) by (cases digits) auto
  have dd: "is_ascii_digit d" using assms(2) by (simp add: d)
  obtain tail where s: "?s = digits @ 32 # c # tail"
    by (cases rest) (auto simp: show_statement_def w)
  have nth: "?s ! (length digits + 1) = c" by (simp add: s nth_append)
  have "\<not> fixed_format ?s"
  proof
    assume f: "fixed_format ?s"
    then have l: "list_all (\<lambda>c. is_ascii_digit c \<or> c = 32) (take 6 ?s)" and n: "7 \<le> length ?s"
      by (simp_all add: fixed_format_def)
    have "take 6 ?s ! (length digits + 1) = c" using nth assms(3) by simp
    moreover have "take 6 ?s ! (length digits + 1) \<in> set (take 6 ?s)"
      using n assms(3) by (intro nth_mem) simp
    ultimately show False using l c by (auto simp: list_all_iff)
  qed
  moreover have "trim_start ?s = d # ds @ 32 # c # tail"
    using dd unfolding s by (auto simp: d trim_start_def is_ascii_digit_def is_whitespace_def)
  moreover have "d \<noteq> 42 \<and> d \<noteq> 47" using dd by (auto simp: is_ascii_digit_def)
  ultimately show ?thesis by (simp add: strip_card_columns_def)
qed

lemma digits_plain:
  assumes "ds \<noteq> []" and "\<forall>c \<in> set ds. is_ascii_digit c"
  shows "plain_token ds"
proof -
  have "last ds \<noteq> 46" using bspec [OF assms(2) last_in_set [OF assms(1)]]
    by (auto simp: is_ascii_digit_def)
  with assms show ?thesis by (auto simp: plain_token_def is_ascii_digit_def is_whitespace_def)
qed

lemma plain_words [simp]:
  "plain_token (lit ''PIC'')" "plain_token (lit ''USAGE'')" "plain_token (lit ''IS'')"
  "plain_token (lit ''COMP'')" "plain_token (lit ''COMP-3'')" "plain_token (lit ''OCCURS'')"
  "plain_token (lit ''TIMES'')" "plain_token (lit ''THRU'')" "plain_token (lit ''VALUES'')"
  "plain_token (lit ''88'')" "plain_token (render_nat n)"
  by (simp_all add: digits_plain render_nat_digits)
    (simp_all add: plain_token_def lit_def is_whitespace_def)

lemma quote_literal: "39 \<notin> set s \<Longrightarrow> 10 \<notin> set s \<Longrightarrow> literal_token (quote s)"
  by (auto simp: literal_token_def quote_def)

lemma wordy_FILLER: "wordy FILLER"
  by (simp add: wordy_def plain_token_def FILLER_def lit_def is_whitespace_def is_ascii_digit_def)

lemma item_lexes:
  assumes "printable i" and "lexable i"
  shows "(\<forall>t \<in> set (show_item i). plain_token t \<or> literal_token t) \<and>
    strip_card_columns (show_statement (show_item i)) = Some (show_statement (show_item i))"
proof
  have w: "wordy (label_of (item_name i))"
    using assms(2) wordy_FILLER by (cases "item_name i") (simp_all add: label_of_def lexable_def)
  have u: "\<forall>t \<in> set (show_usage u). plain_token t" for u
    by (cases u) (simp_all add: show_usage_def)
  show "\<forall>t \<in> set (show_item i). plain_token t \<or> literal_token t"
    using w u assms(2)
    by (auto simp: show_item_def show_clauses_def wordy_def lexable_def split: option.splits)
  have "item_level i < 10 ^ 2" using assms(1) by (auto simp: printable_def wf_item_def)
  then have "length (render_nat (item_level i)) \<le> 2" by (rule length_render_nat) simp
  with w show "strip_card_columns (show_statement (show_item i)) = Some (show_statement (show_item i))"
    unfolding show_item_def by (intro free_format_line) (auto dest: render_nat_digits)
qed

lemma condition_lexes:
  assumes "lexable i" and "c \<in> set (item_conditions i)"
  shows "(\<forall>t \<in> set (show_condition c). plain_token t \<or> literal_token t) \<and>
    strip_card_columns (show_statement (show_condition c)) = Some (show_statement (show_condition c))"
proof
  have w: "wordy (cn_name c)" using assms by (simp add: lexable_def)
  have v: "literal_token (quote s)"
    if "v \<in> set (cn_values c)" "s = cv_low v \<or> cv_high v = Some s" for v s
    using assms that by (intro quote_literal) (fastforce simp: lexable_def)+
  show "\<forall>t \<in> set (show_condition c). plain_token t \<or> literal_token t"
    using w v
    by (fastforce simp: show_condition_def show_value_def wordy_def split: option.splits)
  show "strip_card_columns (show_statement (show_condition c)) = Some (show_statement (show_condition c))"
    unfolding show_condition_def using w
    by (intro free_format_line) (auto simp: lit_def is_ascii_digit_def)
qed

lemma statements_of_items:
  assumes "\<forall>i \<in> set items. printable i \<and> lexable i"
  shows "statements (show_statements (concat (map show_full items))) = Inr (concat (map show_full items))"
proof (rule statements_shown, rule ballI)
  fix ts
  assume "ts \<in> set (concat (map show_full items))"
  then obtain i where i: "i \<in> set items" "ts = show_item i \<or> ts \<in> show_condition ` set (item_conditions i)"
    by (auto simp: show_full_def)
  have "ts \<noteq> []" using i(2) by (auto simp: show_item_def show_condition_def)
  with i show "ts \<noteq> [] \<and> (\<forall>t \<in> set ts. plain_token t \<or> literal_token t) \<and>
      strip_card_columns (show_statement ts) = Some (show_statement ts)"
    using assms item_lexes [of i] condition_lexes [of i] by blast
qed

end
