(* ===== verification/Copybook_Properties.thy ===== *)
theory Copybook_Properties
  imports Copybook_Roundtrip
begin

section \<open>What a copybook means\<close>

text \<open>
  The properties of the copybook compiler: what it accepts, the fields it returns and their paths,
  its meeting with the validator, and the round trip from items through printed text.
\<close>

subsection \<open>A small copybook\<close>

definition sample_group :: item where
  "sample_group =
     \<lparr>item_level = 1, item_name = Some (lit ''REC''), item_picture = None, item_usage = UDisplay,
      item_occurs = None, item_conditions = []\<rparr>"

definition sample_item :: item where
  "sample_item =
     \<lparr>item_level = 5, item_name = Some (lit ''KIND''), item_picture = Some (lit ''X''),
      item_usage = UDisplay, item_occurs = None,
      item_conditions = [\<lparr>cn_name = lit ''OPEN'',
        cn_values = [\<lparr>cv_low = lit ''A'', cv_high = Some (lit ''C'')\<rparr>, \<lparr>cv_low = lit ''X'', cv_high = None\<rparr>]\<rparr>]\<rparr>"

definition sample_items :: "item list" where
  "sample_items = [sample_group, sample_item]"

definition sample_described :: described where
  "sample_described = \<lparr>described_kind = KText, described_size = 1, described_scale = 0\<rparr>"

lemma sample_describe: "describe (lit ''X'') UDisplay (Some (lit ''KIND'')) = Inr sample_described"
proof -
  have "read_count p n [] = Inr (1, [])" for p n by (simp add: read_count_def)
  then have "expand (lit ''X'') (lit ''KIND'') = Inr (lit ''X'')"
    by (simp add: expand_def lit_def guard_def MAX_RECORD_SYMBOLS_def)
  then show ?thesis
    by (simp add: describe_def Let_def guard_def describe_character_def sample_described_def lit_def)
qed

lemma sample_item_described: "item_described sample_item = Some (lit ''X'', sample_described)"
  by (simp add: item_described_def sample_item_def sample_describe)

lemma sample_leaves: "\<not> is_leaf sample_items 0" "is_leaf sample_items 1" "leaves sample_items = [1]"
proof -
  show l: "\<not> is_leaf sample_items 0" "is_leaf sample_items 1"
    by (simp_all add: is_leaf_def is_group_def sample_items_def sample_group_def sample_item_def)
  have "[0..<length sample_items] = [0, 1]" by (simp add: sample_items_def)
  with l show "leaves sample_items = [1]" by (simp add: leaves_def)
qed

lemma sample_enclosing: "enclosing sample_items 1 = [0]"
  by (simp add: enclosing_def sample_items_def sample_group_def sample_item_def)

lemma sample_tree_fields:
  "tree_fields sample_items =
     [occurrence_field sample_item [(1, lit ''REC'')] (lit ''X'') sample_described 1]"
proof -
  have "groups_at sample_items 1 = [(1, lit ''REC'')]"
    unfolding groups_at_def sample_enclosing
    by (simp add: sample_items_def group_of_def sample_group_def label_of_def)
  moreover have "sample_items ! 1 = sample_item" by (simp add: sample_items_def)
  moreover have "occurrences_of sample_item = 1" by (simp add: occurrences_of_def sample_item_def)
  ultimately show ?thesis
    by (simp add: tree_fields_def sample_leaves item_fields_def sample_item_described)
qed

lemma sample_one_root: "one_root sample_items"
  by (simp add: one_root_def sample_items_def is_root_def sample_group_def sample_item_def)

lemma sample_tree_ok: "tree_ok sample_items"
proof -
  have "k < length sample_items \<longleftrightarrow> k = 0 \<or> k = 1" for k by (auto simp: sample_items_def)
  moreover have "sample_items ! 0 = sample_group" "sample_items ! 1 = sample_item"
    by (simp_all add: sample_items_def)
  moreover have "item_picture sample_group = None" "item_occurs sample_group = None"
    by (simp_all add: sample_group_def)
  ultimately have "\<forall>k < length sample_items. if is_leaf sample_items k
      then item_described (sample_items ! k) \<noteq> None
      else item_picture (sample_items ! k) = None \<and> item_occurs (sample_items ! k) = None"
    using sample_leaves(1,2) sample_item_described by (metis option.distinct(1))
  moreover have "item_weight sample_item = 3"
    by (simp add: item_weight_def condition_weight_def occurrences_of_def sample_item_def)
  ultimately show ?thesis
    unfolding tree_ok_def sample_tree_fields sample_leaves(3)
    by (simp add: sample_items_def occurrence_field_def sample_described_def MAX_RECORD_BYTES_def
        MAX_LAYOUT_FIELDS_def MAX_CONDITION_VALUES_def)
qed

lemma sample_printable: "\<forall>i \<in> set sample_items. printable i \<and> lexable i"
proof -
  have u: "to_uppercase (lit ''REC'') = lit ''REC''" "to_uppercase (lit ''KIND'') = lit ''KIND''"
    "to_uppercase (lit ''OPEN'') = lit ''OPEN''" "to_uppercase (lit ''X'') = lit ''X''"
    by (simp_all add: to_uppercase_lit)
  have p: "plain_name (lit ''REC'')" "plain_name (lit ''KIND'')" "plain_name (lit ''OPEN'')"
    unfolding plain_name_def u by (simp_all add: is_clause_keyword_def keyword_defs)
  have w: "wordy (lit ''REC'')" "wordy (lit ''KIND'')" "wordy (lit ''OPEN'')" "plain_token (lit ''X'')"
    by (simp_all add: wordy_def plain_token_def lit_def is_whitespace_def is_ascii_digit_def)
  have "printable sample_group" "printable sample_item"
    by (simp_all add: printable_def printable_condition_def wf_item_def sample_group_def
        sample_item_def p u)
      (simp_all add: FILLER_def lit_def)
  moreover have "lexable sample_group" "lexable sample_item"
    by (simp_all add: lexable_def sample_group_def sample_item_def w) (simp add: lit_def)
  ultimately show ?thesis by (simp add: sample_items_def)
qed

subsection \<open>Properties\<close>

text \<open>C8. A copybook compiles exactly when its text lexes, every statement parses, the first item and
no other is a record description, every group is free of picture and repeat count, every elementary
item has a picture that can be decoded, there is a field, and the bytes, fields and condition values
stay within the limits. The result has one record whose fields are those of the elementary items of
the level tree in order, each placed under the groups that enclose it.\<close>

theorem compile_refines_tree:
  "compile source = Inr raw \<longleftrightarrow>
     (\<exists>sts items. statements source = Inr sts \<and> rmap parse_item sts = Inr (unfold_items items) \<and>
        one_root items \<and> tree_ok items \<and> tree_fields items \<noteq> [] \<and>
        raw = one_record (record_title (items ! 0)) (tree_fields items))"
  by (rule compile_exact)

text \<open>C14. Printing items as copybook text and compiling it gives back their tree: levels, names,
pictures, usages, repeat counts and condition names with their values and ranges all survive the
lexer and the parser.\<close>

theorem copybook_roundtrip:
  assumes "\<forall>i \<in> set items. printable i \<and> lexable i"
    and "one_root items" and "tree_ok items" and "tree_fields items \<noteq> []"
  shows "compile (show_statements (concat (map show_full items))) =
    Inr (one_record (record_title (items ! 0)) (tree_fields items))"
  unfolding compile_exact
  using statements_of_items [OF assms(1)] parse_items_shown [of items] assms by blast

theorem copybook_roundtrip_witness:
  "compile (show_statements (concat (map show_full sample_items))) =
     Inr (one_record (lit ''REC'')
       [occurrence_field sample_item [(1, lit ''REC'')] (lit ''X'') sample_described 1])"
proof -
  have "record_title (sample_items ! 0) = lit ''REC''"
    by (simp add: record_title_def sample_items_def sample_group_def)
  then show ?thesis
    using copybook_roundtrip [OF sample_printable sample_one_root sample_tree_ok]
    by (simp add: sample_tree_fields)
qed

lemma sample_compiles:
  "compile (show_statements (concat (map show_full sample_items))) =
     Inr (one_record (lit ''REC'')
       [occurrence_field sample_item [(1, lit ''REC'')] (lit ''X'') sample_described 1])"
proof -
  have "record_title (sample_items ! 0) = lit ''REC''"
    by (simp add: record_title_def sample_items_def sample_group_def)
  then show ?thesis
    unfolding compile_exact
    using statements_of_items [OF sample_printable] parse_items_shown [of sample_items]
      sample_printable sample_one_root sample_tree_ok
    by (metis list.distinct(1) sample_tree_fields)
qed

text \<open>C28. A compiled copybook passes the layout validator exactly when every field is narrow enough
for its decoder and no two named fields share a name; no other check of the validator can fail on
it.\<close>

theorem compiled_copybook_validates:
  assumes "compile source = Inr raw"
  shows "\<exists>r. raw_records raw = [r] \<and>
    ((\<exists>l. validate raw SourceCopybook = Inr l) \<longleftrightarrow>
       (\<forall>f \<in> set (raw_fields r). raw_size f \<le> width_limit (raw_kind f)) \<and>
       distinct (map raw_name (named (raw_fields r))))"
proof -
  obtain sts items where s: "statements source = Inr sts"
    and p: "rmap parse_item sts = Inr (unfold_items items)"
    and t: "tree_ok items" "tree_fields items \<noteq> []"
    and raw: "raw = one_record (record_title (items ! 0)) (tree_fields items)"
    using assms unfolding compile_exact by blast
  have "\<forall>i \<in> set items. wf_item i" using collect_wf [OF s] p by (simp add: collect_exact)
  then have k: "\<forall>f \<in> set (tree_fields items). packable f" using tree_fields_packable by blast
  have "0 + bytes_of (tree_fields items) \<le> MAX_RECORD_BYTES"
    "length (tree_fields items) \<le> MAX_LAYOUT_FIELDS"
    using t(1) by (simp_all add: tree_ok_def)
  with validate_fields_packable [OF k, of 0 _ "{}"] validate_one_record [OF t(2)] show ?thesis
    unfolding raw by (simp add: one_record_def)
qed

theorem compiled_copybook_validates_witness:
  "\<exists>raw l. compile (show_statements (concat (map show_full sample_items))) = Inr raw \<and>
     validate raw SourceCopybook = Inr l"
proof -
  let ?f = "occurrence_field sample_item [(1, lit ''REC'')] (lit ''X'') sample_described 1"
  have "raw_size ?f \<le> width_limit (raw_kind ?f)"
    by (simp add: occurrence_field_def sample_described_def sample_item_def MAX_RECORD_BYTES_def)
  moreover have "distinct (map raw_name (named [?f]))" by (simp add: named_def)
  moreover have "raw_records (one_record (lit ''REC'') [?f]) =
      [\<lparr>raw_record_name = lit ''REC'', raw_fields = [?f], raw_selector = None\<rparr>]"
    by (simp add: one_record_def)
  ultimately have "\<exists>l. validate (one_record (lit ''REC'') [?f]) SourceCopybook = Inr l"
    using compiled_copybook_validates [OF sample_compiles] by fastforce
  with sample_compiles show ?thesis by blast
qed

text \<open>The path of a compiled field is the names of the groups that enclose its item, outermost
first, then its own name, joined by periods; a repeated item has one field for each occurrence, its
number in parentheses after the name, and a filler has neither a name nor a path.\<close>

theorem compiled_field_paths:
  assumes "compile source = Inr raw"
  shows "\<exists>sts items. statements source = Inr sts \<and> rmap parse_item sts = Inr (unfold_items items) \<and>
    (\<forall>r \<in> set (raw_records raw). \<forall>f \<in> set (raw_fields r).
    \<exists>k n. k < length items \<and> is_leaf items k \<and> 1 \<le> n \<and> n \<le> occurrences_of (items ! k) \<and>
      raw_name f = leaf_name (items ! k) n \<and>
      decl_path (raw_declaration f) =
        (if item_name (items ! k) = None then []
         else join [46] (map (\<lambda>j. label_of (item_name (items ! j))) (enclosing items k) @ [raw_name f])))"
proof -
  obtain sts items where sts: "statements source = Inr sts"
    "rmap parse_item sts = Inr (unfold_items items)"
    and raw: "raw = one_record (record_title (items ! 0)) (tree_fields items)"
    using assms unfolding compile_exact by blast
  have join: "join [46] (gs @ [leaf]) = concat (map (\<lambda>g. g @ [46]) gs) @ leaf" for gs and leaf :: rstr
  proof (induction gs)
    case (Cons g gs)
    then show ?case by (cases gs) simp_all
  qed simp
  have path: "qualify i (groups_at items k) leaf = (if item_name i = None then []
      else join [46] (map (\<lambda>j. label_of (item_name (items ! j))) (enclosing items k) @ [leaf]))"
    for i k leaf
    by (simp add: qualify_def join groups_at_def group_of_def comp_def)
  have "\<forall>r \<in> set (raw_records raw). \<forall>f \<in> set (raw_fields r).
    \<exists>k n. k < length items \<and> is_leaf items k \<and> 1 \<le> n \<and> n \<le> occurrences_of (items ! k) \<and>
      raw_name f = leaf_name (items ! k) n \<and>
      decl_path (raw_declaration f) =
        (if item_name (items ! k) = None then []
         else join [46] (map (\<lambda>j. label_of (item_name (items ! j))) (enclosing items k) @ [raw_name f]))"
    by (fastforce simp: raw one_record_def tree_fields_def leaves_def item_fields_def
        occurrence_field_def path split: option.splits)
  with sts show ?thesis by blast
qed

theorem compiled_field_paths_witness:
  "\<exists>sts items. statements (show_statements (concat (map show_full sample_items))) = Inr sts \<and>
     rmap parse_item sts = Inr (unfold_items items) \<and>
     (\<exists>k < length items. \<exists>n. leaf_name sample_item 1 = leaf_name (items ! k) n)"
proof -
  let ?f = "occurrence_field sample_item [(1, lit ''REC'')] (lit ''X'') sample_described 1"
  let ?r = "\<lparr>raw_record_name = lit ''REC'', raw_fields = [?f], raw_selector = None\<rparr>"
  have r: "?r \<in> set (raw_records (one_record (lit ''REC'') [?f]))" "?f \<in> set (raw_fields ?r)"
    by (simp_all add: one_record_def)
  have n: "raw_name ?f = leaf_name sample_item 1" by (simp add: occurrence_field_def)
  show ?thesis using compiled_field_paths [OF sample_compiles] r unfolding n [symmetric] by blast
qed

text \<open>Level-88 entries attach to the item before them: the statements parse to a sequence of items
and condition names, and the items collected are the ones that, each followed by its condition names,
spell exactly that sequence. A copybook that starts with a condition name is refused.\<close>

theorem conditions_attach:
  "collect [] sts = Inr items \<longleftrightarrow> rmap parse_item sts = Inr (unfold_items items)"
  by (rule collect_exact)

lemma is_group_update:
  "is_group i (rest[k := (rest ! k)\<lparr>item_usage := u\<rparr>]) = is_group i rest"
  by (cases rest; cases k) (simp_all add: is_group_def)

lemma is_leaf_Cons: "is_leaf (i # rest) (Suc k) = is_leaf rest k" "is_leaf (i # rest) 0 = (\<not> is_group i rest)"
  by (simp_all add: is_leaf_def)

lemma flatten_group_usage:
  "k < length items \<Longrightarrow> \<not> is_leaf items k \<Longrightarrow>
     flatten groups b w out (items[k := (items ! k)\<lparr>item_usage := u\<rparr>]) = flatten groups b w out items"
proof (induction items arbitrary: groups b w out k)
  case (Cons i rest)
  show ?case
  proof (cases k)
    case 0
    then have "is_group i rest" "is_group (i\<lparr>item_usage := u\<rparr>) rest"
      using Cons.prems(2) by (simp_all add: is_leaf_Cons is_group_def split: list.splits)
    with 0 show ?thesis by (simp add: Let_def group_error_def)
  next
    case (Suc n)
    with Cons.prems have "n < length rest" "\<not> is_leaf rest n" by (simp_all add: is_leaf_Cons)
    with Cons.IH Suc show ?thesis
      by (simp add: Let_def is_group_update split: option.split)
  qed
qed simp

text \<open>C39. The usage clause of a group item is ignored: whatever usage a group declares, its elementary
items are compiled as if it had none.\<close>

theorem group_usage_ignored:
  assumes "k < length items" and "\<not> is_leaf items k"
  shows "flatten [] 0 0 [] (items[k := (items ! k)\<lparr>item_usage := u\<rparr>]) = flatten [] 0 0 [] items"
  using flatten_group_usage [OF assms] .

theorem group_usage_ignored_witness:
  "flatten [] 0 0 [] [sample_group\<lparr>item_usage := UPacked\<rparr>, sample_item] =
     flatten [] 0 0 [] [sample_group, sample_item]"
  using group_usage_ignored [of 0 sample_items UPacked] sample_leaves(1)
  by (simp add: sample_items_def)

text \<open>Quoted literals with commas between or after them are one token, as far as the lexer goes.\<close>

lemma lex_quote:
  assumes "39 \<notin> set a"
  shows "lex_line line token current out (quote a @ rest) = lex_line line (token @ quote a) current out rest"
proof -
  have "dropWhile (\<lambda>c. c \<noteq> 39) (a @ 39 # rest) = 39 # rest" "takeWhile (\<lambda>c. c \<noteq> 39) (a @ 39 # rest) = a"
    using assms by (induction a) auto
  then show ?thesis by (simp add: quote_def)
qed

lemma lex_comma: "lex_line line token current out (44 # rest) = lex_line line (token @ [44]) current out rest"
  by (simp add: is_whitespace_def)

lemma quoted_tokens:
  assumes "39 \<notin> set a" and "39 \<notin> set b"
  shows "one_token (quote a)" "one_token (quote a @ [44])" "one_token (quote a @ [44] @ quote b)"
proof -
  have "quote s \<noteq> []" for s by (simp add: quote_def)
  then show "one_token (quote a)" "one_token (quote a @ [44])" "one_token (quote a @ [44] @ quote b)"
    using lex_quote [OF assms(1)] lex_quote [OF assms(2)]
    by (simp_all add: one_token_def lex_comma del: lex_line.simps)
qed

text \<open>A level-88 entry whose VALUES clause has only literals.\<close>

lemma condition_values_literals:
  "\<forall>t \<in> set ts. hd t = 39 \<and> t \<noteq> [] \<Longrightarrow>
     condition_values name acc False (spelled ts) = Inr (acc @ map (\<lambda>t. condition_literal (unquote t)) ts, False)"
proof (induction ts arbitrary: acc)
  case (Cons t ts)
  then have "hd (to_uppercase t) = 39" by (cases t) (simp_all add: to_uppercase_def upper_char_def)
  then have "\<not> one_of [''IS'', ''ARE''] (to_uppercase t)" "\<not> one_of [''THRU'', ''THROUGH''] (to_uppercase t)"
    by (auto simp: one_of_def lit_def)
  with Cons show ?case by simp
qed simp

lemma parse_values_entry:
  assumes "plain_name name" and "ts \<noteq> []" and "\<forall>t \<in> set ts. hd t = 39 \<and> t \<noteq> []"
  shows "parse_item (lit ''88'' # name # lit ''VALUES'' # ts) =
    Inr (ParsedCondition \<lparr>cn_name = name, cn_values = map (\<lambda>t. condition_literal (unquote t)) ts\<rparr>)"
proof -
  let ?st = "lit ''88'' # name # lit ''VALUES'' # ts"
  have n: "\<not> is_clause_keyword (to_uppercase name)" using assms(1) by (simp add: plain_name_def)
  have w: "\<not> one_of [''VALUE'', ''VALUES''] (to_uppercase name)"
    using n by (auto simp: is_clause_keyword_def ignorable_def one_of_def)
  have k: "\<not> one_of [''VALUE'', ''VALUES''] (lit ''88'')" "one_of [''VALUE'', ''VALUES''] (lit ''VALUES'')"
    by (simp_all add: one_of_def lit_def)
  have "parse_condition ?st (map to_uppercase ?st) =
      Inr \<lparr>cn_name = name, cn_values = map (\<lambda>t. condition_literal (unquote t)) ts\<rparr>"
    using condition_values_literals [OF assms(3), of name "[]"] assms(2)
    by (simp add: parse_condition_def Let_def n w k guard_def)
  moreover have "parse_unsigned 255 (render_nat 88) = Some 88" by (rule parse_unsigned_render) simp
  moreover have "lit ''88'' = render_nat 88" by (simp add: render_nat.simps lit_def)
  ultimately show ?thesis by (simp add: parse_item_def Let_def)
qed

lemma values_entry_read:
  assumes "wordy name" and "plain_name name" and "10 \<notin> set name" and "ts \<noteq> []"
    and "\<forall>t \<in> set ts. one_token t \<and> 10 \<notin> set t \<and> hd t = 39"
  shows "rbind (statements (lit ''88 '' @ name @ lit '' VALUES '' @ join [32] ts @ lit ''.'' @ [10])) (rmap parse_item) =
    Inr [ParsedCondition \<lparr>cn_name = name, cn_values = map (\<lambda>t. condition_literal (unquote t)) ts\<rparr>]"
proof -
  let ?st = "lit ''88'' # name # lit ''VALUES'' # ts"
  have src: "lit ''88 '' @ name @ lit '' VALUES '' @ join [32] ts @ lit ''.'' @ [10] = show_statement ?st @ [10]"
    using assms(4) by (cases ts) (simp_all add: show_statement_def lit_def)
  have "one_token (lit ''88'')" "one_token name" "one_token (lit ''VALUES'')"
    using assms(1) by (simp_all add: printed_one_token wordy_def)
  moreover have "10 \<notin> set (lit ''88'')" "10 \<notin> set (lit ''VALUES'')" by (simp_all add: lit_def)
  moreover have "strip_card_columns (show_statement ?st) = Some (show_statement ?st)"
    using assms(1) by (intro free_format_line) (auto simp: lit_def is_ascii_digit_def)
  ultimately have "statements (show_statement ?st @ [10]) = Inr [?st]"
    using assms(3,5) by (intro statement_read) auto
  moreover have "\<forall>t \<in> set ts. hd t = 39 \<and> t \<noteq> []" using assms(5) by (auto simp: one_token_def)
  ultimately show ?thesis
    unfolding src using parse_values_entry [OF assms(2,4)] by simp
qed

text \<open>C40. A comma in a VALUES clause, which COBOL reads as a space, ends up in the values: the lexer
ends a token at white space only, and a token is unquoted only as a whole. From the text of an entry:
two literals with a space between them are two values; with a comma and a space, the first value
keeps its quotes and the comma; with a comma alone, both are one value, with a quote, a comma and a
quote in it.\<close>

theorem comma_stays_in_value:
  assumes "wordy name" and "plain_name name" and "10 \<notin> set name"
    and "39 \<notin> set a \<and> 10 \<notin> set a" and "39 \<notin> set b \<and> 10 \<notin> set b"
    and read_def: "read = (\<lambda>clause. rbind (statements (lit ''88 '' @ name @ lit '' VALUES '' @ clause @ lit ''.'' @ [10]))
      (rmap parse_item))"
  shows "read (quote a @ lit '' '' @ quote b) =
      Inr [ParsedCondition \<lparr>cn_name = name, cn_values = [condition_literal a, condition_literal b]\<rparr>] \<and>
    read (quote a @ lit '', '' @ quote b) =
      Inr [ParsedCondition \<lparr>cn_name = name,
        cn_values = [condition_literal (quote a @ lit '',''), condition_literal b]\<rparr>] \<and>
    read (quote a @ lit '','' @ quote b) =
      Inr [ParsedCondition \<lparr>cn_name = name, cn_values = [condition_literal (a @ [39, 44, 39] @ b)]\<rparr>]"
proof -
  note tokens = quoted_tokens [of a b]
  have q: "hd (quote s @ t) = 39" "10 \<in> set (quote s) \<longleftrightarrow> 10 \<in> set s" for s t by (simp_all add: quote_def)
  have c: "lit '' '' = [32]" "lit '', '' = [44, 32]" "lit '','' = [44]" by (simp_all add: lit_def)
  have u: "unquote (quote s) = s" "unquote (quote s @ [44]) = quote s @ [44]"
    "unquote (quote s @ 44 # quote t) = s @ 39 # 44 # 39 # t" for s t
    by (simp_all add: unquote_def quote_def butlast_append)
  note R = values_entry_read [OF assms(1-3)]
  have "read (quote a @ lit '' '' @ quote b) =
      Inr [ParsedCondition \<lparr>cn_name = name, cn_values = [condition_literal a, condition_literal b]\<rparr>]"
    using R [of "[quote a, quote b]"] tokens quoted_tokens [of b a] assms(4,5) q(1) [of _ "[]"]
    by (simp add: read_def c q u)
  moreover have "read (quote a @ lit '', '' @ quote b) =
      Inr [ParsedCondition \<lparr>cn_name = name,
        cn_values = [condition_literal (quote a @ lit '',''), condition_literal b]\<rparr>]"
    using R [of "[quote a @ [44], quote b]"] tokens quoted_tokens [of b a] assms(4,5) q(1) [of _ "[]"]
    by (simp add: read_def c q u)
  moreover have "read (quote a @ lit '','' @ quote b) =
      Inr [ParsedCondition \<lparr>cn_name = name, cn_values = [condition_literal (a @ [39, 44, 39] @ b)]\<rparr>]"
    using R [of "[quote a @ [44] @ quote b]"] tokens assms(4,5)
    by (simp add: read_def c q u)
  ultimately show ?thesis by blast
qed

theorem comma_stays_in_value_witness:
  "rbind (statements (lit ''88 OPEN VALUES '' @ quote (lit ''A'') @ lit '', '' @ quote (lit ''B'') @ lit ''.'' @ [10]))
      (rmap parse_item) =
    Inr [ParsedCondition \<lparr>cn_name = lit ''OPEN'',
      cn_values = [condition_literal (quote (lit ''A'') @ lit '',''), condition_literal (lit ''B'')]\<rparr>]"
proof -
  have "plain_name (lit ''OPEN'')"
    using sample_printable
    by (auto simp: sample_items_def sample_item_def printable_def printable_condition_def)
  moreover have "wordy (lit ''OPEN'')" "10 \<notin> set (lit ''OPEN'')" "39 \<notin> set (lit ''A'') \<and> 10 \<notin> set (lit ''A'')"
    "39 \<notin> set (lit ''B'') \<and> 10 \<notin> set (lit ''B'')"
    by (simp_all add: wordy_def plain_token_def lit_def is_whitespace_def is_ascii_digit_def)
  ultimately have "rbind (statements (lit ''88 '' @ lit ''OPEN'' @ lit '' VALUES '' @
      (quote (lit ''A'') @ lit '', '' @ quote (lit ''B'')) @ lit ''.'' @ [10])) (rmap parse_item) =
    Inr [ParsedCondition \<lparr>cn_name = lit ''OPEN'',
      cn_values = [condition_literal (quote (lit ''A'') @ lit '',''), condition_literal (lit ''B'')]\<rparr>]"
    using comma_stays_in_value [OF _ _ _ _ _ refl, of "lit ''OPEN''" "lit ''A''" "lit ''B''"] by blast
  moreover have "lit ''88 '' @ lit ''OPEN'' @ lit '' VALUES '' = lit ''88 OPEN VALUES ''" by (simp add: lit_def)
  then have "lit ''88 '' @ lit ''OPEN'' @ lit '' VALUES '' @ t = lit ''88 OPEN VALUES '' @ t" for t
    by (metis append.assoc)
  ultimately show ?thesis by simp
qed

text \<open>C30. Whatever form a request declares its layout in (protobuf, JSON or copybook), a layout that
\<^verbatim>\<open>resolve\<close> returns is well formed and is tagged with the form it came from.\<close>

theorem resolved_layouts_well_formed:
  assumes "resolve_layout parse options = Inr l"
  shows "wf_layout l \<and>
    layout_source_of l =
      (case po_layout_source options of
         Some (CopybookForm _) \<Rightarrow> SourceCopybook
       | Some (LayoutJson _) \<Rightarrow> SourceJson
       | _ \<Rightarrow> SourceProto)"
  using assms validate_sound
  by (auto simp: resolve_layout_def result_simps split: option.splits layout_form.splits)

lemma sample_validates:
  "\<exists>l. validate (one_record (lit ''REC'')
     [occurrence_field sample_item [(1, lit ''REC'')] (lit ''X'') sample_described 1]) SourceCopybook = Inr l"
    (is "\<exists>l. validate (one_record _ [?f]) _ = _")
proof -
  have "packable ?f"
    by (rule described_packable [OF sample_item_described]) (simp add: sample_item_def lit_def)
  moreover have "raw_size ?f \<le> width_limit (raw_kind ?f)" "0 + bytes_of [?f] \<le> MAX_RECORD_BYTES"
    by (simp_all add: occurrence_field_def sample_described_def sample_item_def MAX_RECORD_BYTES_def)
  moreover have "distinct (map raw_name (named [?f]))" by (simp add: named_def)
  ultimately have "\<exists>r. validate_fields name 0 {} [?f] = Inr r" for name
    using validate_fields_packable [of "[?f]" 0 name "{}"] by auto
  then show ?thesis by (subst validate_one_record) (simp_all add: MAX_LAYOUT_FIELDS_def)
qed

theorem resolved_layouts_well_formed_witness:
  "\<exists>options l. resolve_layout (\<lambda>_. Inl []) options = Inr l \<and> wf_layout l \<and>
     layout_source_of l = SourceCopybook"
proof -
  let ?source = "show_statements (concat (map show_full sample_items))"
  let ?options = "\<lparr>po_encoding = [], po_layout_source = Some (CopybookForm ?source), po_max_records = 0,
      po_strip_control_characters = None, po_abort_on_error = False, po_max_document_mib = 0,
      po_emit_document = False\<rparr>"
  obtain l where "resolve_layout (\<lambda>_. Inl []) ?options = Inr l"
    using sample_validates by (auto simp: resolve_layout_def sample_compiles)
  with resolved_layouts_well_formed [OF this] show ?thesis by (intro exI) simp
qed

end
