(* ===== verification/Document.thy ===== *)
theory Document
  imports Wire "HOL-Library.List_Lexorder" "HOL-Library.Product_Lexorder" "HOL-Library.Log_Nat"
    Complex_Main
begin

section \<open>The Document message and its link check\<close>

text \<open>
  The part of \<^verbatim>\<open>ai.pipestream.document.v1\<close> that \<^verbatim>\<open>src/document_fold.rs\<close> writes or
  reads; the fields it leaves at their default are left out. A double is the rational it denotes,
  rounded to the nearest with ties to even; the numbers that reach it are far from the limits of the
  exponent. \<open>integrity_errors\<close> is the check every fold test ends with.
\<close>

subsection \<open>Doubles\<close>

type_synonym f64 = rat

definition round_half_even :: "rat \<Rightarrow> int" where
  "round_half_even x =
     (let n = \<lfloor>x\<rfloor>; d = x - of_int n in
      if d < 1 / 2 then n else if 1 / 2 < d then n + 1 else if even n then n else n + 1)"

text \<open>The exponent of the leading bit of \<open>p / q\<close>, and the distance of the doubles there.\<close>

definition two_to :: "int \<Rightarrow> rat" where
  "two_to e = (if 0 \<le> e then 2 ^ nat e else 1 / 2 ^ nat (- e))"

definition leading_bit :: "nat \<Rightarrow> nat \<Rightarrow> int" where
  "leading_bit p q =
     (let e = int (floorlog 2 p) - int (floorlog 2 q) in
      if two_to e \<le> of_nat p / of_nat q then e else e - 1)"

definition nearest_f64 :: "int \<Rightarrow> nat \<Rightarrow> f64" where
  "nearest_f64 n q =
     (if n = 0 then 0
      else let u = two_to (leading_bit (nat \<bar>n\<bar>) q - 52) in
        of_int (sgn n) * of_int (round_half_even (of_nat (nat \<bar>n\<bar>) / of_nat q / u)) * u)"

text \<open>\<^verbatim>\<open>as f64\<close>, and \<^verbatim>\<open>str::parse::<f64>\<close> on plain decimal notation: the only texts it is given here are
the decimals of a row, which \<^verbatim>\<open>render_decimal\<close> writes without an exponent.\<close>

definition int_as_f64 :: "int \<Rightarrow> f64" where
  "int_as_f64 n = nearest_f64 n 1"

definition parse_f64 :: "rstr \<Rightarrow> f64 option" where
  "parse_f64 s =
     (let (neg, body) = (case s of c # r \<Rightarrow> if c = 45 then (True, r) else (False, strip_plus s)
                                 | [] \<Rightarrow> (False, []));
          whole = takeWhile (\<lambda>c. c \<noteq> 46) body;
          frac = drop 1 (dropWhile (\<lambda>c. c \<noteq> 46) body);
          digits = whole @ frac in
      if digits \<noteq> [] \<and> list_all is_ascii_digit digits then
        Some (nearest_f64 (if neg then - int (digits_value digits) else int (digits_value digits))
          (10 ^ length frac))
      else None)"

subsection \<open>Messages\<close>

record ref_item =
  ri_ref :: rstr

datatype proto_value =
    StringValue rstr
  | NumberValue f64

datatype content_layer =
    LayerBody
  | LayerFurniture

datatype doc_label =
    LabelText
  | LabelSectionHeader
  | LabelTable

record collector_source =
  cs_collector :: rstr
  cs_model :: "rstr option"
  cs_version :: "rstr option"

record group_item =
  gi_self_ref :: rstr
  gi_children :: "ref_item list"
  gi_parent :: "ref_item option"
  gi_layer :: content_layer
  gi_custom_fields :: "(rstr \<rightharpoonup> proto_value) option"

record text_base =
  tb_self_ref :: rstr
  tb_children :: "ref_item list"
  tb_parent :: "ref_item option"
  tb_layer :: content_layer
  tb_label :: doc_label
  tb_orig :: rstr
  tb_text :: rstr
  tb_source :: "collector_source list"

datatype text_item =
    TitleItem "text_base option"
  | SectionHeaderItem "text_base option" nat
  | ListItem "text_base option"
  | FormulaItem "text_base option"
  | PlainItem "text_base option"
  | FieldHeadingItem "text_base option"
  | FieldValueItem "text_base option"
  | CodeItem rstr "ref_item list" "ref_item option"

record picture_item =
  pi_self_ref :: rstr
  pi_children :: "ref_item list"
  pi_parent :: "ref_item option"

record table_cell =
  tc_text :: rstr
  tc_value :: "f64 option"
  tc_row_span :: int
  tc_col_span :: int
  tc_start_row :: int
  tc_end_row :: int
  tc_start_col :: int
  tc_end_col :: int
  tc_column_header :: bool

record value_range =
  vr_low :: rstr
  vr_high :: "rstr option"

record value_condition =
  vc_name :: rstr
  vc_values :: "value_range list"

record column_schema =
  csc_name :: "rstr option"
  csc_declared_type :: "rstr option"
  csc_picture :: "rstr option"
  csc_byte_offset :: "nat option"
  csc_byte_size :: "nat option"
  csc_level :: "int option"
  csc_occurs_index :: "int option"
  csc_conditions :: "value_condition list"

record record_layout_meta =
  rlm_encoding :: "rstr option"
  rlm_record_length :: "nat option"
  rlm_header_bytes :: "nat option"
  rlm_footer_bytes :: "nat option"
  rlm_prefix_bytes :: "nat option"
  rlm_rows_truncated :: "nat option"

text \<open>A provenance entry is its byte span, from its start to its end, when it has one.\<close>

type_synonym provenance = "(nat \<times> nat) option"

record table_data =
  td_num_rows :: int
  td_num_cols :: int
  td_cells :: "table_cell list"
  td_grid :: "table_cell list list"
  td_columns :: "column_schema list"
  td_row_prov :: "provenance list"
  td_record_layout :: "record_layout_meta option"

record table_item =
  ti_self_ref :: rstr
  ti_children :: "ref_item list"
  ti_parent :: "ref_item option"
  ti_layer :: content_layer
  ti_label :: doc_label
  ti_custom_fields :: "rstr \<rightharpoonup> proto_value"
  ti_data :: "table_data option"
  ti_source :: "collector_source list"

record document =
  doc_schema_name :: "rstr option"
  doc_name :: rstr
  doc_body :: "group_item option"
  doc_furniture :: "group_item option"
  doc_groups :: "group_item list"
  doc_texts :: "text_item option list"
  doc_pictures :: "picture_item list"
  doc_tables :: "table_item list"

subsection \<open>The link check\<close>

definition BODY_REF :: rstr where
  "BODY_REF = lit ''#/body''"

definition FURNITURE_REF :: rstr where
  "FURNITURE_REF = lit ''#/furniture''"

definition links_of :: "text_base \<Rightarrow> rstr \<times> ref_item list \<times> ref_item option" where
  "links_of b = (tb_self_ref b, tb_children b, tb_parent b)"

fun text_links :: "text_item option \<Rightarrow> (rstr \<times> ref_item list \<times> ref_item option) option" where
  "text_links None = None"
| "text_links (Some (TitleItem b)) = map_option links_of b"
| "text_links (Some (SectionHeaderItem b _)) = map_option links_of b"
| "text_links (Some (ListItem b)) = map_option links_of b"
| "text_links (Some (FormulaItem b)) = map_option links_of b"
| "text_links (Some (PlainItem b)) = map_option links_of b"
| "text_links (Some (FieldHeadingItem b)) = map_option links_of b"
| "text_links (Some (FieldValueItem b)) = map_option links_of b"
| "text_links (Some (CodeItem r children parent)) = Some (r, children, parent)"

text \<open>The state of the walk. The children of every container are kept as pairs, in any order.\<close>

record links =
  lk_errors :: "msg list"
  lk_refs :: "rstr set"
  lk_parents :: "(rstr \<times> rstr) list"
  lk_children :: "(rstr \<times> rstr) list"

definition collect_links :: "rstr \<times> ref_item list \<times> ref_item option \<Rightarrow> links \<Rightarrow> links" where
  "collect_links = (\<lambda>(self_ref, children, parent) k.
     if self_ref = [] then
       k\<lparr>lk_errors := lk_errors k @ [[MLit ''item with empty self_ref'']]\<rparr>
     else
       k\<lparr>lk_errors := lk_errors k @
            (if self_ref \<in> lk_refs k then [[MLit ''duplicate self_ref '', MStr self_ref]] else []),
         lk_refs := insert self_ref (lk_refs k),
         lk_children := lk_children k @ map (\<lambda>c. (self_ref, ri_ref c)) children,
         lk_parents := lk_parents k @ (case parent of None \<Rightarrow> [] | Some p \<Rightarrow> [(self_ref, ri_ref p)])\<rparr>)"

definition collect_text :: "text_item option \<Rightarrow> links \<Rightarrow> links" where
  "collect_text item k =
     (case text_links item of
        Some l \<Rightarrow> collect_links l k
      | None \<Rightarrow> k\<lparr>lk_errors := lk_errors k @ [[MLit ''text item with unset variant'']]\<rparr>)"

definition check_root :: "rstr \<times> group_item option \<Rightarrow> links \<Rightarrow> links" where
  "check_root = (\<lambda>(root, group) k.
     case group of
       None \<Rightarrow> k\<lparr>lk_errors := lk_errors k @ [[MStr root, MLit '' is missing'']]\<rparr>
     | Some g \<Rightarrow>
         k\<lparr>lk_errors := lk_errors k @
              (if gi_self_ref g \<noteq> root
               then [[MStr root, MLit '' carries self_ref '', MStr (gi_self_ref g)]] else []),
           lk_children := lk_children k @ map (\<lambda>c. (root, ri_ref c)) (gi_children g)\<rparr>)"

text \<open>Every container in order, and in each its children in order: the order of the pairs.\<close>

definition child_errors :: "links \<Rightarrow> msg list" where
  "child_errors k =
     map (\<lambda>(parent, child). [MLit ''child '', MStr child, MLit '' of '', MStr parent,
            MLit '' does not resolve''])
       (filter (\<lambda>(parent, child). child \<notin> lk_refs k) (sort (remdups (lk_children k))))"

definition parent_errors :: "links \<Rightarrow> msg list" where
  "parent_errors k =
     concat (map (\<lambda>(item, parent).
       if parent \<notin> lk_refs k then
         [[MLit ''parent '', MStr parent, MLit '' of '', MStr item, MLit '' does not resolve'']]
       else if (parent, item) \<notin> set (lk_children k) then
         [[MLit ''parent '', MStr parent, MLit '' does not list '', MStr item, MLit '' as a child'']]
       else []) (lk_parents k))"

definition integrity_errors :: "document \<Rightarrow> msg list" where
  "integrity_errors d =
     (let k = \<lparr>lk_errors = [], lk_refs = {BODY_REF, FURNITURE_REF}, lk_parents = [], lk_children = []\<rparr>;
          k = fold check_root [(BODY_REF, doc_body d), (FURNITURE_REF, doc_furniture d)] k;
          k = fold (\<lambda>g. collect_links (gi_self_ref g, gi_children g, gi_parent g)) (doc_groups d) k;
          k = fold collect_text (doc_texts d) k;
          k = fold (\<lambda>p. collect_links (pi_self_ref p, pi_children p, pi_parent p)) (doc_pictures d) k;
          k = fold (\<lambda>t. collect_links (ti_self_ref t, ti_children t, ti_parent t)) (doc_tables d) k
      in lk_errors k @ child_errors k @ parent_errors k)"

end
