(* ===== verification/Document_Fold.thy ===== *)
theory Document_Fold
  imports Document
begin

section \<open>The Document fold\<close>

text \<open>
  The model of \<^verbatim>\<open>src/document_fold.rs\<close>: one pass over the outbound events that builds a
  Document. \<open>table_state\<close> and \<open>document_fold\<close> are the code's structs; \<open>consume_event\<close> is
  \<^verbatim>\<open>consume\<close> with \<open>begin_fold\<close> and \<open>fold_row\<close>, and \<open>take_document\<close> is \<^verbatim>\<open>take\<close>, which
  writes the arenas. A \<^verbatim>\<open>HashMap\<close> or \<^verbatim>\<open>BTreeMap\<close> used for look-ups is a map.
\<close>

definition COLLECTOR :: rstr where
  "COLLECTOR = lit ''ebcdic''"

definition SCHEMA_NAME :: rstr where
  "SCHEMA_NAME = lit ''docling_document_v2''"

definition DEFAULT_ROW_CAP :: nat where
  "DEFAULT_ROW_CAP = 100000"

definition DEFAULT_BYTE_CAP :: nat where
  "DEFAULT_BYTE_CAP = 64 * 1024 * 1024"

definition CELL_OVERHEAD_BYTES :: nat where
  "CELL_OVERHEAD_BYTES = 32"

definition ROW_OVERHEAD_BYTES :: nat where
  "ROW_OVERHEAD_BYTES = 32"

subsection \<open>Small conversions\<close>

text \<open>\<^verbatim>\<open>String::len\<close>: the bytes of the UTF-8 encoding.\<close>

definition utf8_len :: "rstr \<Rightarrow> nat" where
  "utf8_len s =
     sum_list (map (\<lambda>c. if c < 128 then 1 else if c < 2048 then 2 else if c < 65536 then 3 else 4) s)"

definition clamp :: "nat \<Rightarrow> int" where
  "clamp n = (if n \<le> 2147483647 then int n else 2147483647)"

definition saturating_add_i32 :: "int \<Rightarrow> int \<Rightarrow> int" where
  "saturating_add_i32 a b = max (- 2147483648) (min 2147483647 (a + b))"

definition to_i32 :: "nat \<Rightarrow> int option" where
  "to_i32 n = (if n \<le> 2147483647 then Some (int n) else None)"

definition number_value :: "nat \<Rightarrow> proto_value" where
  "number_value n = NumberValue (int_as_f64 (int n))"

fun layout_source_name :: "layout_source \<Rightarrow> rstr option" where
  "layout_source_name SourceProto = Some (lit ''proto'')"
| "layout_source_name SourceJson = Some (lit ''json'')"
| "layout_source_name SourceCopybook = Some (lit ''copybook'')"
| "layout_source_name SourceUnspecified = None"

definition field_type_name :: "int \<Rightarrow> rstr option" where
  "field_type_name n =
     (case field_type_try_from n of
        Some TypeString \<Rightarrow> Some (lit ''string'')
      | Some TypeInteger \<Rightarrow> Some (lit ''integer'')
      | Some TypeUnsignedInteger \<Rightarrow> Some (lit ''unsigned_integer'')
      | Some TypePackedDecimal \<Rightarrow> Some (lit ''packed_decimal'')
      | Some TypeZonedDecimal \<Rightarrow> Some (lit ''zoned_decimal'')
      | Some TypeSkip \<Rightarrow> Some (lit ''skip'')
      | _ \<Rightarrow> None)"

definition cell_number :: "cell \<Rightarrow> f64 option" where
  "cell_number c =
     (case cell_val c of
        None \<Rightarrow> None
      | Some (TextValue _) \<Rightarrow> None
      | Some (DecimalValue d) \<Rightarrow> parse_f64 (dec_text d)
      | Some (IntegerValue n) \<Rightarrow> Some (int_as_f64 n))"

definition cell_text :: "cell \<Rightarrow> rstr" where
  "cell_text c =
     (case cell_val c of
        Some (TextValue t) \<Rightarrow> t
      | Some (DecimalValue d) \<Rightarrow> dec_text d
      | Some (IntegerValue n) \<Rightarrow> render_int n
      | None \<Rightarrow> [])"

definition table_cell_at :: "rstr \<Rightarrow> f64 option \<Rightarrow> nat \<Rightarrow> nat \<Rightarrow> bool \<Rightarrow> table_cell" where
  "table_cell_at text val r c header =
     \<lparr>tc_text = text, tc_value = val, tc_row_span = 1, tc_col_span = 1,
      tc_start_row = clamp r, tc_end_row = saturating_add_i32 (clamp r) 1,
      tc_start_col = clamp c, tc_end_col = saturating_add_i32 (clamp c) 1,
      tc_column_header = header\<rparr>"

subsection \<open>Columns\<close>

record table_column =
  column_name :: rstr
  column_schema_of :: column_schema

definition condition_to_doc :: "wire_condition_name \<Rightarrow> value_condition" where
  "condition_to_doc c =
     \<lparr>vc_name = wcn_name c,
      vc_values = map (\<lambda>r. \<lparr>vr_low = wcv_low r, vr_high = wcv_high r\<rparr>) (wcn_ranges c)\<rparr>"

definition column_of :: "field_schema \<Rightarrow> table_column" where
  "column_of f =
     \<lparr>column_name = fs_name f,
      column_schema_of =
        \<lparr>csc_name = Some (if fs_path f = [] then fs_name f else fs_path f),
         csc_declared_type = field_type_name (fs_type f),
         csc_picture = (if fs_picture f = [] then None else Some (fs_picture f)),
         csc_byte_offset = Some (fs_offset f), csc_byte_size = Some (fs_size f),
         csc_level = Option.bind (fs_level f) to_i32,
         csc_occurs_index = Option.bind (fs_occurs_index f) to_i32,
         csc_conditions = map condition_to_doc (fs_conditions f)\<rparr>\<rparr>"

subsection \<open>The state\<close>

record table_state =
  ts_name :: rstr
  ts_columns :: "table_column list"
  ts_column_index :: "rstr \<rightharpoonup> nat"
  ts_record_length :: nat
  ts_selector :: "rstr option"
  ts_rows :: nat
  ts_dropped :: nat
  ts_first_dropped :: nat
  ts_grid :: "table_cell list list"
  ts_row_prov :: "provenance list"

record document_fold =
  df_document :: document
  df_version :: rstr
  df_model :: "rstr option"
  df_row_cap :: nat
  df_byte_cap :: nat
  df_bytes :: nat
  df_budget_spent :: bool
  df_layout :: record_layout_meta
  df_tables :: "table_state list"
  df_index_by_schema :: "rstr \<rightharpoonup> nat"
  df_description :: rstr
  df_started :: bool

definition root_group :: "rstr \<Rightarrow> content_layer \<Rightarrow> group_item" where
  "root_group ref layer =
     \<lparr>gi_self_ref = ref, gi_children = [], gi_parent = None, gi_layer = layer,
      gi_custom_fields = None\<rparr>"

definition new_fold :: "rstr \<Rightarrow> document_fold" where
  "new_fold version =
     \<lparr>df_document =
        \<lparr>doc_schema_name = Some SCHEMA_NAME, doc_name = [],
         doc_body = Some (root_group BODY_REF LayerBody),
         doc_furniture = Some (root_group FURNITURE_REF LayerFurniture),
         doc_groups = [], doc_texts = [], doc_pictures = [], doc_tables = []\<rparr>,
      df_version = version, df_model = None, df_row_cap = DEFAULT_ROW_CAP,
      df_byte_cap = DEFAULT_BYTE_CAP, df_bytes = 0, df_budget_spent = False,
      df_layout =
        \<lparr>rlm_encoding = None, rlm_record_length = None, rlm_header_bytes = None,
         rlm_footer_bytes = None, rlm_prefix_bytes = None, rlm_rows_truncated = None\<rparr>,
      df_tables = [], df_index_by_schema = (\<lambda>_. None), df_description = [], df_started = False\<rparr>"

definition with_row_cap :: "nat \<Rightarrow> document_fold \<Rightarrow> document_fold" where
  "with_row_cap n f = f\<lparr>df_row_cap := n\<rparr>"

definition with_byte_cap :: "nat \<Rightarrow> document_fold \<Rightarrow> document_fold" where
  "with_byte_cap n f = f\<lparr>df_byte_cap := n\<rparr>"

subsection \<open>Folding the events\<close>

datatype event =
    LayoutInfoEvent layout_info
  | RecordEvent record_row
  | StatusEvent parse_status
  | DocumentEvent document

text \<open>\<^verbatim>\<open>column_index\<close>: a name declared twice is found at its last column.\<close>

definition index_columns :: "table_column list \<Rightarrow> rstr \<rightharpoonup> nat" where
  "index_columns columns = map_of (rev (zip (map column_name columns) [0..<length columns]))"

definition begin_table :: "record_schema \<Rightarrow> table_state" where
  "begin_table s =
     (let columns = map column_of (filter (\<lambda>f. fs_type f \<noteq> field_type_number TypeSkip) (rs_fields s)) in
      \<lparr>ts_name = rs_name s, ts_columns = columns, ts_column_index = index_columns columns,
       ts_record_length = rs_record_length s, ts_selector = rs_selector s, ts_rows = 0,
       ts_dropped = 0, ts_first_dropped = 0, ts_grid = [], ts_row_prov = []\<rparr>)"

definition begin_schema :: "record_schema \<Rightarrow> document_fold \<Rightarrow> document_fold" where
  "begin_schema s f =
     f\<lparr>df_index_by_schema := (df_index_by_schema f)(rs_name s \<mapsto> length (df_tables f)),
       df_tables := df_tables f @ [begin_table s]\<rparr>"

definition body_custom_fields :: "layout_info \<Rightarrow> rstr option \<Rightarrow> rstr \<rightharpoonup> proto_value" where
  "body_custom_fields info model =
     (let m = [lit ''ebcdic.encoding'' \<mapsto> StringValue (li_encoding info)];
          m = (case model of None \<Rightarrow> m | Some s \<Rightarrow> m(lit ''ebcdic.layout_source'' \<mapsto> StringValue s)) in
      m(lit ''ebcdic.header_size'' \<mapsto> number_value (li_header_size info),
        lit ''ebcdic.footer_size'' \<mapsto> number_value (li_footer_size info),
        lit ''ebcdic.prefix_size'' \<mapsto> number_value (li_prefix_size info)))"

definition begin_fold :: "layout_info \<Rightarrow> document_fold \<Rightarrow> document_fold" where
  "begin_fold info f =
     (if df_started f then f
      else
        let model = layout_source_name (li_source info);
            name = (if li_description info = []
                    then (case li_records info of [] \<Rightarrow> [] | s # _ \<Rightarrow> rs_name s)
                    else li_description info);
            f = f\<lparr>df_started := True, df_model := model, df_description := li_description info,
                  df_document := (df_document f)
                    \<lparr>doc_name := name,
                     doc_body := map_option (\<lambda>b. b\<lparr>gi_custom_fields :=
                       Some (body_custom_fields info model)\<rparr>) (doc_body (df_document f))\<rparr>,
                  df_layout :=
                    \<lparr>rlm_encoding = Some (li_encoding info), rlm_record_length = None,
                     rlm_header_bytes = Some (li_header_size info),
                     rlm_footer_bytes = Some (li_footer_size info),
                     rlm_prefix_bytes = Some (li_prefix_size info), rlm_rows_truncated = None\<rparr>\<rparr>
        in fold begin_schema (li_records info) f)"

text \<open>Cells are placed by name, so a short row leaves its columns empty.\<close>

definition place_cells :: "table_state \<Rightarrow> cell list \<Rightarrow> (rstr \<times> f64 option) list" where
  "place_cells st cells =
     foldl (\<lambda>values c. case ts_column_index st (cell_name c) of
              None \<Rightarrow> values
            | Some j \<Rightarrow> values[j := (cell_text c, cell_number c)])
       (replicate (length (ts_columns st)) ([], None)) cells"

definition cells_cost :: "nat list \<Rightarrow> nat" where
  "cells_cost lens = sum_list (map (\<lambda>n. 2 * (n + CELL_OVERHEAD_BYTES)) lens) + ROW_OVERHEAD_BYTES"

definition row_cost :: "table_state \<Rightarrow> (rstr \<times> f64 option) list \<Rightarrow> nat" where
  "row_cost st values =
     cells_cost (map (\<lambda>(text, _). utf8_len text) values) +
     (if ts_rows st = 0 then cells_cost (map (\<lambda>c. utf8_len (column_name c)) (ts_columns st)) else 0)"

definition drop_row :: "record_row \<Rightarrow> table_state \<Rightarrow> table_state" where
  "drop_row row st =
     st\<lparr>ts_first_dropped := (if ts_dropped st = 0 then row_byte_offset row else ts_first_dropped st),
        ts_dropped := ts_dropped st + 1\<rparr>"

definition grid_row :: "nat \<Rightarrow> (rstr \<times> f64 option) list \<Rightarrow> table_cell list" where
  "grid_row r values = map (\<lambda>(c, text, val). table_cell_at text val r c False) (List.enumerate 0 values)"

definition row_span :: "record_row \<Rightarrow> provenance" where
  "row_span row = Some (row_byte_offset row, saturating_add_u64 (row_byte_offset row) (row_byte_length row))"

definition keep_row :: "record_row \<Rightarrow> (rstr \<times> f64 option) list \<Rightarrow> table_state \<Rightarrow> table_state" where
  "keep_row row values st =
     st\<lparr>ts_rows := ts_rows st + 1, ts_grid := ts_grid st @ [grid_row (ts_rows st + 1) values],
        ts_row_prov := ts_row_prov st @ [row_span row]\<rparr>"

definition fold_row :: "record_row \<Rightarrow> document_fold \<Rightarrow> document_fold" where
  "fold_row row f =
     (case df_index_by_schema f (row_record_type row) of
        None \<Rightarrow> f
      | Some index \<Rightarrow>
          let st = df_tables f ! index in
          if df_row_cap f \<le> ts_rows st \<or> df_budget_spent f then
            f\<lparr>df_tables := (df_tables f)[index := drop_row row st]\<rparr>
          else
            let values = place_cells st (row_cells row); cost = row_cost st values in
            if df_byte_cap f < saturating_add_u64 (df_bytes f) cost then
              f\<lparr>df_budget_spent := True, df_tables := (df_tables f)[index := drop_row row st]\<rparr>
            else
              f\<lparr>df_bytes := df_bytes f + cost,
                df_tables := (df_tables f)[index := keep_row row values st]\<rparr>)"

fun consume_event :: "event \<Rightarrow> document_fold \<Rightarrow> document_fold" where
  "consume_event (LayoutInfoEvent info) f = begin_fold info f"
| "consume_event (RecordEvent row) f = fold_row row f"
| "consume_event (StatusEvent _) f = f"
| "consume_event (DocumentEvent _) f = f"

subsection \<open>Truncation warnings\<close>

definition truncation_warning :: "document_fold \<Rightarrow> table_state \<Rightarrow> parse_warning" where
  "truncation_warning f st =
     \<lparr>warning_code = DocumentRowsTruncated,
      warning_message =
        [MLit ''record schema '', MDbg (ts_name st), MLit '' produced '', MNat (ts_dropped st),
         MLit '' rows past the Document fold cap ('', MNat (df_row_cap f),
         MLit '' rows per schema, about '', MNat (df_byte_cap f),
         MLit '' bytes per Document); its table holds the first '', MNat (ts_rows st),
         MLit '' and '', MNat (ts_dropped st),
         MLit '' were dropped. Every row was sent as a `record` event, so re-run with a '',
         MLit ''smaller max_records for a whole Document.''],
      warning_offset = ts_first_dropped st\<rparr>"

definition truncation_warnings :: "document_fold \<Rightarrow> parse_warning list" where
  "truncation_warnings f =
     map (truncation_warning f) (filter (\<lambda>st. 0 < ts_dropped st) (df_tables f))"

subsection \<open>Writing the Document\<close>

definition link_body_child :: "rstr \<Rightarrow> document \<Rightarrow> document" where
  "link_body_child ref d =
     d\<lparr>doc_body := map_option (\<lambda>b. b\<lparr>gi_children := gi_children b @ [\<lparr>ri_ref = ref\<rparr>]\<rparr>) (doc_body d)\<rparr>"

definition source_of :: "document_fold \<Rightarrow> collector_source" where
  "source_of f = \<lparr>cs_collector = COLLECTOR, cs_model = df_model f, cs_version = Some (df_version f)\<rparr>"

definition text_ref :: "nat \<Rightarrow> rstr" where
  "text_ref n = lit ''#/texts/'' @ render_nat n"

definition table_ref :: "nat \<Rightarrow> rstr" where
  "table_ref n = lit ''#/tables/'' @ render_nat n"

text \<open>\<^verbatim>\<open>text_base\<close>: the next free slot of the text arena, already linked from the body.\<close>

definition new_text :: "doc_label \<Rightarrow> rstr \<Rightarrow> document_fold \<Rightarrow> text_base \<times> document_fold" where
  "new_text label text f =
     (let ref = text_ref (length (doc_texts (df_document f))) in
      (\<lparr>tb_self_ref = ref, tb_children = [], tb_parent = Some \<lparr>ri_ref = BODY_REF\<rparr>,
        tb_layer = LayerBody, tb_label = label, tb_orig = text, tb_text = text,
        tb_source = [source_of f]\<rparr>,
       f\<lparr>df_document := link_body_child ref (df_document f)\<rparr>))"

definition push_text :: "text_item \<Rightarrow> document_fold \<Rightarrow> document_fold" where
  "push_text item f =
     f\<lparr>df_document := (df_document f)\<lparr>doc_texts := doc_texts (df_document f) @ [Some item]\<rparr>\<rparr>"

definition add_description :: "rstr \<Rightarrow> document_fold \<Rightarrow> document_fold" where
  "add_description text f =
     (let (base, f) = new_text LabelText text f in push_text (PlainItem (Some base)) f)"

definition add_heading :: "rstr \<Rightarrow> document_fold \<Rightarrow> document_fold" where
  "add_heading name f =
     (let (base, f) = new_text LabelSectionHeader name f in
      push_text (SectionHeaderItem (Some base) 1) f)"

definition table_custom_fields :: "table_state \<Rightarrow> rstr \<rightharpoonup> proto_value" where
  "table_custom_fields st =
     (let m = [lit ''ebcdic.schema'' \<mapsto> StringValue (ts_name st),
               lit ''ebcdic.record_length'' \<mapsto> number_value (ts_record_length st)];
          m = (case ts_selector st of None \<Rightarrow> m | Some s \<Rightarrow> m(lit ''ebcdic.selector'' \<mapsto> StringValue s));
          m = m(lit ''ebcdic.rows'' \<mapsto> number_value (ts_rows st)) in
      if 0 < ts_dropped st
      then m(lit ''ebcdic.rows_truncated'' \<mapsto> number_value (ts_dropped st)) else m)"

definition header_row :: "table_state \<Rightarrow> table_cell list" where
  "header_row st =
     map (\<lambda>(c, column). table_cell_at (column_name column) None 0 c True)
       (List.enumerate 0 (ts_columns st))"

definition table_data_of :: "document_fold \<Rightarrow> table_state \<Rightarrow> table_data" where
  "table_data_of f st =
     (let header = header_row st in
      \<lparr>td_num_rows = clamp (saturating_add_u64 (ts_rows st) 1),
       td_num_cols = clamp (length (ts_columns st)),
       td_cells = header @ concat (ts_grid st), td_grid = header # ts_grid st,
       td_columns = map column_schema_of (ts_columns st), td_row_prov = None # ts_row_prov st,
       td_record_layout = Some ((df_layout f)
         \<lparr>rlm_record_length := Some (ts_record_length st),
          rlm_rows_truncated := Some (ts_dropped st)\<rparr>)\<rparr>)"

definition add_table :: "table_state \<Rightarrow> document_fold \<Rightarrow> document_fold" where
  "add_table st f =
     (let ref = table_ref (length (doc_tables (df_document f)));
          table =
            \<lparr>ti_self_ref = ref, ti_children = [], ti_parent = Some \<lparr>ri_ref = BODY_REF\<rparr>,
             ti_layer = LayerBody, ti_label = LabelTable,
             ti_custom_fields = table_custom_fields st, ti_data = Some (table_data_of f st),
             ti_source = [source_of f]\<rparr>;
          d = link_body_child ref (df_document f) in
      f\<lparr>df_document := d\<lparr>doc_tables := doc_tables d @ [table]\<rparr>\<rparr>)"

definition write_table :: "bool \<Rightarrow> table_state \<Rightarrow> document_fold \<Rightarrow> document_fold" where
  "write_table headings st f =
     (if ts_rows st = 0 \<and> ts_dropped st = 0 then f
      else add_table st (if headings then add_heading (ts_name st) f else f))"

definition take_document :: "document_fold \<Rightarrow> document" where
  "take_document f =
     (let description = df_description f;
          f = f\<lparr>df_description := []\<rparr>;
          f = (if description \<noteq> [] then add_description description f else f);
          states = df_tables f;
          f = f\<lparr>df_tables := []\<rparr>
      in df_document (fold (write_table (1 < length states)) states f))"

end
