(* ===== verification/Document_Links.thy ===== *)
theory Document_Links
  imports Document_Fold
begin

section \<open>The Document is safe to merge\<close>

text \<open>
  The link structure of the Documents the fold writes: every item hangs off the body under the next
  free reference of its arena, and the body lists it. \<open>linked\<close> is that invariant; every operation
  that writes an item keeps it, and a linked Document passes the integrity check.
\<close>

definition leaf_link :: "rstr \<Rightarrow> rstr \<times> ref_item list \<times> ref_item option" where
  "leaf_link r = (r, [], Some \<lparr>ri_ref = BODY_REF\<rparr>)"

definition text_refs :: "document \<Rightarrow> rstr list" where
  "text_refs d = map text_ref [0..<length (doc_texts d)]"

definition table_refs :: "document \<Rightarrow> rstr list" where
  "table_refs d = map table_ref [0..<length (doc_tables d)]"

definition table_links :: "table_item \<Rightarrow> rstr \<times> ref_item list \<times> ref_item option" where
  "table_links t = (ti_self_ref t, ti_children t, ti_parent t)"

definition linked :: "document \<Rightarrow> bool" where
  "linked d \<longleftrightarrow>
     (\<exists>b f. doc_body d = Some b \<and> gi_self_ref b = BODY_REF \<and>
        doc_furniture d = Some f \<and> gi_self_ref f = FURNITURE_REF \<and> gi_children f = [] \<and>
        ri_ref ` set (gi_children b) = set (text_refs d) \<union> set (table_refs d)) \<and>
     doc_groups d = [] \<and> doc_pictures d = [] \<and>
     map text_links (doc_texts d) = map (\<lambda>r. Some (leaf_link r)) (text_refs d) \<and>
     map table_links (doc_tables d) = map leaf_link (table_refs d)"

subsection \<open>References\<close>

lemma ref_facts [simp]:
  "text_ref n \<noteq> []" "table_ref n \<noteq> []" "text_ref n \<noteq> BODY_REF" "table_ref n \<noteq> BODY_REF"
  "text_ref n \<noteq> FURNITURE_REF" "table_ref n \<noteq> FURNITURE_REF" "text_ref m \<noteq> table_ref n"
  "BODY_REF \<noteq> []" "FURNITURE_REF \<noteq> []" "BODY_REF \<noteq> FURNITURE_REF"
  by (simp_all add: text_ref_def table_ref_def BODY_REF_def FURNITURE_REF_def lit_def)

lemma ref_inject [simp]:
  "text_ref m = text_ref n \<longleftrightarrow> m = n" "table_ref m = table_ref n \<longleftrightarrow> m = n"
  by (simp_all add: text_ref_def table_ref_def)

lemma distinct_refs [simp]: "distinct (text_refs d)" "distinct (table_refs d)"
  by (simp_all add: text_refs_def table_refs_def distinct_map inj_on_def)

lemma fresh_refs [simp]:
  "[] \<notin> set (text_refs d)" "[] \<notin> set (table_refs d)" "BODY_REF \<notin> set (text_refs d)"
  "BODY_REF \<notin> set (table_refs d)" "FURNITURE_REF \<notin> set (text_refs d)"
  "FURNITURE_REF \<notin> set (table_refs d)" "set (text_refs d) \<inter> set (table_refs d) = {}"
  using ref_facts by (auto simp: text_refs_def table_refs_def simp del: ref_facts) metis+

subsection \<open>A linked Document has no errors\<close>

lemma collect_texts:
  "map text_links items = map (\<lambda>r. Some (leaf_link r)) rs \<Longrightarrow>
     fold collect_text items k = fold collect_links (map leaf_link rs) k"
proof (induction items arbitrary: rs k)
  case (Cons item items)
  then obtain r rs' where "rs = r # rs'" by (cases rs) auto
  with Cons show ?case by (simp add: collect_text_def)
qed simp

lemma collect_tables:
  "fold (\<lambda>t. collect_links (ti_self_ref t, ti_children t, ti_parent t)) items k =
     fold collect_links (map table_links items) k"
  by (simp add: fold_map comp_def table_links_def)

lemma collect_leaves:
  assumes "distinct rs" and "[] \<notin> set rs" and "set rs \<inter> lk_refs k = {}"
  shows "fold collect_links (map leaf_link rs) k =
    k\<lparr>lk_refs := lk_refs k \<union> set rs, lk_parents := lk_parents k @ map (\<lambda>r. (r, BODY_REF)) rs\<rparr>"
  using assms
proof (induction rs arbitrary: k)
  case (Cons r rs)
  have "collect_links (leaf_link r) k =
      k\<lparr>lk_refs := insert r (lk_refs k), lk_parents := lk_parents k @ [(r, BODY_REF)]\<rparr>"
    using Cons.prems by (auto simp: collect_links_def leaf_link_def)
  with Cons show ?case by simp
qed simp

lemma linked_no_errors:
  assumes "linked d"
  shows "integrity_errors d = []"
proof -
  obtain b f where bf: "doc_body d = Some b" "gi_self_ref b = BODY_REF"
      "doc_furniture d = Some f" "gi_self_ref f = FURNITURE_REF" "gi_children f = []"
    and c: "ri_ref ` set (gi_children b) = set (text_refs d) \<union> set (table_refs d)"
    and e: "doc_groups d = []" "doc_pictures d = []"
    and t: "map text_links (doc_texts d) = map (\<lambda>r. Some (leaf_link r)) (text_refs d)"
      "map table_links (doc_tables d) = map leaf_link (table_refs d)"
    using assms unfolding linked_def by blast
  let ?k0 = "\<lparr>lk_errors = [], lk_refs = {BODY_REF, FURNITURE_REF}, lk_parents = [], lk_children = []\<rparr>"
  let ?k1 = "?k0\<lparr>lk_children := map (\<lambda>c. (BODY_REF, ri_ref c)) (gi_children b)\<rparr>"
  have k1: "fold check_root [(BODY_REF, doc_body d), (FURNITURE_REF, doc_furniture d)] ?k0 = ?k1"
    using bf by (simp add: check_root_def)
  let ?k2 = "?k1\<lparr>lk_refs := lk_refs ?k1 \<union> set (text_refs d),
      lk_parents := map (\<lambda>r. (r, BODY_REF)) (text_refs d)\<rparr>"
  have k2: "fold collect_text (doc_texts d) ?k1 = ?k2"
    unfolding collect_texts [OF t(1)] by (subst collect_leaves) auto
  let ?k3 = "?k2\<lparr>lk_refs := lk_refs ?k2 \<union> set (table_refs d),
      lk_parents := map (\<lambda>r. (r, BODY_REF)) (text_refs d) @ map (\<lambda>r. (r, BODY_REF)) (table_refs d)\<rparr>"
  have dj: "x \<notin> set (text_refs d)" if "x \<in> set (table_refs d)" for x
    using that fresh_refs(7) by blast
  have k3: "fold (\<lambda>t. collect_links (ti_self_ref t, ti_children t, ti_parent t)) (doc_tables d) ?k2 = ?k3"
    unfolding collect_tables t(2)
    by (subst collect_leaves) (auto simp: dj)
  have kids: "ri_ref c \<in> set (text_refs d) \<union> set (table_refs d)" if "c \<in> set (gi_children b)" for c
    using c that by blast
  have "child_errors ?k3 = []"
    using kids by (auto simp: child_errors_def filter_empty_conv)
  moreover have "(BODY_REF, r) \<in> set (lk_children ?k3)"
    if "r \<in> set (text_refs d) \<union> set (table_refs d)" for r
    using c that by auto
  then have "parent_errors ?k3 = []"
    by (auto simp: parent_errors_def)
  ultimately show ?thesis
    unfolding integrity_errors_def Let_def k1 e fold_simps(1) k2 k3 by simp
qed

subsection \<open>Every operation keeps the Document linked\<close>

lemma refs_link_body [simp]:
  "text_refs (link_body_child r d) = text_refs d" "table_refs (link_body_child r d) = table_refs d"
  "doc_texts (link_body_child r d) = doc_texts d" "doc_tables (link_body_child r d) = doc_tables d"
  by (simp_all add: link_body_child_def text_refs_def table_refs_def)

lemma linked_text:
  assumes "linked d" and "text_links (Some item) = Some (leaf_link (text_ref (length (doc_texts d))))"
  shows "linked ((link_body_child (text_ref (length (doc_texts d))) d)
    \<lparr>doc_texts := doc_texts d @ [Some item]\<rparr>)"
  using assms by (auto simp: linked_def link_body_child_def text_refs_def table_refs_def)

lemma linked_table:
  assumes "linked d" and "table_links t = leaf_link (table_ref (length (doc_tables d)))"
  shows "linked ((link_body_child (table_ref (length (doc_tables d))) d)
    \<lparr>doc_tables := doc_tables d @ [t]\<rparr>)"
  using assms by (auto simp: linked_def link_body_child_def text_refs_def table_refs_def)

lemma add_description_linked: "linked (df_document f) \<Longrightarrow> linked (df_document (add_description text f))"
  using linked_text [of "df_document f"]
  by (simp add: add_description_def new_text_def push_text_def Let_def links_of_def leaf_link_def)

lemma add_heading_linked: "linked (df_document f) \<Longrightarrow> linked (df_document (add_heading name f))"
  using linked_text [of "df_document f"]
  by (simp add: add_heading_def new_text_def push_text_def Let_def links_of_def leaf_link_def)

lemma add_table_linked: "linked (df_document f) \<Longrightarrow> linked (df_document (add_table st f))"
  using linked_table [of "df_document f"]
  by (simp add: add_table_def Let_def table_links_def leaf_link_def)

lemma write_table_linked: "linked (df_document f) \<Longrightarrow> linked (df_document (write_table h st f))"
  by (simp add: write_table_def add_table_linked add_heading_linked)

lemma write_tables_linked:
  "linked (df_document f) \<Longrightarrow> linked (df_document (fold (write_table h) states f))"
  by (induction states arbitrary: f) (simp_all add: write_table_linked)

lemma take_document_linked: "linked (df_document f) \<Longrightarrow> linked (take_document f)"
  by (simp add: take_document_def Let_def write_tables_linked add_description_linked)

lemma begin_schema_document [simp]: "df_document (begin_schema s f) = df_document f"
  by (simp add: begin_schema_def)

lemma begin_schemas_document [simp]: "df_document (fold begin_schema ss f) = df_document f"
  by (induction ss arbitrary: f) simp_all

lemma begin_fold_linked: "linked (df_document f) \<Longrightarrow> linked (df_document (begin_fold info f))"
  by (auto simp: begin_fold_def Let_def linked_def text_refs_def table_refs_def)

lemma fold_row_document [simp]: "df_document (fold_row row f) = df_document f"
  by (simp add: fold_row_def Let_def split: option.split)

lemma consume_linked: "linked (df_document f) \<Longrightarrow> linked (df_document (consume_event e f))"
  by (cases e) (simp_all add: begin_fold_linked)

lemma consume_all_linked: "linked (df_document f) \<Longrightarrow> linked (df_document (fold consume_event es f))"
  by (induction es arbitrary: f) (simp_all add: consume_linked)

lemma new_fold_linked: "linked (df_document (new_fold version))"
  by (simp add: linked_def new_fold_def root_group_def text_refs_def table_refs_def)

text \<open>C19. Whatever events a fold has seen, with whatever caps, the Document it hands over passes the
integrity check the merge relies on: every reference is present and unique, every child and parent
resolves, and the body lists each item that names it as its parent.\<close>

theorem document_links_sound:
  "integrity_errors (take_document (fold consume_event events
     (with_row_cap rows (with_byte_cap bytes (new_fold version))))) = []"
proof (intro linked_no_errors take_document_linked consume_all_linked)
  show "linked (df_document (with_row_cap rows (with_byte_cap bytes (new_fold version))))"
    using new_fold_linked by (simp add: with_row_cap_def with_byte_cap_def)
qed

end
