(* ===== verification/Document_Tables.thy ===== *)
theory Document_Tables
  imports Document_Links
begin

section \<open>The Document holds the rows\<close>

text \<open>
  What the tables of a folded Document contain: for every schema the first rows of its own, in
  order, each cell in its column, and the count of the rest. How many is \<open>kept_rows\<close>, which is stated
  over the rows alone: the tables take rows up to the row cap as long as what they show costs no more
  than the byte cap, and none from the first row on that would cost more. \<open>table_after\<close> is the state
  of one table in closed form, \<open>folded\<close> the invariant of the fold over the rows.
\<close>

definition rows_of :: "record_schema \<Rightarrow> record_row list \<Rightarrow> record_row list" where
  "rows_of s rows = filter (\<lambda>r. row_record_type r = rs_name s) rows"

subsection \<open>How many rows the caps allow\<close>

text \<open>What a table that shows the rows \<open>mine\<close> costs: its header when it has a row, and its rows.\<close>

definition shown_cost :: "record_schema \<Rightarrow> record_row list \<Rightarrow> nat" where
  "shown_cost s mine =
     (if mine = [] then 0
      else cells_cost (map (\<lambda>c. utf8_len (column_name c)) (ts_columns (begin_table s)))) +
     sum_list (map (\<lambda>row. cells_cost (map (\<lambda>(text, _). utf8_len text)
       (place_cells (begin_table s) (row_cells row)))) mine)"

definition tables_cost :: "record_schema list \<Rightarrow> nat \<Rightarrow> record_row list \<Rightarrow> nat" where
  "tables_cost ss row_cap rows =
     sum_list (map (\<lambda>s. shown_cost s (take row_cap (rows_of s rows))) ss)"

text \<open>The rows that arrive before the budget is spent, and what a table keeps of them.\<close>

definition budget_rows :: "record_schema list \<Rightarrow> nat \<Rightarrow> nat \<Rightarrow> record_row list \<Rightarrow> nat" where
  "budget_rows ss row_cap byte_cap rows =
     length (takeWhile (\<lambda>n. tables_cost ss row_cap (take (n + 1) rows) \<le> byte_cap) [0..<length rows])"

definition kept_rows :: "record_schema list \<Rightarrow> nat \<Rightarrow> nat \<Rightarrow> record_row list \<Rightarrow> record_schema \<Rightarrow> nat" where
  "kept_rows ss row_cap byte_cap rows s =
     min row_cap (length (rows_of s (take (budget_rows ss row_cap byte_cap rows) rows)))"

lemma budget_rows_le: "budget_rows ss rc bc rows \<le> length rows"
  by (simp add: budget_rows_def length_takeWhile_le [THEN order_trans])

lemma length_takeWhile_eq: "length (takeWhile P xs) = length xs \<longleftrightarrow> (\<forall>x \<in> set xs. P x)"
  by (induction xs) auto

lemma budget_rows_snoc:
  "budget_rows ss rc bc (rows @ [row]) =
     (if budget_rows ss rc bc rows = length rows \<and> tables_cost ss rc (rows @ [row]) \<le> bc
      then length rows + 1 else budget_rows ss rc bc rows)"
proof -
  let ?P = "\<lambda>n. tables_cost ss rc (take (n + 1) rows) \<le> bc"
  let ?Q = "\<lambda>n. tables_cost ss rc (take (n + 1) (rows @ [row])) \<le> bc"
  have same: "?Q n = ?P n" if "n \<in> set [0..<length rows]" for n using that by simp
  have all: "(\<forall>n \<in> set [0..<length rows]. ?Q n) \<longleftrightarrow> budget_rows ss rc bc rows = length rows"
    using length_takeWhile_eq [of ?P "[0..<length rows]"] same by (simp add: budget_rows_def)
  have "budget_rows ss rc bc (rows @ [row]) = length (takeWhile ?Q ([0..<length rows] @ [length rows]))"
    unfolding budget_rows_def by simp
  also have "\<dots> = (if budget_rows ss rc bc rows = length rows
      then length ([0..<length rows] @ takeWhile ?Q [length rows])
      else length (takeWhile ?Q [0..<length rows]))"
    unfolding takeWhile_append all by simp
  also have "takeWhile ?Q [0..<length rows] = takeWhile ?P [0..<length rows]"
    by (rule takeWhile_cong [OF refl same])
  finally show ?thesis by (simp add: budget_rows_def)
qed

lemma rows_of_snoc:
  "rows_of s (rows @ [row]) =
     (if row_record_type row = rs_name s then rows_of s rows @ [row] else rows_of s rows)"
  by (simp add: rows_of_def)

lemma tables_cost_other:
  "\<forall>s \<in> set ss. row_record_type row \<noteq> rs_name s \<Longrightarrow> tables_cost ss rc (rows @ [row]) = tables_cost ss rc rows"
  by (simp add: tables_cost_def rows_of_snoc cong: map_cong)

lemma sum_list_update_nat:
  "k < length xs \<Longrightarrow> sum_list (map g (xs[k := y])) + g (xs ! k) = sum_list (map g xs) + (g y :: nat)"
proof (induction xs arbitrary: k)
  case (Cons x xs)
  then show ?case by (cases k) (simp_all add: add.commute add.left_commute)
qed simp

text \<open>A row of the schema at \<open>k\<close> adds its own cost while its table is not full.\<close>

lemma tables_cost_row:
  assumes "distinct (map rs_name ss)" and "k < length ss" and "row_record_type row = rs_name (ss ! k)"
  shows "tables_cost ss rc (rows @ [row]) + shown_cost (ss ! k) (take rc (rows_of (ss ! k) rows)) =
    tables_cost ss rc rows + shown_cost (ss ! k) (take rc (rows_of (ss ! k) rows @ [row]))"
proof -
  let ?h = "\<lambda>rows s. shown_cost s (take rc (rows_of s rows))"
  let ?new = "shown_cost (ss ! k) (take rc (rows_of (ss ! k) rows @ [row]))"
  have "map (?h (rows @ [row])) ss = (map (?h rows) ss)[k := ?new]"
  proof (rule nth_equalityI)
    fix j assume "j < length (map (?h (rows @ [row])) ss)"
    moreover have "rs_name (ss ! j) \<noteq> rs_name (ss ! k)" if "j < length ss" "j \<noteq> k"
      using assms(1,2) that by (simp add: distinct_conv_nth)
    ultimately show "map (?h (rows @ [row])) ss ! j = (map (?h rows) ss)[k := ?new] ! j"
      using assms(3) by (cases "j = k") (simp_all add: rows_of_snoc)
  qed simp
  with sum_list_update_nat [of k "map (?h rows) ss" "\<lambda>n. n" ?new] assms(2)
  show ?thesis by (simp add: tables_cost_def)
qed

lemma kept_rows_le:
  "kept_rows ss rc bc rows s \<le> rc" "kept_rows ss rc bc rows s \<le> length (rows_of s rows)"
proof -
  have "rows_of s rows = rows_of s (take n rows) @ rows_of s (drop n rows)" for n
    unfolding rows_of_def by (metis append_take_drop_id filter_append)
  then have "length (rows_of s (take n rows)) \<le> length (rows_of s rows)" for n
    by (metis length_append le_add1)
  then show "kept_rows ss rc bc rows s \<le> length (rows_of s rows)" by (simp add: kept_rows_def min.coboundedI2)
qed (simp add: kept_rows_def)

lemma take_kept_rows:
  "take (kept_rows ss rc bc rows s) (rows_of s rows) = take rc (rows_of s (take (budget_rows ss rc bc rows) rows))"
proof -
  let ?b = "budget_rows ss rc bc rows"
  have "rows_of s rows = rows_of s (take ?b rows) @ rows_of s (drop ?b rows)"
    unfolding rows_of_def by (metis append_take_drop_id filter_append)
  then show ?thesis by (simp add: kept_rows_def min_def)
qed

text \<open>A row changes what its own table keeps, and only before the budget is spent.\<close>

lemma kept_rows_spent:
  "budget_rows ss rc bc (rows @ [row]) \<le> length rows \<Longrightarrow>
     kept_rows ss rc bc (rows @ [row]) s = kept_rows ss rc bc rows s"
  by (auto simp: kept_rows_def budget_rows_snoc budget_rows_le split: if_splits)

lemma kept_rows_other:
  "row_record_type row \<noteq> rs_name s \<Longrightarrow> kept_rows ss rc bc (rows @ [row]) s = kept_rows ss rc bc rows s"
  by (auto simp: kept_rows_def budget_rows_snoc budget_rows_le rows_of_snoc)

lemma kept_rows_within:
  "budget_rows ss rc bc (rows @ [row]) = length rows + 1 \<Longrightarrow> row_record_type row = rs_name s \<Longrightarrow>
     kept_rows ss rc bc (rows @ [row]) s = min rc (length (rows_of s rows) + 1)"
  by (simp add: kept_rows_def rows_of_snoc)

lemma kept_rows_all:
  "budget_rows ss rc bc rows = length rows \<Longrightarrow> kept_rows ss rc bc rows s = min rc (length (rows_of s rows))"
  by (simp add: kept_rows_def)

subsection \<open>One table\<close>

definition grid_of :: "record_schema \<Rightarrow> record_row list \<Rightarrow> table_cell list list" where
  "grid_of s mine =
     map (\<lambda>i. grid_row (i + 1) (place_cells (begin_table s) (row_cells (mine ! i)))) [0..<length mine]"

text \<open>The table of a schema after its rows \<open>mine\<close>, of which the first \<open>n\<close> were kept.\<close>

definition table_after :: "record_schema \<Rightarrow> record_row list \<Rightarrow> nat \<Rightarrow> table_state" where
  "table_after s mine n =
     (begin_table s)
       \<lparr>ts_rows := n, ts_dropped := length mine - n,
        ts_first_dropped := (if n < length mine then row_byte_offset (mine ! n) else 0),
        ts_grid := grid_of s (take n mine), ts_row_prov := map row_span (take n mine)\<rparr>"

definition table_cost :: "table_state \<Rightarrow> nat" where
  "table_cost st =
     (if ts_grid st = [] then 0 else cells_cost (map (\<lambda>c. utf8_len (column_name c)) (ts_columns st))) +
     sum_list (map (\<lambda>row. cells_cost (map (\<lambda>c. utf8_len (tc_text c)) row)) (ts_grid st))"

lemma table_after_Nil [simp]: "table_after s [] 0 = begin_table s"
  by (simp add: table_after_def grid_of_def begin_table_def Let_def)

lemma table_after_simps [simp]:
  "ts_rows (table_after s mine n) = n" "ts_dropped (table_after s mine n) = length mine - n"
  "ts_name (table_after s mine n) = rs_name s"
  "ts_columns (table_after s mine n) = ts_columns (begin_table s)"
  "ts_grid (table_after s mine n) = grid_of s (take n mine)"
  "ts_row_prov (table_after s mine n) = map row_span (take n mine)"
  "ts_record_length (table_after s mine n) = rs_record_length s"
  "ts_selector (table_after s mine n) = rs_selector s"
  by (simp_all add: table_after_def begin_table_def Let_def)

lemma place_cells_after [simp]: "place_cells (table_after s mine n) = place_cells (begin_table s)"
  by (intro ext) (simp add: place_cells_def table_after_def)

lemma grid_of_snoc:
  "grid_of s (mine @ [row]) =
     grid_of s mine @ [grid_row (length mine + 1) (place_cells (begin_table s) (row_cells row))]"
  by (simp add: grid_of_def nth_append)

lemma keep_row_after:
  "keep_row row (place_cells (begin_table s) (row_cells row)) (table_after s mine (length mine)) =
     table_after s (mine @ [row]) (length mine + 1)"
  by (simp add: keep_row_def table_after_def grid_of_snoc)

lemma drop_row_after:
  "n \<le> length mine \<Longrightarrow> drop_row row (table_after s mine n) = table_after s (mine @ [row]) n"
  by (auto simp: drop_row_def table_after_def nth_append Suc_diff_le)

lemma grid_row_texts: "map tc_text (grid_row r values) = map fst values"
  by (auto simp: grid_row_def table_cell_at_def comp_def case_prod_beta enumerate_eq_zip
      intro!: nth_equalityI)

lemma table_cost_shown: "table_cost (table_after s mine n) = shown_cost s (take n mine)"
proof -
  have row: "map (\<lambda>c. utf8_len (tc_text c)) (grid_row r v) = map (\<lambda>(text, _). utf8_len text) v" for r v
  proof -
    have "map (\<lambda>c. utf8_len (tc_text c)) (grid_row r v) = map utf8_len (map tc_text (grid_row r v))" by simp
    then show ?thesis unfolding grid_row_texts by (simp add: case_prod_beta)
  qed
  have "sum_list (map (\<lambda>row. cells_cost (map (\<lambda>c. utf8_len (tc_text c)) row)) (grid_of s rows)) =
      sum_list (map (\<lambda>row. cells_cost (map (\<lambda>(text, _). utf8_len text)
        (place_cells (begin_table s) (row_cells row)))) rows)" for rows
  proof (induction rows rule: rev_induct)
    case (snoc row rows)
    then show ?case by (simp add: grid_of_snoc row)
  qed (simp add: grid_of_def)
  moreover have "grid_of s rows = [] \<longleftrightarrow> rows = []" for rows by (simp add: grid_of_def)
  ultimately show ?thesis by (simp add: table_cost_def shown_cost_def)
qed

lemma row_cost_after:
  "shown_cost s mine + row_cost (table_after s mine (length mine)) (place_cells (begin_table s) (row_cells row)) =
     shown_cost s (mine @ [row])"
  by (simp add: shown_cost_def row_cost_def)

subsection \<open>The invariant\<close>

definition folded :: "record_schema list \<Rightarrow> record_row list \<Rightarrow> document_fold \<Rightarrow> bool" where
  "folded ss rows f \<longleftrightarrow>
     length (df_tables f) = length ss \<and>
     (\<forall>name k. df_index_by_schema f name = Some k \<longleftrightarrow> k < length ss \<and> rs_name (ss ! k) = name) \<and>
     (\<forall>k < length ss. df_tables f ! k = table_after (ss ! k) (rows_of (ss ! k) rows)
        (kept_rows ss (df_row_cap f) (df_byte_cap f) rows (ss ! k))) \<and>
     (let b = budget_rows ss (df_row_cap f) (df_byte_cap f) rows in
      df_budget_spent f = (b < length rows) \<and>
      df_bytes f = tables_cost ss (df_row_cap f) (take b rows) \<and> df_bytes f \<le> df_byte_cap f)"

lemma begin_schemas:
  "df_tables (fold begin_schema ss f) = df_tables f @ map begin_table ss"
  "df_row_cap (fold begin_schema ss f) = df_row_cap f"
  "df_byte_cap (fold begin_schema ss f) = df_byte_cap f"
  "df_bytes (fold begin_schema ss f) = df_bytes f"
  "df_budget_spent (fold begin_schema ss f) = df_budget_spent f"
  by (induction ss arbitrary: f) (simp_all add: begin_schema_def)

lemma begin_schemas_index:
  "distinct (map rs_name ss) \<Longrightarrow>
     df_index_by_schema (fold begin_schema ss f) name = Some k \<longleftrightarrow>
       (\<exists>j < length ss. k = length (df_tables f) + j \<and> rs_name (ss ! j) = name) \<or>
       (name \<notin> rs_name ` set ss \<and> df_index_by_schema f name = Some k)"
proof (induction ss arbitrary: f)
  case (Cons s ss)
  have ex: "(\<exists>j < length (s # ss). k = n + j \<and> rs_name ((s # ss) ! j) = name) \<longleftrightarrow>
      k = n \<and> rs_name s = name \<or> (\<exists>j < length ss. k = n + 1 + j \<and> rs_name (ss ! j) = name)" for n
    by (auto simp: less_Suc_eq_0_disj)
  have "name \<in> rs_name ` set ss \<Longrightarrow> rs_name s \<noteq> name" using Cons.prems by auto
  moreover have "\<exists>j < length ss. rs_name (ss ! j) = name" if "name \<in> rs_name ` set ss"
    using that by (auto simp: in_set_conv_nth)
  ultimately show ?case
    using Cons.IH [of "begin_schema s f"] Cons.prems unfolding ex
    by (auto simp: begin_schema_def)
qed simp

lemma begin_fold_split:
  assumes "\<not> df_started f"
  shows "\<exists>g. begin_fold info f = fold begin_schema (li_records info) g \<and> df_tables g = df_tables f \<and>
    df_index_by_schema g = df_index_by_schema f \<and> df_bytes g = df_bytes f \<and>
    df_budget_spent g = df_budget_spent f"
  unfolding begin_fold_def Let_def using assms
  by (simp only: if_False) (rule exI, rule conjI, rule refl, simp)

lemma begin_folded:
  assumes "distinct (map rs_name (li_records info))"
  shows "folded (li_records info) []
    (begin_fold info (with_row_cap rows (with_byte_cap bytes (new_fold version))))"
proof -
  have z: "tables_cost ss rc [] = 0" for ss rc by (simp add: tables_cost_def rows_of_def shown_cost_def)
  have "\<not> df_started (with_row_cap rows (with_byte_cap bytes (new_fold version)))"
    by (simp add: new_fold_def with_row_cap_def with_byte_cap_def)
  from begin_fold_split [OF this, of info]
  have "\<exists>f. begin_fold info (with_row_cap rows (with_byte_cap bytes (new_fold version))) =
      fold begin_schema (li_records info) f \<and> df_tables f = [] \<and> df_index_by_schema f = (\<lambda>_. None) \<and>
      df_bytes f = 0 \<and> \<not> df_budget_spent f"
    by (simp add: new_fold_def with_row_cap_def with_byte_cap_def)
  then obtain f where f: "begin_fold info (with_row_cap rows (with_byte_cap bytes (new_fold version))) =
      fold begin_schema (li_records info) f" "df_tables f = []" "df_index_by_schema f = (\<lambda>_. None)"
    "df_bytes f = 0" "\<not> df_budget_spent f" by blast
  show ?thesis
    unfolding f(1) folded_def
    by (simp add: begin_schemas begin_schemas_index [OF assms] f rows_of_def comp_def z
        kept_rows_def budget_rows_def)
qed

lemma folded_index:
  "folded ss rows f \<Longrightarrow>
     df_index_by_schema f name = Some k \<longleftrightarrow> k < length ss \<and> rs_name (ss ! k) = name"
  by (simp add: folded_def)

lemma folded_table:
  "folded ss rows f \<Longrightarrow> k < length ss \<Longrightarrow>
     df_tables f ! k = table_after (ss ! k) (rows_of (ss ! k) rows)
       (kept_rows ss (df_row_cap f) (df_byte_cap f) rows (ss ! k))"
  by (simp add: folded_def)

lemma folded_distinct: "folded ss rows f \<Longrightarrow> distinct (map rs_name ss)"
  unfolding distinct_conv_nth by (metis folded_index length_map nth_map option.inject)

lemma folded_update:
  assumes "folded ss rows f" and k: "k < length ss" "row_record_type row = rs_name (ss ! k)"
    and "n' = kept_rows ss (df_row_cap f) (df_byte_cap f) (rows @ [row]) (ss ! k)"
    and "b' = budget_rows ss (df_row_cap f) (df_byte_cap f) (rows @ [row])"
    and "spent = (b' < length rows + 1)" and "c = tables_cost ss (df_row_cap f) (take b' (rows @ [row]))"
    and "c \<le> df_byte_cap f"
  shows "folded ss (rows @ [row]) (f\<lparr>df_budget_spent := spent, df_bytes := c,
    df_tables := (df_tables f)[k := table_after (ss ! k) (rows_of (ss ! k) rows @ [row]) n']\<rparr>)"
proof -
  have "(df_tables f)[k := table_after (ss ! k) (rows_of (ss ! k) rows @ [row]) n'] ! j =
      table_after (ss ! j) (rows_of (ss ! j) (rows @ [row]))
        (kept_rows ss (df_row_cap f) (df_byte_cap f) (rows @ [row]) (ss ! j))"
    if "j < length ss" for j
  proof (cases "j = k")
    case True
    with assms that show ?thesis by (simp add: rows_of_snoc folded_def)
  next
    case False
    then have "row_record_type row \<noteq> rs_name (ss ! j)"
      using folded_distinct [OF assms(1)] k that by (simp add: distinct_conv_nth)
    with False folded_table [OF assms(1) that] show ?thesis
      by (simp add: rows_of_snoc kept_rows_other)
  qed
  with assms show ?thesis unfolding folded_def Let_def by simp
qed

lemma folded_unmatched:
  assumes "folded ss rows f" and "df_index_by_schema f (row_record_type row) = None"
  shows "folded ss (rows @ [row]) f"
proof -
  let ?rc = "df_row_cap f" and ?bc = "df_byte_cap f"
  have other: "row_record_type row \<noteq> rs_name (ss ! k)" if "k < length ss" for k
    using folded_index [OF assms(1), of "row_record_type row" k] assms(2) that by auto
  then have cost: "tables_cost ss ?rc (rows @ [row]) = tables_cost ss ?rc rows"
    by (intro tables_cost_other) (metis in_set_conv_nth)
  have "df_bytes f = tables_cost ss ?rc (take (budget_rows ss ?rc ?bc rows) rows)" "df_bytes f \<le> ?bc"
    using assms(1) by (simp_all add: folded_def Let_def)
  then have "df_budget_spent f = (budget_rows ss ?rc ?bc (rows @ [row]) < length (rows @ [row]))"
    "df_bytes f = tables_cost ss ?rc (take (budget_rows ss ?rc ?bc (rows @ [row])) (rows @ [row]))"
    using assms(1) budget_rows_le [of ss ?rc ?bc rows]
    by (auto simp: folded_def Let_def budget_rows_snoc cost)
  with assms(1) other show ?thesis
    by (simp add: folded_def Let_def rows_of_snoc kept_rows_other)
qed

text \<open>A row that its table does not keep: the table is full, or the byte budget is spent.\<close>

lemma folded_dropped:
  assumes F: "folded ss rows f" and k: "k < length ss" "row_record_type row = rs_name (ss ! k)"
    and n: "n = kept_rows ss (df_row_cap f) (df_byte_cap f) rows (ss ! k)"
    and why: "df_row_cap f \<le> n \<and> spent = df_budget_spent f \<or>
      (df_budget_spent f \<or> df_byte_cap f < tables_cost ss (df_row_cap f) (rows @ [row])) \<and> spent"
  shows "folded ss (rows @ [row]) (f\<lparr>df_budget_spent := spent,
    df_tables := (df_tables f)[k := table_after (ss ! k) (rows_of (ss ! k) rows @ [row]) n]\<rparr>)"
proof -
  let ?rc = "df_row_cap f" and ?bc = "df_byte_cap f"
  let ?b = "budget_rows ss ?rc ?bc rows" and ?b' = "budget_rows ss ?rc ?bc (rows @ [row])"
  have b: "df_budget_spent f = (?b < length rows)" "?b \<le> length rows"
    and bytes: "df_bytes f = tables_cost ss ?rc (take ?b rows)" "df_bytes f \<le> ?bc"
    using F budget_rows_le by (simp_all add: folded_def Let_def)
  have full: "tables_cost ss ?rc (rows @ [row]) = tables_cost ss ?rc rows" if "?rc \<le> n"
  proof -
    have "?rc \<le> length (rows_of (ss ! k) rows)" using that kept_rows_le(2) n order_trans by blast
    with tables_cost_row [OF folded_distinct [OF F] k, of ?rc rows] show ?thesis by simp
  qed
  have "spent = (?b' < length rows + 1) \<and> n = kept_rows ss ?rc ?bc (rows @ [row]) (ss ! k) \<and>
      df_bytes f = tables_cost ss ?rc (take ?b' (rows @ [row]))"
  proof (cases "?b' = length rows + 1")
    case True
    then have "?b = length rows" "tables_cost ss ?rc (rows @ [row]) \<le> ?bc"
      using b(2) by (auto simp: budget_rows_snoc split: if_splits)
    moreover from this why b(1) have rc: "?rc \<le> n" "\<not> spent" by auto
    moreover from this n have "n = ?rc" using kept_rows_le(1) le_antisym by blast
    ultimately show ?thesis
      using True bytes(1) full kept_rows_all [of ss ?rc ?bc rows "ss ! k"] n
        kept_rows_within [OF True k(2)] by auto
  next
    case False
    then have b': "?b' = ?b" by (auto simp: budget_rows_snoc split: if_splits)
    have "spent" using False why b bytes full by (auto simp: budget_rows_snoc split: if_splits)
    with b' b(2) bytes(1) n kept_rows_spent [of ss ?rc ?bc rows row "ss ! k"] show ?thesis by simp
  qed
  with folded_update [OF F k, of n ?b' spent "df_bytes f"] bytes(2)
  have "folded ss (rows @ [row]) (f\<lparr>df_budget_spent := spent, df_bytes := df_bytes f,
      df_tables := (df_tables f)[k := table_after (ss ! k) (rows_of (ss ! k) rows @ [row]) n]\<rparr>)"
    by simp
  moreover have "f\<lparr>df_budget_spent := spent, df_bytes := df_bytes f, df_tables := t\<rparr> =
      f\<lparr>df_budget_spent := spent, df_tables := t\<rparr>" for t by simp
  ultimately show ?thesis by simp
qed

text \<open>A row that its table keeps: all the rows before it are kept too, and its cost is charged.\<close>

lemma folded_kept:
  assumes F: "folded ss rows f" and k: "k < length ss" "row_record_type row = rs_name (ss ! k)"
    and open_: "\<not> df_budget_spent f" "length (rows_of (ss ! k) rows) < df_row_cap f"
    and fits: "tables_cost ss (df_row_cap f) (rows @ [row]) \<le> df_byte_cap f"
  shows "folded ss (rows @ [row]) (f\<lparr>df_bytes := tables_cost ss (df_row_cap f) (rows @ [row]),
    df_tables := (df_tables f)[k := table_after (ss ! k) (rows_of (ss ! k) rows @ [row])
      (length (rows_of (ss ! k) rows) + 1)]\<rparr>)"
proof -
  let ?rc = "df_row_cap f" and ?bc = "df_byte_cap f" and ?c = "tables_cost ss (df_row_cap f) (rows @ [row])"
  let ?tables = "(df_tables f)[k := table_after (ss ! k) (rows_of (ss ! k) rows @ [row])
      (length (rows_of (ss ! k) rows) + 1)]"
  have "budget_rows ss ?rc ?bc rows = length rows"
    using F open_(1) budget_rows_le [of ss ?rc ?bc rows] by (simp add: folded_def Let_def)
  then have b': "budget_rows ss ?rc ?bc (rows @ [row]) = length rows + 1"
    using fits by (simp add: budget_rows_snoc)
  have "length (rows_of (ss ! k) rows) + 1 = kept_rows ss ?rc ?bc (rows @ [row]) (ss ! k)"
    using kept_rows_within [OF b' k(2)] open_(2) by simp
  from folded_update [OF F k this refl, of False ?c] b' fits
  have "folded ss (rows @ [row]) (f\<lparr>df_budget_spent := False, df_bytes := ?c, df_tables := ?tables\<rparr>)"
    by simp
  moreover have "f\<lparr>df_budget_spent := False, df_bytes := ?c, df_tables := ?tables\<rparr> =
      f\<lparr>df_bytes := ?c, df_tables := ?tables\<rparr>" using open_(1) by (cases f) simp
  ultimately show ?thesis by simp
qed

lemma saturating_add_exceeds:
  "m < u64_max \<Longrightarrow> m < saturating_add_u64 a b \<longleftrightarrow> m < a + b"
  by (auto simp: saturating_add_u64_def)

lemma fold_row_folded:
  assumes F: "folded ss rows f" and "df_byte_cap f < u64_max"
  shows "folded ss (rows @ [row]) (fold_row row f)"
proof (cases "df_index_by_schema f (row_record_type row)")
  case None
  with folded_unmatched [OF F None] show ?thesis by (simp add: fold_row_def)
next
  case (Some k)
  let ?s = "ss ! k" and ?mine = "rows_of (ss ! k) rows" and ?rc = "df_row_cap f" and ?bc = "df_byte_cap f"
  define n where "n = kept_rows ss ?rc ?bc rows ?s"
  have k: "k < length ss" "row_record_type row = rs_name ?s" using folded_index [OF F] Some by auto
  have t: "df_tables f ! k = table_after ?s ?mine n" "n \<le> length ?mine"
    using folded_table [OF F k(1)] kept_rows_le(2) by (simp_all add: n_def)
  note dropped = folded_dropped [OF F k n_def]
  let ?drop = "(df_tables f)[k := table_after ?s (?mine @ [row]) n]"
  let ?c = "row_cost (df_tables f ! k) (place_cells (begin_table ?s) (row_cells row))"
  have cost: "?c + df_bytes f = tables_cost ss ?rc (rows @ [row]) \<and> n = length ?mine"
    if "n < ?rc" "\<not> df_budget_spent f"
  proof -
    have b: "budget_rows ss ?rc ?bc rows = length rows" "df_bytes f = tables_cost ss ?rc rows"
      using F that(2) budget_rows_le [of ss ?rc ?bc rows] by (simp_all add: folded_def Let_def)
    then have n: "n = length ?mine" using that(1) by (simp add: n_def kept_rows_all min_def split: if_splits)
    with that(1) tables_cost_row [OF folded_distinct [OF F] k, of ?rc rows] row_cost_after [of ?s ?mine row] t(1) b(2)
    show ?thesis by simp
  qed
  consider (Full) "?rc \<le> n \<or> df_budget_spent f"
    | (Over) "n < ?rc" "\<not> df_budget_spent f" "?bc < df_bytes f + ?c"
    | (Kept) "n < ?rc" "\<not> df_budget_spent f" "df_bytes f + ?c \<le> ?bc"
    by linarith
  then show ?thesis
  proof cases
    case Full
    then have e: "fold_row row f = f\<lparr>df_budget_spent := df_budget_spent f, df_tables := ?drop\<rparr>"
      using Some t by (simp add: fold_row_def Let_def drop_row_after)
    show ?thesis unfolding e by (rule dropped) (use Full in auto)
  next
    case Over
    then have e: "fold_row row f = f\<lparr>df_budget_spent := True, df_tables := ?drop\<rparr>"
      using Some t assms(2) by (simp add: fold_row_def Let_def drop_row_after saturating_add_exceeds)
    show ?thesis unfolding e by (rule dropped) (use Over cost in auto)
  next
    case Kept
    with cost have c: "df_bytes f + ?c = tables_cost ss ?rc (rows @ [row])" and n: "n = length ?mine"
      by (simp_all add: add.commute)
    have "fold_row row f = f\<lparr>df_bytes := df_bytes f + ?c,
        df_tables := (df_tables f)[k := table_after ?s (?mine @ [row]) (length ?mine + 1)]\<rparr>"
      using Some t(1) Kept assms(2) keep_row_after [of row ?s ?mine] unfolding n
      by (simp add: fold_row_def Let_def saturating_add_exceeds)
    with folded_kept [OF F k] Kept show ?thesis unfolding c n by simp
  qed
qed

lemma fold_row_caps [simp]:
  "df_row_cap (fold_row row f) = df_row_cap f" "df_byte_cap (fold_row row f) = df_byte_cap f"
  by (simp_all add: fold_row_def Let_def split: option.split)

lemma fold_rows_folded:
  "folded ss done f \<Longrightarrow> df_byte_cap f < u64_max \<Longrightarrow>
     folded ss (done @ rows) (fold consume_event (map RecordEvent rows) f)"
proof (induction rows arbitrary: "done" f)
  case (Cons row rows)
  have "folded ss (done @ [row]) (fold_row row f)"
    using Cons.prems by (rule fold_row_folded)
  from Cons.IH [OF this] Cons.prems(2) show ?case by simp
qed simp

lemma fold_rows_caps:
  "df_row_cap (fold consume_event (map RecordEvent rows) f) = df_row_cap f \<and>
   df_byte_cap (fold consume_event (map RecordEvent rows) f) = df_byte_cap f"
  by (induction rows arbitrary: f) simp_all

text \<open>The fold of a whole parse: the layout, then the rows.\<close>

definition fold_of :: "rstr \<Rightarrow> nat \<Rightarrow> nat \<Rightarrow> layout_info \<Rightarrow> record_row list \<Rightarrow> document_fold" where
  "fold_of version row_cap byte_cap info rows =
     fold consume_event (LayoutInfoEvent info # map RecordEvent rows)
       (with_row_cap row_cap (with_byte_cap byte_cap (new_fold version)))"

lemma begin_fold_caps [simp]:
  "df_row_cap (begin_fold info f) = df_row_cap f" "df_byte_cap (begin_fold info f) = df_byte_cap f"
  by (simp_all add: begin_fold_def Let_def begin_schemas)

lemma fold_of_folded:
  assumes "distinct (map rs_name (li_records info))" and "byte_cap < u64_max"
  shows "folded (li_records info) rows (fold_of version row_cap byte_cap info rows)"
    and "df_row_cap (fold_of version row_cap byte_cap info rows) = row_cap"
    and "df_byte_cap (fold_of version row_cap byte_cap info rows) = byte_cap"
  using fold_rows_folded [OF begin_folded [OF assms(1), of row_cap byte_cap version], of rows]
    fold_rows_caps [of rows] assms(2)
  by (simp_all add: fold_of_def with_row_cap_def with_byte_cap_def new_fold_def)

subsection \<open>The tables of the Document\<close>

lemma table_data_of_layout: "df_layout f = df_layout g \<Longrightarrow> table_data_of f = table_data_of g"
  by (intro ext) (simp add: table_data_of_def)

lemma add_heading_frame [simp]:
  "df_layout (add_heading name f) = df_layout f"
  "doc_tables (df_document (add_heading name f)) = doc_tables (df_document f)"
  by (simp_all add: add_heading_def new_text_def push_text_def Let_def)

lemma add_description_frame [simp]:
  "df_layout (add_description text f) = df_layout f" "df_tables (add_description text f) = df_tables f"
  "doc_tables (df_document (add_description text f)) = doc_tables (df_document f)"
  by (simp_all add: add_description_def new_text_def push_text_def Let_def)

lemma table_data_of_heading [simp]: "table_data_of (add_heading name f) = table_data_of f"
  by (rule table_data_of_layout) simp

lemma write_table_data:
  "map ti_data (doc_tables (df_document (write_table h st f))) =
     map ti_data (doc_tables (df_document f)) @
     (if ts_rows st \<noteq> 0 \<or> ts_dropped st \<noteq> 0 then [Some (table_data_of f st)] else [])"
  by (simp add: write_table_def add_table_def Let_def)

lemma write_table_frame [simp]: "table_data_of (write_table h st f) = table_data_of f"
  by (rule table_data_of_layout) (simp add: write_table_def add_table_def Let_def)

lemma write_tables_data:
  "map ti_data (doc_tables (df_document (fold (write_table h) states f))) =
     map ti_data (doc_tables (df_document f)) @
     map (\<lambda>st. Some (table_data_of f st))
       (filter (\<lambda>st. ts_rows st \<noteq> 0 \<or> ts_dropped st \<noteq> 0) states)"
  by (induction states arbitrary: f) (simp_all add: write_table_data)

lemma take_document_data:
  assumes "doc_tables (df_document f) = []"
  shows "map ti_data (doc_tables (take_document f)) =
    map (\<lambda>st. Some (table_data_of f st))
      (filter (\<lambda>st. ts_rows st \<noteq> 0 \<or> ts_dropped st \<noteq> 0) (df_tables f))"
proof -
  obtain g where g: "take_document f = df_document (fold (write_table (1 < length (df_tables f))) (df_tables f) g)"
    "doc_tables (df_document g) = []" "df_layout g = df_layout f"
  proof (cases "df_description f = []")
    case True
    with that [of "f\<lparr>df_description := [], df_tables := []\<rparr>"] assms show ?thesis
      by (simp add: take_document_def Let_def)
  next
    case False
    with that [of "(add_description (df_description f) (f\<lparr>df_description := []\<rparr>))\<lparr>df_tables := []\<rparr>"]
      assms show ?thesis by (simp add: take_document_def Let_def)
  qed
  show ?thesis
    unfolding g(1) write_tables_data table_data_of_layout [OF g(3)] by (simp add: g(2))
qed

lemma fold_of_no_tables: "doc_tables (df_document (fold_of version rc bc info rows)) = []"
proof -
  have b: "doc_tables (df_document (begin_fold info f)) = doc_tables (df_document f)" for f
    by (simp add: begin_fold_def Let_def)
  have "doc_tables (df_document (fold consume_event (map RecordEvent rows) f)) = doc_tables (df_document f)" for f
    by (induction rows arbitrary: f) simp_all
  then show ?thesis
    by (simp add: fold_of_def b with_row_cap_def with_byte_cap_def new_fold_def)
qed

lemma folded_tables:
  assumes "folded ss rows f"
  shows "df_tables f = map (\<lambda>s. table_after s (rows_of s rows) (kept_rows ss (df_row_cap f) (df_byte_cap f) rows s)) ss"
  using assms by (intro nth_equalityI) (auto simp: folded_def)

text \<open>The data of a table as the Document must show it.\<close>

definition shows_rows :: "record_schema \<Rightarrow> record_row list \<Rightarrow> nat \<Rightarrow> table_data \<Rightarrow> bool" where
  "shows_rows s mine n d \<longleftrightarrow>
     td_grid d = header_row (begin_table s) # grid_of s (take n mine) \<and>
     td_cells d = concat (td_grid d) \<and>
     td_row_prov d = None # map row_span (take n mine) \<and>
     td_columns d = map column_schema_of (ts_columns (begin_table s)) \<and>
     td_num_rows d = clamp (n + 1) \<and> td_num_cols d = clamp (length (td_columns d)) \<and>
     (\<exists>l. td_record_layout d = Some l \<and> rlm_record_length l = Some (rs_record_length s) \<and>
        rlm_rows_truncated l = Some (length mine - n))"

lemma table_data_shows: "shows_rows s mine n (table_data_of f (table_after s mine n))"
  by (simp add: shows_rows_def table_data_of_def Let_def header_row_def clamp_def saturating_add_u64_def
      min_def)

lemma map_eq_list_all2: "map g ts = map h ks \<Longrightarrow> list_all2 (\<lambda>k t. g t = h k) ks ts"
  by (induction ks arbitrary: ts) (auto simp: Cons_eq_map_conv)

text \<open>The tables of a fold: of every schema the first \<open>kept_rows\<close> of its rows.\<close>

lemma map_nth_eq: "map g xs = map (\<lambda>k. g (xs ! k)) [0..<length xs]"
  by (rule nth_equalityI) simp_all

lemma fold_tables_kept:
  assumes "distinct (map rs_name (li_records info))" and "byte_cap < u64_max"
  shows "df_tables (fold_of version row_cap byte_cap info rows) =
    map (\<lambda>k. table_after (li_records info ! k) (rows_of (li_records info ! k) rows)
        (kept_rows (li_records info) row_cap byte_cap rows (li_records info ! k)))
      [0..<length (li_records info)]"
  using folded_tables [OF fold_of_folded(1) [OF assms]]
  unfolding fold_of_folded(2,3) [OF assms] by (rule trans [OF _ map_nth_eq])

lemma kept_tables_shown:
  assumes "df_tables f = map (\<lambda>k. table_after (s k) (mine k) (kept k)) [0..<n]"
    and "\<forall>k < n. kept k \<le> length (mine k)" and "doc_tables (df_document f) = []"
  shows "list_all2 (\<lambda>k t. \<exists>d. ti_data t = Some d \<and> shows_rows (s k) (mine k) (kept k) d)
    (filter (\<lambda>k. mine k \<noteq> []) [0..<n]) (doc_tables (take_document f))"
proof -
  have occur: "filter (\<lambda>k. 0 < kept k \<or> kept k < length (mine k)) [0..<n] =
      filter (\<lambda>k. mine k \<noteq> []) [0..<n]"
    using assms(2) by (intro filter_cong) auto
  have "map ti_data (doc_tables (take_document f)) =
      map (\<lambda>k. Some (table_data_of f (table_after (s k) (mine k) (kept k))))
        (filter (\<lambda>k. mine k \<noteq> []) [0..<n])"
    using take_document_data [of f] assms(3) by (simp add: assms(1) filter_map comp_def occur)
  then have "list_all2 (\<lambda>k t. ti_data t = Some (table_data_of f (table_after (s k) (mine k) (kept k))))
      (filter (\<lambda>k. mine k \<noteq> []) [0..<n]) (doc_tables (take_document f))"
    by (rule map_eq_list_all2)
  then show ?thesis by (rule list_all2_mono) (use table_data_shows in blast)
qed

lemma kept_tables_warned:
  assumes "df_tables f = map (\<lambda>k. table_after (s k) (mine k) (kept k)) [0..<n]"
  shows "map warning_offset (truncation_warnings f) =
    map (\<lambda>k. row_byte_offset (mine k ! kept k)) (filter (\<lambda>k. kept k < length (mine k)) [0..<n])"
proof -
  have "filter (\<lambda>k. 0 < length (mine k) - kept k) [0..<n] = filter (\<lambda>k. kept k < length (mine k)) [0..<n]"
    by (intro filter_cong) auto
  then show ?thesis
    by (simp add: truncation_warnings_def assms filter_map comp_def truncation_warning_def table_after_def)
qed

lemma no_truncation_warnings:
  assumes "distinct (map rs_name (li_records info))" and "byte_cap < u64_max"
  shows "truncation_warnings (fold_of version row_cap byte_cap info rows) = [] \<longleftrightarrow>
    (\<forall>s \<in> set (li_records info).
       kept_rows (li_records info) row_cap byte_cap rows s = length (rows_of s rows))"
proof -
  let ?ss = "li_records info"
  have "truncation_warnings (fold_of version row_cap byte_cap info rows) = [] \<longleftrightarrow>
      (\<forall>k < length ?ss. \<not> kept_rows ?ss row_cap byte_cap rows (?ss ! k) < length (rows_of (?ss ! k) rows))"
    using arg_cong [OF kept_tables_warned [OF fold_tables_kept [OF assms]], of "\<lambda>xs. xs = []"]
    by (auto simp: filter_empty_conv)
  also have "\<dots> \<longleftrightarrow> (\<forall>k < length ?ss. kept_rows ?ss row_cap byte_cap rows (?ss ! k) = length (rows_of (?ss ! k) rows))"
    using kept_rows_le(2) by (metis le_neq_implies_less less_irrefl)
  finally show ?thesis by (simp add: all_set_conv_all_nth)
qed

text \<open>C10. For a layout whose schemas have distinct names, the Document of a parse has one table for
each schema that occurred, in layout order. A table shows the header and the first rows of its own
schema in arrival order, with the byte span of each, exactly as many as the caps allow: up to the row
cap, of the rows that arrived before the first one whose tables would cost more than the byte cap. It
states how many were left out, and a warning names the first row that was, exactly when there is one.\<close>

theorem document_shows_rows:
  assumes "distinct (map rs_name (li_records info))" and "byte_cap < u64_max"
    and f_def: "f = fold_of version row_cap byte_cap info rows"
    and mine_def: "mine = (\<lambda>k. rows_of (li_records info ! k) rows)"
    and kept_def: "kept = (\<lambda>k. kept_rows (li_records info) row_cap byte_cap rows (li_records info ! k))"
  shows "list_all2 (\<lambda>k t. \<exists>d. ti_data t = Some d \<and> shows_rows (li_records info ! k) (mine k) (kept k) d)
      (filter (\<lambda>k. mine k \<noteq> []) [0..<length (li_records info)]) (doc_tables (take_document f)) \<and>
    map warning_offset (truncation_warnings f) =
      map (\<lambda>k. row_byte_offset (mine k ! kept k))
        (filter (\<lambda>k. kept k < length (mine k)) [0..<length (li_records info)])"
proof -
  have t: "df_tables f =
      map (\<lambda>k. table_after (li_records info ! k) (mine k) (kept k)) [0..<length (li_records info)]"
    unfolding f_def mine_def kept_def by (rule fold_tables_kept [OF assms(1,2)])
  have "\<forall>k < length (li_records info). kept k \<le> length (mine k)"
    by (simp add: kept_def mine_def kept_rows_le)
  from kept_tables_shown [OF t this] kept_tables_warned [OF t] show ?thesis
    by (simp add: f_def fold_of_no_tables)
qed

text \<open>C29. The fold is bounded: whatever rows arrive, the estimated bytes of all the cells it holds, with
the header of every table that has a row, are within the byte cap, and no table has more rows than
the row cap.\<close>

theorem document_bounded:
  assumes "distinct (map rs_name (li_records info))" and "byte_cap < u64_max"
  shows "sum_list (map table_cost (df_tables (fold_of version row_cap byte_cap info rows))) \<le> byte_cap \<and>
    (\<forall>st \<in> set (df_tables (fold_of version row_cap byte_cap info rows)).
       length (ts_grid st) = ts_rows st \<and> ts_rows st \<le> row_cap)"
proof
  let ?f = "fold_of version row_cap byte_cap info rows"
  note F = fold_of_folded [OF assms, where rows = rows and version = version and row_cap = row_cap]
  note T = folded_tables [OF F(1), unfolded F(2,3)]
  have "df_bytes ?f = sum_list (map table_cost (df_tables ?f))"
    using F unfolding T by (simp add: folded_def Let_def tables_cost_def comp_def table_cost_shown take_kept_rows)
  then show "sum_list (map table_cost (df_tables ?f)) \<le> byte_cap"
    using F by (simp add: folded_def Let_def)
  show "\<forall>st \<in> set (df_tables ?f). length (ts_grid st) = ts_rows st \<and> ts_rows st \<le> row_cap"
    unfolding T by (auto simp: grid_of_def kept_rows_le min.absorb2)
qed

subsection \<open>A small parse\<close>

definition sample_schema :: record_schema where
  "sample_schema =
     \<lparr>rs_name = lit ''R'', rs_record_length = 2,
      rs_fields = [\<lparr>fs_name = lit ''A'', fs_offset = 0, fs_size = 2, fs_type = 1, fs_scale = 0,
        fs_picture = [], fs_level = None, fs_path = [], fs_occurs_index = None,
        fs_occurs_group = None, fs_conditions = []\<rparr>],
      rs_selector = None\<rparr>"

definition sample_info :: layout_info where
  "sample_info =
     \<lparr>li_encoding = lit ''cp037'', li_records = [sample_schema], li_description = [],
      li_header_size = 0, li_footer_size = 0, li_prefix_size = 0, li_source = SourceProto\<rparr>"

definition sample_row :: record_row where
  "sample_row =
     \<lparr>row_record_type = lit ''R'', row_index = 0, row_record_index = 0, row_byte_offset = 0,
      row_cells = [\<lparr>cell_name = lit ''A'', cell_type = 1, cell_val = Some (TextValue (lit ''hi''))\<rparr>],
      row_byte_length = 2\<rparr>"

theorem document_shows_rows_witness:
  "list_all2 (\<lambda>k t. \<exists>d. ti_data t = Some d \<and> shows_rows sample_schema [sample_row, sample_row] 1 d)
     [0 :: nat] (doc_tables (take_document (fold_of [] 10 250 sample_info [sample_row, sample_row])))"
proof -
  let ?ss = "li_records sample_info" and ?rows = "[sample_row, sample_row]"
  have d: "distinct (map rs_name ?ss)" "(250 :: nat) < u64_max" by (simp_all add: sample_info_def)
  have s: "?ss ! 0 = sample_schema" "length ?ss = 1" "?ss = [sample_schema]"
    and mine: "rows_of sample_schema ?rows = ?rows" and one_row: "rows_of sample_schema [sample_row] = [sample_row]"
    by (simp_all add: rows_of_def sample_info_def sample_schema_def sample_row_def)
  have "place_cells (begin_table sample_schema) (row_cells sample_row) = [(lit ''hi'', None)]"
    by (simp add: place_cells_def begin_table_def Let_def sample_schema_def sample_row_def column_of_def
        index_columns_def cell_text_def cell_number_def)
  moreover have "map column_name (ts_columns (begin_table sample_schema)) = [lit ''A'']"
    by (simp add: begin_table_def Let_def sample_schema_def column_of_def)
  then have "map (\<lambda>c. utf8_len (column_name c)) (ts_columns (begin_table sample_schema)) = [1]"
    using arg_cong [of _ _ "map utf8_len"] by (fastforce simp: utf8_len_def lit_def)
  ultimately have cost: "tables_cost ?ss 10 [sample_row] = 198" "tables_cost ?ss 10 ?rows = 298"
    unfolding tables_cost_def s(3)
    by (simp_all add: mine one_row shown_cost_def cells_cost_def CELL_OVERHEAD_BYTES_def ROW_OVERHEAD_BYTES_def
        utf8_len_def lit_def)
  have "budget_rows ?ss 10 250 ?rows = 1" by (simp add: budget_rows_def cost)
  then have kept: "kept_rows ?ss 10 250 ?rows sample_schema = 1" by (simp add: kept_rows_def one_row)
  show ?thesis
    using document_shows_rows [OF d refl refl refl, where version = "[]" and row_cap = 10 and rows = ?rows]
    unfolding s(3) by (auto simp: list_all2_Cons1 mine kept [unfolded s(3)])
qed

theorem document_bounded_witness:
  "sum_list (map table_cost (df_tables (fold_of [] 10 1000 sample_info [sample_row]))) \<le> 1000"
  using document_bounded [where info = sample_info and byte_cap = 1000 and version = "[]"
      and row_cap = 10 and rows = "[sample_row]"]
  by (simp add: sample_info_def)

subsection \<open>Cells in their columns\<close>

lemma index_columns_Some:
  assumes "distinct (map column_name columns)"
  shows "index_columns columns name = Some j \<longleftrightarrow> j < length columns \<and> column_name (columns ! j) = name"
proof -
  have "distinct (map fst (rev (zip (map column_name columns) [0..<length columns])))"
    using assms by (simp add: rev_map [symmetric])
  then have "index_columns columns name = Some j \<longleftrightarrow>
      (name, j) \<in> set (zip (map column_name columns) [0..<length columns])"
    by (simp add: index_columns_def map_of_eq_Some_iff)
  also have "\<dots> \<longleftrightarrow> j < length columns \<and> column_name (columns ! j) = name"
    by (auto simp: set_zip intro!: exI [of _ j])
  finally show ?thesis .
qed

lemma place_cells_nth:
  assumes "distinct (map column_name (ts_columns st))"
    and "ts_column_index st = index_columns (ts_columns st)" and "j < length (ts_columns st)"
  shows "length (place_cells st cells) = length (ts_columns st) \<and>
    place_cells st cells ! j =
      (case find (\<lambda>c. cell_name c = column_name (ts_columns st ! j)) (rev cells) of
         None \<Rightarrow> ([], None) | Some c \<Rightarrow> (cell_text c, cell_number c))"
proof (induction cells rule: rev_induct)
  case Nil
  show ?case using assms(3) by (simp add: place_cells_def)
next
  case (snoc c cells)
  have step: "place_cells st (cells @ [c]) =
      (case ts_column_index st (cell_name c) of None \<Rightarrow> place_cells st cells
       | Some i \<Rightarrow> (place_cells st cells)[i := (cell_text c, cell_number c)])"
    unfolding place_cells_def by simp
  have i: "ts_column_index st (cell_name c) = Some i \<longleftrightarrow>
      i < length (ts_columns st) \<and> column_name (ts_columns st ! i) = cell_name c" for i
    unfolding assms(2) by (rule index_columns_Some [OF assms(1)])
  show ?case
  proof (cases "cell_name c = column_name (ts_columns st ! j)")
    case True
    with i assms(3) have "ts_column_index st (cell_name c) = Some j" by simp
    with True snoc assms(3) show ?thesis by (simp add: step)
  next
    case False
    show ?thesis
    proof (cases "ts_column_index st (cell_name c)")
      case None
      with snoc False show ?thesis by (simp add: step)
    next
      case (Some k)
      with i [of k] False have "k \<noteq> j" by auto
      with snoc False Some show ?thesis by (simp add: step)
    qed
  qed
qed

text \<open>Cells land in the column of their name, whatever order they arrive in: a column shows the text
and the number of the last cell that carries its name, and stays empty when there is none.\<close>

theorem cells_land_in_columns:
  assumes "st = begin_table s" and "distinct (map column_name (ts_columns st))"
    and "j < length (ts_columns st)"
  shows "map tc_text (grid_row r (place_cells st cells)) ! j =
    (case find (\<lambda>c. cell_name c = column_name (ts_columns st ! j)) (rev cells) of
       None \<Rightarrow> [] | Some c \<Rightarrow> cell_text c)"
proof -
  have "ts_column_index st = index_columns (ts_columns st)"
    by (simp add: assms(1) begin_table_def Let_def)
  note P = place_cells_nth [OF assms(2) this assms(3), of cells]
  have "map fst (place_cells st cells) ! j = fst (place_cells st cells ! j)"
    by (rule nth_map) (simp only: P [THEN conjunct1] assms(3))
  also have "\<dots> = (case find (\<lambda>c. cell_name c = column_name (ts_columns st ! j)) (rev cells) of
      None \<Rightarrow> [] | Some c \<Rightarrow> cell_text c)"
    unfolding P [THEN conjunct2]
    by (cases "find (\<lambda>c. cell_name c = column_name (ts_columns st ! j)) (rev cells)") simp_all
  finally show ?thesis unfolding grid_row_texts .
qed

theorem cells_land_in_columns_witness:
  "map tc_text (grid_row 1 (place_cells (begin_table sample_schema) (row_cells sample_row))) ! 0 = lit ''hi''"
proof -
  let ?cols = "ts_columns (begin_table sample_schema)"
  have n: "map column_name ?cols = [lit ''A'']"
    by (simp add: begin_table_def Let_def sample_schema_def column_of_def)
  then have l: "length ?cols = 1" by (metis One_nat_def length_Cons length_map list.size(3))
  then have "column_name (?cols ! 0) = lit ''A''" using n by (metis nth_Cons_0 nth_map zero_less_one)
  then have "find (\<lambda>c. cell_name c = column_name (?cols ! 0)) (rev (row_cells sample_row)) =
      Some (row_cells sample_row ! 0)"
    by (simp add: sample_row_def)
  moreover have "cell_text (row_cells sample_row ! 0) = lit ''hi''"
    by (simp add: sample_row_def cell_text_def)
  ultimately show ?thesis
    using cells_land_in_columns [OF refl, of sample_schema 0 1 "row_cells sample_row"] n l by simp
qed

subsection \<open>Integers that a double holds\<close>

lemma round_half_even_int [simp]: "round_half_even (of_int n) = n"
  by (simp add: round_half_even_def Let_def)

lemma floorlog_bounds:
  assumes "0 < a"
  shows "2 ^ (floorlog 2 a - 1) \<le> a" and "0 < floorlog 2 a" and "a < 2 ^ k \<Longrightarrow> floorlog 2 a \<le> k"
proof -
  show "2 ^ (floorlog 2 a - 1) \<le> a" using floorlog_bounds [of a 2] assms by simp
  show "0 < floorlog 2 a" using assms by (simp add: floorlog_def)
  show "floorlog 2 a \<le> k" if "a < 2 ^ k"
    using floorlog_leI [of a 2 k] that by simp
qed

lemma int_as_f64_exact:
  assumes "\<bar>n\<bar> < 2 ^ 53"
  shows "int_as_f64 n = of_int n"
proof (cases "n = 0")
  case True
  then show ?thesis by (simp add: int_as_f64_def nearest_f64_def)
next
  case False
  let ?a = "nat \<bar>n\<bar>"
  let ?k = "floorlog 2 ?a - 1"
  have a: "0 < ?a" "?a < 2 ^ 53" using False assms by (simp_all add: nat_less_iff)
  note F = floorlog_bounds [OF a(1)]
  have one: "floorlog 2 1 = 1" by (simp add: floorlog_def)
  have k: "?k \<le> 52" "int (floorlog 2 ?a) - int (floorlog 2 1) = int ?k"
    using F(2) F(3) [OF a(2)] one by linarith+
  have "(2 :: rat) ^ ?k \<le> of_nat ?a" using F(1) by (metis of_nat_le_iff of_nat_numeral of_nat_power)
  then have lead: "leading_bit ?a 1 = int ?k"
    unfolding leading_bit_def k(2) by (simp add: Let_def two_to_def)
  let ?m = "52 - ?k"
  have u: "two_to (int ?k - 52) = 1 / 2 ^ ?m"
    using k(1) by (auto simp: two_to_def nat_diff_distrib intro!: arg_cong [of _ _ "\<lambda>x. 2 ^ x"])
  have "of_nat ?a / of_nat 1 / (1 / 2 ^ ?m :: rat) = of_int (int ?a * 2 ^ ?m)" by simp
  then have r: "round_half_even (of_nat ?a / of_nat 1 / (1 / 2 ^ ?m)) = int ?a * 2 ^ ?m"
    by (simp only: round_half_even_int)
  have "int_as_f64 n = of_int (sgn n) *
      of_int (round_half_even (of_nat ?a / of_nat 1 / two_to (int ?k - 52))) * two_to (int ?k - 52)"
    using False by (simp only: int_as_f64_def nearest_f64_def lead Let_def if_False)
  also have "\<dots> = of_int (sgn n) * of_int (int ?a * 2 ^ ?m) * (1 / 2 ^ ?m)"
    by (simp only: u r)
  also have "\<dots> = of_int (sgn n * int ?a)" by simp
  also have "sgn n * int ?a = n" by (simp add: sgn_mult_abs)
  finally show ?thesis .
qed

text \<open>The counts a Document states as doubles (row counts under the fold cap, widths, boundary sizes)
and every integer cell below \<open>2 ^ 53\<close> are exact.\<close>

theorem counts_are_exact:
  assumes "n < 2 ^ 53"
  shows "number_value n = NumberValue (of_nat n) \<and>
    cell_number \<lparr>cell_name = name, cell_type = t, cell_val = Some (IntegerValue (- int n))\<rparr> =
      Some (- of_nat n)"
proof -
  have "\<bar>int n\<bar> < 2 ^ 53" "\<bar>- int n\<bar> < 2 ^ 53" using assms by simp_all
  then show ?thesis by (simp add: number_value_def cell_number_def int_as_f64_exact)
qed

theorem counts_are_exact_witness: "number_value 100000 = NumberValue 100000"
  using counts_are_exact [of 100000] by simp

end
