(* ===== verification/Service.thy ===== *)
theory Service
  imports Stream_Correct Copybook Document_Fold
begin

section \<open>The parse service\<close>

text \<open>
  The model of \<^verbatim>\<open>src/service.rs\<close> and of the counters of \<^verbatim>\<open>src/metrics.rs\<close>. What a
  request stream delivers is a list of \<open>inbound\<close> results, ended by the end of the stream (a stream
  that never ends is in Endless_Requests); what the client does with the n-th event is a \<open>client\<close>: it
  takes it, is gone, or takes nothing for the idle timeout. \<open>session\<close> is what one parse threads: the walker, the outbound half, the counters.
  An \<^verbatim>\<open>await\<close> is the result it yields.
\<close>

subsection \<open>Counters\<close>

type_synonym u64 = "64 word"

record metrics =
  m_parses_started :: u64
  m_parses_completed :: u64
  m_parses_failed :: u64
  m_parses_rejected :: u64
  m_records_emitted :: u64
  m_bytes_received :: u64
  m_byte_cap_hits :: u64

definition new_metrics :: metrics where
  "new_metrics =
     \<lparr>m_parses_started = 0, m_parses_completed = 0, m_parses_failed = 0, m_parses_rejected = 0,
      m_records_emitted = 0, m_bytes_received = 0, m_byte_cap_hits = 0\<rparr>"

text \<open>\<^verbatim>\<open>fetch_add\<close> wraps.\<close>

definition counter_add :: "u64 \<Rightarrow> u64 \<Rightarrow> u64" where
  "counter_add counter amount = counter + amount"

definition counter_bump :: "u64 \<Rightarrow> u64" where
  "counter_bump counter = counter_add counter 1"

definition metrics_line :: "metrics \<Rightarrow> msg" where
  "metrics_line m =
     [MLit ''grpc-ebcdic metrics: parses{started='', MNat (unat (m_parses_started m)),
      MLit '',completed='', MNat (unat (m_parses_completed m)),
      MLit '',failed='', MNat (unat (m_parses_failed m)),
      MLit '',rejected='', MNat (unat (m_parses_rejected m)),
      MLit ''} records='', MNat (unat (m_records_emitted m)),
      MLit '' bytes='', MNat (unat (m_bytes_received m)),
      MLit '' byte_cap_hits='', MNat (unat (m_byte_cap_hits m))]"

subsection \<open>Configuration\<close>

definition DEFAULT_MAX_DOCUMENT_MIB :: nat where
  "DEFAULT_MAX_DOCUMENT_MIB = 512"

definition DEFAULT_MAX_CONCURRENT_PARSES :: nat where
  "DEFAULT_MAX_CONCURRENT_PARSES = 64"

definition DEFAULT_IDLE_TIMEOUT_SECONDS :: nat where
  "DEFAULT_IDLE_TIMEOUT_SECONDS = 30"

text \<open>The semaphore is the number of permits left; the idle timeout is in milliseconds.\<close>

record service =
  svc_max_document_bytes :: nat
  svc_idle_timeout :: nat
  svc_permits :: nat
  svc_max_concurrent_parses :: nat

definition new_service :: service where
  "new_service =
     \<lparr>svc_max_document_bytes = DEFAULT_MAX_DOCUMENT_MIB * 2 ^ 20,
      svc_idle_timeout = DEFAULT_IDLE_TIMEOUT_SECONDS * 1000,
      svc_permits = DEFAULT_MAX_CONCURRENT_PARSES,
      svc_max_concurrent_parses = DEFAULT_MAX_CONCURRENT_PARSES\<rparr>"

definition with_max_document_mib :: "nat \<Rightarrow> service \<Rightarrow> service" where
  "with_max_document_mib mib s = s\<lparr>svc_max_document_bytes := max mib 1 * 2 ^ 20\<rparr>"

definition with_idle_timeout :: "nat \<Rightarrow> service \<Rightarrow> service" where
  "with_idle_timeout ms s = s\<lparr>svc_idle_timeout := max ms 1\<rparr>"

definition with_max_concurrent_parses :: "nat \<Rightarrow> service \<Rightarrow> service" where
  "with_max_concurrent_parses n s =
     s\<lparr>svc_max_concurrent_parses := max n 1, svc_permits := max n 1\<rparr>"

definition byte_cap :: "service \<Rightarrow> parse_options \<Rightarrow> nat" where
  "byte_cap s options =
     (if po_max_document_mib options = 0 then svc_max_document_bytes s
      else min (po_max_document_mib options * 2 ^ 20) (svc_max_document_bytes s))"

subsection \<open>The two ends of a parse\<close>

datatype inbound =
    Message "request_frame option"
  | StreamFailed status rstr
  | Quiet

datatype reply =
    Takes
  | Gone
  | Stalls

type_synonym client = "nat \<Rightarrow> reply"

text \<open>
  The outbound half: the events the channel took, how often a send was tried, the fold when a
  Document was asked for, and the idle timeout.
\<close>

record event_sink =
  sk_taken :: "event list"
  sk_sends :: nat
  sk_fold :: "document_fold option"
  sk_idle :: nat

definition sink_send :: "client \<Rightarrow> event \<Rightarrow> event_sink \<Rightarrow> (parse_error + unit) \<times> event_sink" where
  "sink_send client e k =
     (let reply = client (sk_sends k);
          k = k\<lparr>sk_fold := map_option (consume_event e) (sk_fold k), sk_sends := sk_sends k + 1\<rparr> in
      case reply of
        Takes \<Rightarrow> (Inr (), k\<lparr>sk_taken := sk_taken k @ [e]\<rparr>)
      | Gone \<Rightarrow> (Inl (Internal [MLit ''the client stopped reading the event stream'']), k)
      | Stalls \<Rightarrow>
          (Inl (TimedOut [MLit ''the client took no event for '', MNat (sk_idle k),
             MLit '' ms; a stalled stream may not hold a parse slot'']), k))"

text \<open>The trailer, with the fold's warnings; the Document goes out right before it.\<close>

definition sink_finish :: "client \<Rightarrow> parse_status \<Rightarrow> event_sink \<Rightarrow> (parse_error + unit) \<times> event_sink" where
  "sink_finish client st k =
     (case sk_fold k of
        None \<Rightarrow> sink_send client (StatusEvent st) k
      | Some f \<Rightarrow>
          let st = st\<lparr>ps_warnings := ps_warnings st @ truncation_warnings f\<rparr>;
              f = consume_event (StatusEvent st) f;
              (r, k) = sink_send client (DocumentEvent (take_document f)) (k\<lparr>sk_fold := None\<rparr>)
          in case r of
               Inl e \<Rightarrow> (Inl e, k)
             | Inr _ \<Rightarrow> sink_send client (StatusEvent st) k)"

subsection \<open>One parse\<close>

record session =
  ss_walk :: record_stream
  ss_sink :: event_sink
  ss_metrics :: metrics

text \<open>\<^verbatim>\<open>drain\<close>: every record the walker can produce now, sent one by one.\<close>

partial_function (option) drain_to :: "client \<Rightarrow> session \<Rightarrow> ((parse_error + unit) \<times> session) option" where
  "drain_to client s =
     (case next_record (ss_walk s) of
        (Inl e, w) \<Rightarrow> Some (Inl e, s\<lparr>ss_walk := w\<rparr>)
      | (Inr None, w) \<Rightarrow> Some (Inr (), s\<lparr>ss_walk := w\<rparr>)
      | (Inr (Some row), w) \<Rightarrow>
          (case sink_send client (RecordEvent row) (ss_sink s) of
             (Inl e, k) \<Rightarrow>
               Some (Inl e, s\<lparr>ss_walk := w, ss_sink := k, ss_metrics := (ss_metrics s)
                 \<lparr>m_records_emitted := counter_bump (m_records_emitted (ss_metrics s))\<rparr>\<rparr>)
           | (Inr _, k) \<Rightarrow>
               drain_to client (s\<lparr>ss_walk := w, ss_sink := k, ss_metrics := (ss_metrics s)
                 \<lparr>m_records_emitted := counter_bump (m_records_emitted (ss_metrics s))\<rparr>\<rparr>)))"

definition idle_error :: "nat \<Rightarrow> parse_error" where
  "idle_error ms =
     TimedOut [MLit ''no request frame arrived for '', MNat ms,
       MLit '' ms; an idle stream may not hold a parse slot'']"

definition push_frame :: "u8 list \<Rightarrow> session \<Rightarrow> session" where
  "push_frame chunk s =
     s\<lparr>ss_walk := push chunk (ss_walk s),
       ss_metrics := (ss_metrics s)
         \<lparr>m_bytes_received :=
            counter_add (m_bytes_received (ss_metrics s)) (word_of_nat (length chunk))\<rparr>\<rparr>"

text \<open>The loop over the frames; the end of the list is the end of the request stream.\<close>

fun read_frames ::
  "client \<Rightarrow> nat \<Rightarrow> nat \<Rightarrow> inbound list \<Rightarrow> session \<Rightarrow> ((parse_error + unit) \<times> session) option" where
  "read_frames client cap idle [] s = Some (Inr (), s)"
| "read_frames client cap idle (StreamFailed _ text # rest) s =
     Some (Inl (Internal [MLit ''request stream failed: '', MStr text]), s)"
| "read_frames client cap idle (Quiet # rest) s = Some (Inl (idle_error idle), s)"
| "read_frames client cap idle (Message None # rest) s = read_frames client cap idle rest s"
| "read_frames client cap idle (Message (Some (OptionsFrame _)) # rest) s =
     Some (Inl (Invalid [MLit ''options may only appear in the first frame of a parse stream'']), s)"
| "read_frames client cap idle (Message (Some (ChunkFrame chunk)) # rest) s =
     (if cap < rs_received (ss_walk s) + length chunk then
        Some (Inl (Exhausted [MLit ''the input exceeds the '', MNat cap,
          MLit ''-byte cap for this stream'']), s)
      else
        Option.bind (drain_to client (push_frame chunk s)) (\<lambda>(r, s).
          case r of
            Inl e \<Rightarrow> Some (Inl e, s)
          | Inr _ \<Rightarrow> read_frames client cap idle rest s))"

definition finish_parse :: "client \<Rightarrow> session \<Rightarrow> ((parse_error + unit) \<times> session) option" where
  "finish_parse client s =
     Option.bind (drain_to client (s\<lparr>ss_walk := finish_input (ss_walk s)\<rparr>)) (\<lambda>(r, s).
       case r of
         Inl e \<Rightarrow> Some (Inl e, s)
       | Inr _ \<Rightarrow>
           (case status_of (ss_walk s) of
              Inl e \<Rightarrow> Some (Inl e, s)
            | Inr st \<Rightarrow>
                let (r, k) = sink_finish client st (ss_sink s) in Some (r, s\<lparr>ss_sink := k\<rparr>)))"

definition run_parse ::
  "client \<Rightarrow> nat \<Rightarrow> nat \<Rightarrow> layout_info \<Rightarrow> inbound list \<Rightarrow> session \<Rightarrow>
     ((parse_error + unit) \<times> session) option" where
  "run_parse client cap idle info inbound s =
     (let (r, k) = sink_send client (LayoutInfoEvent info) (ss_sink s); s = s\<lparr>ss_sink := k\<rparr> in
      case r of
        Inl e \<Rightarrow> Some (Inl e, s)
      | Inr _ \<Rightarrow>
          Option.bind (read_frames client cap idle inbound s) (\<lambda>(r, s).
            case r of
              Inl e \<Rightarrow> Some (Inl e, s)
            | Inr _ \<Rightarrow> finish_parse client s))"

subsection \<open>One call\<close>

text \<open>What the response stream carries: an event, or the error that ends it.\<close>

datatype stream_item =
    EventItem event
  | ErrorItem status

definition first_options :: "nat \<Rightarrow> inbound list \<Rightarrow> status + (parse_options \<times> inbound list)" where
  "first_options idle inbound =
     (case inbound of
        [] \<Rightarrow> Inl (InvalidArgument, [MLit ''the request stream ended before its options frame''])
      | StreamFailed st _ # _ \<Rightarrow> Inl st
      | Quiet # _ \<Rightarrow> Inl (to_status (idle_error idle))
      | Message None # _ \<Rightarrow> Inl (InvalidArgument, [MLit ''the first frame is empty''])
      | Message (Some (ChunkFrame _)) # _ \<Rightarrow>
          Inl (InvalidArgument,
            [MLit ''the first frame must carry options, not data: the server cannot decode bytes '',
             MLit ''before it has the layout''])
      | Message (Some (OptionsFrame options)) # rest \<Rightarrow> Inr (options, rest))"

definition decode_options_of :: "codec \<Rightarrow> parse_options \<Rightarrow> decode_options" where
  "decode_options_of c options =
     \<lparr>opt_codec = c,
      opt_strip_control = (case po_strip_control_characters options of None \<Rightarrow> True | Some b \<Rightarrow> b),
      opt_max_records = po_max_records options, opt_abort_on_error = po_abort_on_error options\<rparr>"

definition new_sink :: "service \<Rightarrow> rstr \<Rightarrow> parse_options \<Rightarrow> event_sink" where
  "new_sink svc version options =
     \<lparr>sk_taken = [], sk_sends = 0,
      sk_fold = (if po_emit_document options then Some (new_fold version) else None),
      sk_idle = svc_idle_timeout svc\<rparr>"

text \<open>The spawned task: the parse, then its outcome counted and its error sent.\<close>

definition count_outcome :: "parse_error + unit \<Rightarrow> metrics \<Rightarrow> metrics" where
  "count_outcome outcome m =
     (case outcome of
        Inr _ \<Rightarrow> m\<lparr>m_parses_completed := counter_bump (m_parses_completed m)\<rparr>
      | Inl e \<Rightarrow>
          let m = m\<lparr>m_parses_failed := counter_bump (m_parses_failed m)\<rparr> in
          if code e = ResourceExhausted
          then m\<lparr>m_byte_cap_hits := counter_bump (m_byte_cap_hits m)\<rparr> else m)"

definition parse_task ::
  "client \<Rightarrow> nat \<Rightarrow> nat \<Rightarrow> layout_info \<Rightarrow> inbound list \<Rightarrow> session \<Rightarrow> (stream_item list \<times> metrics) option" where
  "parse_task client cap idle info inbound s =
     map_option (\<lambda>(r, s).
       let items = map EventItem (sk_taken (ss_sink s)); m = count_outcome r (ss_metrics s) in
       case r of
         Inr _ \<Rightarrow> (items, m)
       | Inl e \<Rightarrow>
           (if client (sk_sends (ss_sink s)) = Takes then items @ [ErrorItem (to_status e)] else items, m))
       (run_parse client cap idle info inbound s)"

text \<open>
  \<^verbatim>\<open>parse_ebcdic\<close>. \<open>parse\<close> is the JSON parser of \<open>from_json\<close>, \<open>version\<close> the package version. A
  refused call and a bad options frame are errors of the call; otherwise there is a response stream.
\<close>

definition parse_ebcdic ::
  "(u8 list \<Rightarrow> rstr + json_layout) \<Rightarrow> rstr \<Rightarrow> service \<Rightarrow> client \<Rightarrow> inbound list \<Rightarrow> metrics \<Rightarrow>
     (status + stream_item list) option \<times> metrics" where
  "parse_ebcdic parse version svc client inbound m =
     (if svc_permits svc = 0 then
        (Some (Inl (ResourceExhausted, [MNat (svc_max_concurrent_parses svc),
           MLit '' parses are already running; retry when one finishes''])),
         m\<lparr>m_parses_rejected := counter_bump (m_parses_rejected m)\<rparr>)
      else case first_options (svc_idle_timeout svc) inbound of
        Inl st \<Rightarrow> (Some (Inl st), m)
      | Inr (options, rest) \<Rightarrow>
          (case map_err to_status
              (rbind (map_err from_codec_error (resolve_codec (po_encoding options))) (\<lambda>c.
               rbind (resolve_layout parse options) (\<lambda>l. Inr (c, l)))) of
             Inl st \<Rightarrow> (Some (Inl st), m)
           | Inr (c, l) \<Rightarrow>
               let m = m\<lparr>m_parses_started := counter_bump (m_parses_started m)\<rparr>;
                   s = \<lparr>ss_walk = new_stream l (decode_options_of c options),
                        ss_sink = new_sink svc version options, ss_metrics = m\<rparr> in
               (case parse_task client (byte_cap svc options) (svc_idle_timeout svc)
                   (to_layout_info l (page_name c)) rest s of
                  None \<Rightarrow> (None, m)
                | Some (items, m) \<Rightarrow> (Some (Inr items), m))))"

subsection \<open>What the service says of itself\<close>

record ui_info =
  ui_title :: rstr
  ui_path :: rstr
  ui_description :: rstr

record service_info =
  si_service :: rstr
  si_version :: rstr
  si_encodings :: "rstr list"
  si_default_encoding :: rstr
  si_default_max_document_mib :: nat
  si_max_concurrent_parses :: nat
  si_supported_field_types :: "int list"
  si_copybook_compiler :: bool
  si_ui :: "ui_info option"

definition u32_or_max :: "nat \<Rightarrow> nat" where
  "u32_or_max n = (if n \<le> u32_max then n else u32_max)"

definition get_service_info :: "rstr \<Rightarrow> service \<Rightarrow> service_info" where
  "get_service_info version svc =
     \<lparr>si_service = lit ''grpc-ebcdic'', si_version = version, si_encodings = supported_encodings,
      si_default_encoding = DEFAULT_ENCODING,
      si_default_max_document_mib = u32_or_max (svc_max_document_bytes svc div 2 ^ 20),
      si_max_concurrent_parses = u32_or_max (svc_max_concurrent_parses svc),
      si_supported_field_types = map field_type_number
        [TypeString, TypeInteger, TypeUnsignedInteger, TypePackedDecimal, TypeZonedDecimal, TypeSkip],
      si_copybook_compiler = True,
      si_ui = Some
        \<lparr>ui_title = lit ''EBCDIC'', ui_path = lit ''/ui/ebcdic'',
         ui_description = lit ''EBCDIC fixed-width mainframe data to the document data plane''\<rparr>\<rparr>"

end
