(* ===== verification/Event_Channel.thy ===== *)
theory Event_Channel
  imports Service
begin

section \<open>The interface between a parse and the channel it sends on\<close>

text \<open>
  What a parse relies on when it sends: a send that succeeds adds its event to what the other side
  took, one that fails adds nothing. \<open>send_all\<close> sends a list until a send fails, so what was taken is
  always the earlier events and then a prefix of the list, and the whole of it exactly on success.
\<close>

fun send_all :: "('e \<Rightarrow> 'k \<Rightarrow> ('x + unit) \<times> 'k) \<Rightarrow> 'e list \<Rightarrow> 'k \<Rightarrow> ('x + unit) \<times> 'k" where
  "send_all send [] k = (Inr (), k)"
| "send_all send (e # es) k =
     (case send e k of
        (Inl x, k') \<Rightarrow> (Inl x, k')
      | (Inr _, k') \<Rightarrow> send_all send es k')"

lemma send_all_append:
  "send_all send (es @ fs) k =
     (case send_all send es k of
        (Inl x, k') \<Rightarrow> (Inl x, k')
      | (Inr _, k') \<Rightarrow> send_all send fs k')"
  by (induction es arbitrary: k) (auto split: prod.split sum.split)

locale event_channel =
  fixes send :: "'e \<Rightarrow> 'k \<Rightarrow> ('x + unit) \<times> 'k"
    and taken :: "'k \<Rightarrow> 'e list"
  assumes send_taken: "send e k = (Inr u, k') \<Longrightarrow> taken k' = taken k @ [e]"
    and send_refused: "send e k = (Inl x, k') \<Longrightarrow> taken k' = taken k"
begin

lemma send_all_taken:
  "send_all send es k = (r, k') \<Longrightarrow>
     \<exists>n \<le> length es. taken k' = taken k @ take n es \<and> (r = Inr () \<longrightarrow> n = length es) \<and>
       (r \<noteq> Inr () \<longrightarrow> n < length es)"
proof (induction es arbitrary: k)
  case (Cons e es)
  show ?case
  proof (cases "send e k")
    case (Pair r1 k1)
    show ?thesis
    proof (cases r1)
      case (Inl x)
      with Pair Cons.prems send_refused [of e k x k1] show ?thesis by (intro exI [of _ 0]) auto
    next
      case (Inr u)
      with Pair Cons.prems have "send_all send es k1 = (r, k')" by simp
      from Cons.IH [OF this] obtain n where n: "n \<le> length es" "taken k' = taken k1 @ take n es"
        "r = Inr () \<longrightarrow> n = length es" "r \<noteq> Inr () \<longrightarrow> n < length es" by blast
      from Pair Inr have "taken k1 = taken k @ [e]" using send_taken by blast
      with n show ?thesis by (intro exI [of _ "Suc n"]) auto
    qed
  qed
qed simp

lemma send_all_success: "send_all send es k = (Inr u, k') \<Longrightarrow> taken k' = taken k @ es"
  using send_all_taken [of es k "Inr u" k'] by auto

end

text \<open>The sink of a parse is such a channel, whatever the client does.\<close>

lemma sink_send_cases:
  obtains (Takes) "client (sk_sends k) = Takes"
      "sink_send client e k = (Inr (), k\<lparr>sk_fold := map_option (consume_event e) (sk_fold k),
         sk_sends := sk_sends k + 1, sk_taken := sk_taken k @ [e]\<rparr>)"
  | (Refused) x where "client (sk_sends k) \<noteq> Takes" "code x \<in> {InternalCode, DeadlineExceeded}"
      "sink_send client e k = (Inl x, k\<lparr>sk_fold := map_option (consume_event e) (sk_fold k),
         sk_sends := sk_sends k + 1\<rparr>)"
proof (cases "client (sk_sends k)")
  case Takes
  with that(1) show ?thesis by (simp add: sink_send_def Let_def)
next
  case Gone
  with that(2) [of "Internal [MLit ''the client stopped reading the event stream'']"] show ?thesis
    by (simp add: sink_send_def Let_def)
next
  case Stalls
  with that(2) [of "TimedOut [MLit ''the client took no event for '', MNat (sk_idle k),
      MLit '' ms; a stalled stream may not hold a parse slot'']"] show ?thesis
    by (simp add: sink_send_def Let_def)
qed

interpretation sink: event_channel "sink_send client" sk_taken for client
proof
  fix e k u k'
  assume "sink_send client e k = (Inr u, k')"
  then show "sk_taken k' = sk_taken k @ [e]" by (cases rule: sink_send_cases [of client k e]) auto
next
  fix e k x k'
  assume "sink_send client e k = (Inl x, k')"
  then show "sk_taken k' = sk_taken k" by (cases rule: sink_send_cases [of client k e]) auto
qed

text \<open>A sink after a list of events that were all taken.\<close>

definition offered :: "event list \<Rightarrow> event_sink \<Rightarrow> event_sink" where
  "offered es k =
     k\<lparr>sk_fold := map_option (fold consume_event es) (sk_fold k), sk_sends := sk_sends k + length es,
       sk_taken := sk_taken k @ es\<rparr>"

lemma offered_simps [simp]:
  "offered [] k = k" "sk_taken (offered es k) = sk_taken k @ es" "sk_idle (offered es k) = sk_idle k"
  "sk_fold (offered es k) = map_option (fold consume_event es) (sk_fold k)"
  "offered fs (offered es k) = offered (es @ fs) k"
  by (cases "sk_fold k"; simp add: offered_def)+

lemma send_all_sink_success:
  "send_all (sink_send client) es k = (Inr u, k') \<Longrightarrow> k' = offered es k"
proof (induction es arbitrary: k)
  case (Cons e es)
  show ?case
  proof (cases rule: sink_send_cases [of client k e])
    case Takes
    with Cons.prems have "send_all (sink_send client) es (offered [e] k) = (Inr u, k')"
      by (simp add: offered_def fold_Cons [abs_def])
    from Cons.IH [OF this] show ?thesis by simp
  next
    case (Refused x)
    with Cons.prems show ?thesis by simp
  qed
qed simp

lemma send_all_takes:
  assumes "\<forall>n. client n = Takes"
  shows "send_all (sink_send client) es k = (Inr (), offered es k)"
proof (induction es arbitrary: k)
  case (Cons e es)
  have "sink_send client e k = (Inr (), offered [e] k)"
    using assms by (cases rule: sink_send_cases [of client k e]) (auto simp: offered_def)
  with Cons show ?case by simp
qed simp

end
