(* ===== verification/Service_Correct.thy ===== *)
theory Service_Correct
  imports Event_Channel Document_Tables
begin

section \<open>A call streams the reference parse\<close>

text \<open>
  The loops of the service against the walker's reference: a drain sends the rows of \<open>drain\<close>, the
  frames of a request stream feed the walker as \<open>feed\<close> does, and a parse that succeeds has sent the
  layout, the rows of the reference parse, the document when asked for, and the trailer. What a
  failing parse has sent is a prefix of that without the trailer.
\<close>

subsection \<open>One drain\<close>

lemma drain_Err: "next_record s = (Inl x, s') \<Longrightarrow> drain s = Some ([], Some x, s')"
  by (subst drain.simps) simp

lemma drain_Nothing: "next_record s = (Inr None, s') \<Longrightarrow> drain s = Some ([], None, s')"
  by (subst drain.simps) simp

lemma drain_Row:
  "next_record s = (Inr (Some row), s1) \<Longrightarrow> drain s1 = Some (rows, e, s') \<Longrightarrow>
     drain s = Some (row # rows, e, s')"
  by (subst drain.simps) simp

lemma drain_cases:
  assumes "drain s = Some (rows, e, s')"
  obtains (Err) x where "next_record s = (Inl x, s')" "rows = []" "e = Some x"
  | (Nothing) "next_record s = (Inr None, s')" "rows = []" "e = None"
  | (Row) row s1 rows' where "next_record s = (Inr (Some row), s1)" "drain s1 = Some (rows', e, s')"
      "rows = row # rows'"
proof (cases "next_record s")
  case (Pair x s1)
  show ?thesis
  proof (cases x)
    case (Inl e)
    with Pair assms that(1) show ?thesis by (simp add: drain_Err)
  next
    case (Inr y)
    show ?thesis
    proof (cases y)
      case None
      with Inr Pair assms that(2) show ?thesis by (simp add: drain_Nothing)
    next
      case (Some row)
      with Inr Pair have n: "next_record s = (Inr (Some row), s1)" by simp
      with assms obtain rows' where "drain s1 = Some (rows', e, s')" "rows = row # rows'"
        by (subst (asm) drain.simps) (auto simp: bind_eq_Some_conv)
      with n that(3) show ?thesis by blast
    qed
  qed
qed

definition settled :: "parse_error option \<Rightarrow> parse_error + unit" where
  "settled e = (case e of None \<Rightarrow> Inr () | Some x \<Rightarrow> Inl x)"

text \<open>A part of a parse that reads \<open>n\<close> bytes counts them, and rows, and nothing else.\<close>

definition counted :: "session \<Rightarrow> session \<Rightarrow> nat \<Rightarrow> bool" where
  "counted s s' n \<longleftrightarrow>
     (\<exists>rows. ss_metrics s' = (ss_metrics s)
        \<lparr>m_records_emitted := m_records_emitted (ss_metrics s) + rows,
          m_bytes_received := m_bytes_received (ss_metrics s) + word_of_nat n\<rparr>)"

lemma counted_refl [simp]: "counted s s 0"
  by (simp add: counted_def exI [of _ 0])

lemma counted_trans: "counted s s1 m \<Longrightarrow> counted s1 s2 n \<Longrightarrow> counted s s2 (m + n)"
  by (auto simp: counted_def add.assoc)

lemma counted_update [simp]:
  "counted (s\<lparr>ss_walk := w\<rparr>) s' n = counted s s' n" "counted s (s'\<lparr>ss_walk := w\<rparr>) n = counted s s' n"
  "counted (s\<lparr>ss_sink := k\<rparr>) s' n = counted s s' n" "counted s (s'\<lparr>ss_sink := k\<rparr>) n = counted s s' n"
  by (simp_all add: counted_def)

lemma counted_record:
  "ss_metrics s' = (ss_metrics s)
     \<lparr>m_records_emitted := counter_bump (m_records_emitted (ss_metrics s))\<rparr> \<Longrightarrow> counted s s' 0"
  by (auto simp: counted_def counter_bump_def counter_add_def intro: exI [of _ 1])

lemma counted_push: "counted s (push_frame c s) (length c)"
  by (auto simp: counted_def push_frame_def counter_add_def intro: exI [of _ 0])

lemma drain_to_sends:
  "drain (ss_walk s) = Some (rows, e, w) \<Longrightarrow>
     \<exists>r s' sent. drain_to client s = Some (r, s') \<and>
       send_all (sink_send client) (map RecordEvent rows) (ss_sink s) = (sent, ss_sink s') \<and>
       counted s s' 0 \<and>
       (case sent of Inr _ \<Rightarrow> ss_walk s' = w \<and> r = settled e | Inl x \<Rightarrow> r = Inl x)"
proof (induction rows arbitrary: s)
  case Nil
  then show ?case
    by (cases rule: drain_cases) (simp_all add: drain_to.simps settled_def)
next
  case (Cons row rows)
  from Cons.prems obtain w1 where n: "next_record (ss_walk s) = (Inr (Some row), w1)"
    and d: "drain w1 = Some (rows, e, w)" by (cases rule: drain_cases) auto
  obtain r1 k where k: "sink_send client (RecordEvent row) (ss_sink s) = (r1, k)" by fastforce
  let ?s = "s\<lparr>ss_walk := w1, ss_sink := k, ss_metrics := (ss_metrics s)
    \<lparr>m_records_emitted := counter_bump (m_records_emitted (ss_metrics s))\<rparr>\<rparr>"
  have count: "counted s ?s 0" by (rule counted_record) simp
  show ?case
  proof (cases r1)
    case (Inl x)
    with n k have "drain_to client s = Some (Inl x, ?s)" by (subst drain_to.simps) simp
    with k Inl count show ?thesis by simp
  next
    case (Inr u)
    with n k have eq: "drain_to client s = drain_to client ?s" by (subst drain_to.simps) simp
    from d have "drain (ss_walk ?s) = Some (rows, e, w)" by simp
    from Cons.IH [OF this] obtain r s' sent where "drain_to client ?s = Some (r, s')"
      "send_all (sink_send client) (map RecordEvent rows) (ss_sink ?s) = (sent, ss_sink s')"
      "counted ?s s' 0"
      "case sent of Inr _ \<Rightarrow> ss_walk s' = w \<and> r = settled e | Inl x \<Rightarrow> r = Inl x" by blast
    moreover from this have "counted s s' 0" using counted_trans [OF count] by simp
    ultimately show ?thesis unfolding eq using k Inr by simp
  qed
qed

subsection \<open>The frames of a request stream\<close>

text \<open>The data of a request stream, and the streams that end well: data and empty frames only.\<close>

fun chunks_of :: "inbound list \<Rightarrow> u8 list list" where
  "chunks_of (Message (Some (ChunkFrame chunk)) # rest) = chunk # chunks_of rest"
| "chunks_of (Message None # rest) = chunks_of rest"
| "chunks_of _ = []"

fun all_data :: "inbound list \<Rightarrow> bool" where
  "all_data [] \<longleftrightarrow> True"
| "all_data (Message (Some (ChunkFrame chunk)) # rest) \<longleftrightarrow> all_data rest"
| "all_data (Message None # rest) \<longleftrightarrow> all_data rest"
| "all_data _ \<longleftrightarrow> False"

lemma reference_rows_prefix:
  assumes "wf_layout l"
  shows "\<exists>more. fst (reference_rows l opt (inp @ c)) = fst (reference_rows l opt inp) @ more"
proof (cases "length (data_of l inp) < layout_header_size l")
  case True
  then show ?thesis by (simp add: reference_rows_def Let_def)
next
  case False
  obtain ext where ext: "data_of l (inp @ c) = data_of l inp @ ext" using data_of_append by blast
  let ?h = "layout_header_size l" and ?d = "data_of l inp"
  obtain rows e q where b: "batch l opt (start_at l ?h) (drop ?h ?d) = (rows, e, q)"
    by (metis prod_cases3)
  have "\<not> length (?d @ ext) < ?h" "drop ?h (?d @ ext) = drop ?h ?d @ ext" using False by auto
  then have "reference_rows l opt (inp @ c) = batch l opt (start_at l ?h) (drop ?h ?d @ ext)"
    by (simp only: reference_rows_def Let_def ext if_False)
  moreover have "reference_rows l opt inp = (rows, e, q)"
    using False b by (simp add: reference_rows_def Let_def)
  ultimately show ?thesis
    using batch_append [OF assms, of opt "start_at l ?h" "drop ?h ?d" ext] b
    by (auto split: option.splits prod.splits)
qed

text \<open>
  A part of a parse that starts drained of its input with \<open>rows\<close> sent, and has sent \<open>rows'\<close> more of the
  reference rows of \<open>inp\<close>: when it succeeds the walker is drained of \<open>inp\<close>, and when it fails although
  the client took everything, the reference fails the same way.
\<close>

definition advances ::
  "layout \<Rightarrow> decode_options \<Rightarrow> u8 list \<Rightarrow> record_row list \<Rightarrow> session \<Rightarrow> (parse_error + unit) \<times> session \<Rightarrow>
     record_row list \<Rightarrow> bool" where
  "advances l opt inp rows s out rows' \<longleftrightarrow>
     (case out of (r, s') \<Rightarrow>
       sk_taken (ss_sink s') = sk_taken (ss_sink s) @ map RecordEvent rows' \<and>
       (\<exists>more. fst (reference_rows l opt inp) = rows @ rows' @ more) \<and>
       (r = Inr () \<longrightarrow> ss_sink s' = offered (map RecordEvent rows') (ss_sink s) \<and>
          drained l opt inp (ss_walk s') (rows @ rows')))"

definition fails_as_reference ::
  "layout \<Rightarrow> decode_options \<Rightarrow> u8 list \<Rightarrow> record_row list \<Rightarrow> parse_error + unit \<Rightarrow> record_row list \<Rightarrow> bool" where
  "fails_as_reference l opt inp rows r rows' \<longleftrightarrow>
     (\<forall>e. r = Inl e \<longrightarrow> (\<exists>q. reference_rows l opt inp = (rows @ rows', Some e, q)))"

lemma drain_to_advances:
  assumes d: "drain (ss_walk s) = Some (new, e, w)"
    and ref: "reference_rows l opt inp = (rows @ new, e, q)"
    and dr: "e = None \<Longrightarrow> drained l opt inp w (rows @ new)"
  shows "\<exists>r s' rows'. drain_to client s = Some (r, s') \<and>
    counted s s' 0 \<and>
    advances l opt inp rows s (r, s') rows' \<and>
    ((\<forall>n. client n = Takes) \<longrightarrow> fails_as_reference l opt inp rows r rows')"
proof -
  from drain_to_sends [OF d] obtain r s' sent where D: "drain_to client s = Some (r, s')"
    and S: "send_all (sink_send client) (map RecordEvent new) (ss_sink s) = (sent, ss_sink s')"
    and B: "counted s s' 0"
    and C: "case sent of Inr _ \<Rightarrow> ss_walk s' = w \<and> r = settled e | Inl x \<Rightarrow> r = Inl x" by blast
  from sink.send_all_taken [OF S] obtain n where n: "n \<le> length new"
    "sk_taken (ss_sink s') = sk_taken (ss_sink s) @ map RecordEvent (take n new)"
    "sent = Inr () \<longrightarrow> n = length new" by (auto simp: take_map)
  have "rows @ new = rows @ take n new @ drop n new" by simp
  then have pre: "\<exists>more. fst (reference_rows l opt inp) = rows @ take n new @ more"
    unfolding ref fst_conv by blast
  show ?thesis
  proof (cases sent)
    case (Inl x)
    then have "\<not> (\<forall>n. client n = Takes)" using S send_all_takes by fastforce
    moreover have "advances l opt inp rows s (r, s') (take n new)"
      using n pre C Inl by (simp add: advances_def)
    ultimately show ?thesis using D B by blast
  next
    case (Inr u)
    then have "ss_sink s' = offered (map RecordEvent new) (ss_sink s)"
      using S send_all_sink_success by auto
    then have "advances l opt inp rows s (r, s') new"
      using n pre C Inr dr by (cases e) (simp_all add: advances_def settled_def)
    moreover have "fails_as_reference l opt inp rows r new"
      using C Inr ref by (cases e) (simp_all add: fails_as_reference_def settled_def)
    ultimately show ?thesis using D B by blast
  qed
qed

lemma drain_to_pushed:
  assumes wf: "wf_layout l" and dr: "drained l opt inp (ss_walk s) rows"
  shows "\<exists>r s' rows'. drain_to client (push_frame c s) = Some (r, s') \<and>
    counted s s' (length c) \<and>
    advances l opt (inp @ c) rows s (r, s') rows' \<and>
    ((\<forall>n. client n = Takes) \<longrightarrow> fails_as_reference l opt (inp @ c) rows r rows')"
proof -
  from drained_push [OF wf dr, of c] obtain new e w q where
    "drain (ss_walk (push_frame c s)) = Some (new, e, w)"
    "reference_rows l opt (inp @ c) = (rows @ new, e, q)"
    "e = None \<Longrightarrow> drained l opt (inp @ c) w (rows @ new)" by (auto simp: push_frame_def)
  from drain_to_advances [OF this, of client] obtain r s' rows' where
    D: "drain_to client (push_frame c s) = Some (r, s')" "counted (push_frame c s) s' 0"
    and A: "advances l opt (inp @ c) rows (push_frame c s) (r, s') rows'"
    and F: "(\<forall>n. client n = Takes) \<longrightarrow> fails_as_reference l opt (inp @ c) rows r rows'" by blast
  have "counted s s' (length c)" using counted_trans [OF counted_push D(2)] by simp
  moreover have "advances l opt (inp @ c) rows s (r, s') rows'"
    using A by (simp add: advances_def push_frame_def)
  ultimately show ?thesis using D(1) F by blast
qed

lemma drain_to_finished:
  assumes wf: "wf_layout l" and dr: "drained l opt inp (ss_walk s) rows"
  shows "\<exists>r s'. drain_to client (s\<lparr>ss_walk := finish_input (ss_walk s)\<rparr>) = Some (r, s') \<and> r = Inr () \<and>
    ss_sink s' = ss_sink s \<and> counted s s' 0 \<and>
    drained l opt inp (ss_walk s') rows"
proof -
  from drained_finish [OF wf dr] obtain w where
    w: "drain (finish_input (ss_walk s)) = Some ([], None, w)" "drained l opt inp w rows" by blast
  then have "drain (ss_walk (s\<lparr>ss_walk := finish_input (ss_walk s)\<rparr>)) = Some ([], None, w)" by simp
  from drain_to_sends [OF this, of client] w(2) show ?thesis
    by (simp add: settled_def) metis
qed

text \<open>What a parse reads is at most its cap, and what it counts is what it reads.\<close>

definition read_bounded :: "nat \<Rightarrow> u8 list \<Rightarrow> session \<Rightarrow> session \<Rightarrow> bool" where
  "read_bounded cap inp s s' \<longleftrightarrow>
     (\<exists>n. length inp + n \<le> cap \<and>
        counted s s' n)"

lemma read_bounded_refl: "length inp \<le> cap \<Longrightarrow> read_bounded cap inp s s"
  by (auto simp: read_bounded_def intro!: exI [of _ 0])

lemma read_bounded_step:
  assumes "read_bounded cap (inp @ c) s1 s'"
    and "counted s s1 (length c)"
  shows "read_bounded cap inp s s'"
proof -
  from assms(1) obtain n where "length (inp @ c) + n \<le> cap" "counted s1 s' n"
    by (auto simp: read_bounded_def)
  with counted_trans [OF assms(2)] show ?thesis
    unfolding read_bounded_def by (intro exI [of _ "length c + n"]) simp
qed

lemma advances_stopped:
  assumes "wf_layout l" and "drained l opt inp (ss_walk s) rows"
  shows "advances l opt (inp @ c) rows s (Inl x, s) []"
proof -
  from assms(2) obtain p where "reference_rows l opt inp = (rows, None, p)" by (auto simp: drained_def)
  with reference_rows_prefix [OF assms(1), of opt inp c] show ?thesis by (simp add: advances_def)
qed

lemma advances_trans:
  assumes "advances l opt (inp @ c) rows s (Inr (), s1) rows1"
    and "advances l opt inp' (rows @ rows1) s1 out rows2"
  shows "advances l opt inp' rows s out (rows1 @ rows2)"
  using assms by (cases out) (auto simp: advances_def)

lemma advances_longer:
  assumes "wf_layout l" and "advances l opt inp rows s (Inl x, s') rows'"
  shows "advances l opt (inp @ c) rows s (Inl x, s') rows'"
  using assms(2) reference_rows_prefix [OF assms(1), of opt inp c] by (auto simp: advances_def)

lemma fails_as_reference_longer:
  assumes "wf_layout l" and "fails_as_reference l opt inp rows r rows'"
  shows "fails_as_reference l opt (inp @ c) rows r rows'"
  using assms(2) reference_error_stable [OF assms(1), of opt inp "rows @ rows'"]
  by (simp add: fails_as_reference_def) metis

text \<open>
  What reading the frames from a point on has come to: the bytes read stay within the cap, the rows sent
  are the next ones of the reference, it ends well only when all the frames are data within the cap, and
  then, for a client that takes everything, it can only fail where the reference fails.
\<close>

definition frames_read ::
  "layout \<Rightarrow> decode_options \<Rightarrow> client \<Rightarrow> nat \<Rightarrow> inbound list \<Rightarrow> u8 list \<Rightarrow> record_row list \<Rightarrow>
     session \<Rightarrow> parse_error + unit \<Rightarrow> session \<Rightarrow> record_row list \<Rightarrow> bool" where
  "frames_read l opt client cap inbound inp rows s r s' rows' \<longleftrightarrow>
     (let whole = inp @ concat (chunks_of inbound) in
      read_bounded cap inp s s' \<and> advances l opt whole rows s (r, s') rows' \<and>
      (r = Inr () \<longrightarrow> all_data inbound \<and> length whole \<le> cap) \<and>
      ((\<forall>n. client n = Takes) \<and> all_data inbound \<and> length whole \<le> cap \<longrightarrow>
         fails_as_reference l opt whole rows r rows'))"

lemma frames_read_empty:
  "frames_read l opt client cap (Message None # rest) inp rows s r s' rows' =
     frames_read l opt client cap rest inp rows s r s' rows'"
  by (simp add: frames_read_def)

lemma frames_read_stopped:
  assumes "wf_layout l" and "drained l opt inp (ss_walk s) rows" and "length inp \<le> cap"
    and "all_data inbound \<Longrightarrow> cap < length (inp @ concat (chunks_of inbound))"
  shows "frames_read l opt client cap inbound inp rows s (Inl x) s []"
  using advances_stopped [OF assms(1,2)] read_bounded_refl [OF assms(3)] assms(4)
  by (auto simp: frames_read_def Let_def)

lemma frames_read_failed:
  assumes "wf_layout l" and "counted s s1 (length c)" and "length inp + length c \<le> cap"
    and "advances l opt (inp @ c) rows s (Inl x, s1) rows1"
    and "(\<forall>n. client n = Takes) \<longrightarrow> fails_as_reference l opt (inp @ c) rows (Inl x) rows1"
  shows "frames_read l opt client cap (Message (Some (ChunkFrame c)) # rest) inp rows s (Inl x) s1 rows1"
proof -
  have "read_bounded cap inp s s1"
    using read_bounded_step [OF read_bounded_refl assms(2)] assms(3) by simp
  moreover have "advances l opt (inp @ c @ concat (chunks_of rest)) rows s (Inl x, s1) rows1"
    using advances_longer [OF assms(1,4), of "concat (chunks_of rest)"] by simp
  moreover have "(\<forall>n. client n = Takes) \<longrightarrow>
      fails_as_reference l opt (inp @ c @ concat (chunks_of rest)) rows (Inl x) rows1"
    using assms(5) fails_as_reference_longer [OF assms(1), of opt "inp @ c" rows "Inl x" rows1] by simp
  ultimately show ?thesis by (auto simp: frames_read_def Let_def)
qed

lemma frames_read_more:
  assumes "counted s s1 (length c)" and "advances l opt (inp @ c) rows s (Inr (), s1) rows1"
    and "frames_read l opt client cap rest (inp @ c) (rows @ rows1) s1 r s' rows2"
  shows "frames_read l opt client cap (Message (Some (ChunkFrame c)) # rest) inp rows s r s' (rows1 @ rows2)"
proof -
  let ?whole = "inp @ c @ concat (chunks_of rest)"
  from assms(3) have R: "read_bounded cap (inp @ c) s1 s'"
    "advances l opt ?whole (rows @ rows1) s1 (r, s') rows2"
    "r = Inr () \<longrightarrow> all_data rest \<and> length ?whole \<le> cap"
    "(\<forall>n. client n = Takes) \<and> all_data rest \<and> length ?whole \<le> cap \<longrightarrow>
       fails_as_reference l opt ?whole (rows @ rows1) r rows2" by (auto simp: frames_read_def Let_def)
  have "read_bounded cap inp s s'" by (rule read_bounded_step [OF R(1) assms(1)])
  moreover have "advances l opt ?whole rows s (r, s') (rows1 @ rows2)" by (rule advances_trans [OF assms(2) R(2)])
  ultimately show ?thesis using R(3,4) by (auto simp: frames_read_def Let_def fails_as_reference_def)
qed

text \<open>A chunk: over the cap, failing while it is drained, or drained, and the frames after it read.\<close>

lemma read_chunk_reads:
  assumes wf: "wf_layout l" and dr: "drained l opt inp (ss_walk s) rows" and cap: "length inp \<le> cap"
    and rest: "\<And>s1 rows1. drain_to client (push_frame c s) = Some (Inr (), s1) \<Longrightarrow>
      drained l opt (inp @ c) (ss_walk s1) (rows @ rows1) \<Longrightarrow> length (inp @ c) \<le> cap \<Longrightarrow>
      \<exists>r s' rows'. read_frames client cap idle rest s1 = Some (r, s') \<and>
        frames_read l opt client cap rest (inp @ c) (rows @ rows1) s1 r s' rows'"
  shows "\<exists>r s' rows'.
    read_frames client cap idle (Message (Some (ChunkFrame c)) # rest) s = Some (r, s') \<and>
    frames_read l opt client cap (Message (Some (ChunkFrame c)) # rest) inp rows s r s' rows'"
proof -
  have len: "rs_received (ss_walk s) = length inp" using dr by (simp add: drained_def represents_def)
  show ?thesis
  proof (cases "cap < length inp + length c")
    case True
    with frames_read_stopped [OF wf dr cap, of "Message (Some (ChunkFrame c)) # rest"] len show ?thesis by fastforce
  next
    case False
    from drain_to_pushed [OF wf dr, of client c] obtain r1 s1 rows1 where
      d: "drain_to client (push_frame c s) = Some (r1, s1)" and b: "counted s s1 (length c)"
      and a: "advances l opt (inp @ c) rows s (r1, s1) rows1"
      and f: "(\<forall>n. client n = Takes) \<longrightarrow> fails_as_reference l opt (inp @ c) rows r1 rows1" by blast
    show ?thesis
    proof (cases r1)
      case (Inl x)
      have "read_frames client cap idle (Message (Some (ChunkFrame c)) # rest) s = Some (Inl x, s1)"
        using d Inl False len by simp
      with frames_read_failed [OF wf b _ a [unfolded Inl] f [unfolded Inl], of cap rest] False show ?thesis
        by fastforce
    next
      case (Inr u)
      then have dr1: "drained l opt (inp @ c) (ss_walk s1) (rows @ rows1)"
        and a1: "advances l opt (inp @ c) rows s (Inr (), s1) rows1" using a by (simp_all add: advances_def)
      have "read_frames client cap idle (Message (Some (ChunkFrame c)) # rest) s =
          read_frames client cap idle rest s1" using d Inr False len by simp
      moreover have "drain_to client (push_frame c s) = Some (Inr (), s1)" using d Inr by simp
      ultimately show ?thesis using rest [OF _ dr1] frames_read_more [OF b a1] False by fastforce
    qed
  qed
qed

lemma read_frames_reads:
  assumes wf: "wf_layout l"
  shows "drained l opt inp (ss_walk s) rows \<Longrightarrow> length inp \<le> cap \<Longrightarrow>
    \<exists>r s' rows'. read_frames client cap idle inbound s = Some (r, s') \<and>
      frames_read l opt client cap inbound inp rows s r s' rows'"
proof (induction client cap idle inbound s arbitrary: inp rows rule: read_frames.induct)
  case (1 client cap idle s)
  then have "advances l opt inp rows s (Inr (), s) []"
    by (auto simp: advances_def drained_def)
  with 1 read_bounded_refl show ?case by (fastforce simp: fails_as_reference_def frames_read_def)
next
  case (2 client cap idle st why rest s)
  from frames_read_stopped [OF wf 2, of "StreamFailed st why # rest"] show ?case by auto
next
  case (3 client cap idle rest s)
  from frames_read_stopped [OF wf 3, of "Quiet # rest"] show ?case by auto
next
  case (4 client cap idle rest s)
  then show ?case by (simp add: frames_read_empty)
next
  case (5 client cap idle options rest s)
  from frames_read_stopped [OF wf 5, of "Message (Some (OptionsFrame options)) # rest"] show ?case by auto
next
  case (6 client cap idle c rest s)
  have len: "rs_received (ss_walk s) = length inp"
    using 6(2) by (simp add: drained_def represents_def)
  show ?case
  proof (rule read_chunk_reads [OF wf 6(2,3)])
    fix s1 rows1
    assume d: "drain_to client (push_frame c s) = Some (Inr (), s1)"
      and dr: "drained l opt (inp @ c) (ss_walk s1) (rows @ rows1)" and cap: "length (inp @ c) \<le> cap"
    show "\<exists>r s' rows'. read_frames client cap idle rest s1 = Some (r, s') \<and>
        frames_read l opt client cap rest (inp @ c) (rows @ rows1) s1 r s' rows'"
      by (rule 6(1) [OF _ d refl refl dr cap]) (use cap len in simp)
  qed
qed

subsection \<open>What a response stream should carry\<close>

text \<open>The events that close a parse, and those of a whole parse, over the rows and the trailer.\<close>

definition closing_events :: "document_fold option \<Rightarrow> parse_status \<Rightarrow> event list" where
  "closing_events kept st =
     (case kept of
        None \<Rightarrow> [StatusEvent st]
      | Some f \<Rightarrow>
          [DocumentEvent (take_document f),
           StatusEvent (st\<lparr>ps_warnings := ps_warnings st @ truncation_warnings f\<rparr>)])"

definition response_events ::
  "rstr \<Rightarrow> bool \<Rightarrow> layout_info \<Rightarrow> record_row list \<Rightarrow> parse_status \<Rightarrow> event list" where
  "response_events version emit info rows st =
     LayoutInfoEvent info # map RecordEvent rows @
     closing_events
       (if emit then Some (fold_of version DEFAULT_ROW_CAP DEFAULT_BYTE_CAP info rows) else None) st"

fun is_trailer :: "event \<Rightarrow> bool" where
  "is_trailer (StatusEvent _) \<longleftrightarrow> True"
| "is_trailer _ \<longleftrightarrow> False"

fun rows_in :: "event list \<Rightarrow> record_row list" where
  "rows_in [] = []"
| "rows_in (RecordEvent row # es) = row # rows_in es"
| "rows_in (_ # es) = rows_in es"

lemma rows_in_append [simp]: "rows_in (es @ fs) = rows_in es @ rows_in fs"
  by (induction es rule: rows_in.induct) simp_all

lemma rows_in_map [simp]: "rows_in (map RecordEvent rows) = rows"
  by (induction rows) simp_all

lemma records_no_trailer [simp]: "\<not> list_ex is_trailer (map RecordEvent rows)"
  by (induction rows) simp_all

text \<open>The order of a response: the layout first, no trailer before the last event.\<close>

lemma response_events_shape:
  "list_ex is_trailer es \<Longrightarrow> response_events version emit info rows st = es @ fs \<Longrightarrow> fs = []"
proof -
  assume es: "list_ex is_trailer es" and eq: "response_events version emit info rows st = es @ fs"
  have b: "\<not> list_ex is_trailer (butlast (response_events version emit info rows st))"
    by (simp add: response_events_def closing_events_def butlast_append)
  show "fs = []"
  proof (rule ccontr)
    assume "fs \<noteq> []"
    then have "butlast (es @ fs) = es @ butlast fs" by (simp add: butlast_append)
    with b es show False unfolding eq by simp
  qed
qed

lemma sink_finish_sends:
  "sink_finish client st k =
     send_all (sink_send client) (closing_events (sk_fold k) st) (k\<lparr>sk_fold := None\<rparr>)"
proof (cases "sk_fold k")
  case None
  then have k: "k\<lparr>sk_fold := None\<rparr> = k" by (cases k) simp
  from None show ?thesis
    unfolding k by (auto simp: sink_finish_def closing_events_def split: prod.split sum.split)
next
  case (Some f)
  then show ?thesis
    by (auto simp: sink_finish_def closing_events_def Let_def split: prod.split sum.split)
qed

subsection \<open>One parse\<close>

lemma LayoutInfo_sent:
  assumes "sk_taken k = []"
  obtains (Sent) "sink_send client (LayoutInfoEvent info) k = (Inr (), offered [LayoutInfoEvent info] k)"
  | (Refused) x k' where "sink_send client (LayoutInfoEvent info) k = (Inl x, k')" "sk_taken k' = []"
      "client (sk_sends k) \<noteq> Takes"
proof (cases rule: sink_send_cases [of client k "LayoutInfoEvent info"])
  case Takes
  with that(1) show ?thesis by (simp add: offered_def)
next
  case (Refused x)
  with that(2) assms show ?thesis by simp
qed

lemma closing_rows [simp]: "rows_in (take n (closing_events f st)) = []"
  by (cases n; cases "n - 1") (auto simp: closing_events_def take_Cons' split: option.splits)

lemma closing_trailer:
  "n < length (closing_events f st) \<Longrightarrow> \<not> list_ex is_trailer (take n (closing_events f st))"
  by (auto simp: closing_events_def less_Suc_eq split: option.splits)

text \<open>From a drained walker at the end of its input to the trailer.\<close>

lemma finish_parse_sends:
  assumes wf: "wf_layout l" and dr: "drained l opt inp (ss_walk s) rows"
    and p: "reference_rows l opt inp = (rows, None, p)"
  shows "\<exists>r s'. finish_parse client s = Some (r, s') \<and>
    counted s s' 0 \<and>
    (case reference_status l opt inp p of
       Inl e \<Rightarrow> r = Inl e \<and> ss_sink s' = ss_sink s
     | Inr st \<Rightarrow> send_all (sink_send client) (closing_events (sk_fold (ss_sink s)) st)
         ((ss_sink s)\<lparr>sk_fold := None\<rparr>) = (r, ss_sink s'))"
proof -
  from drain_to_finished [OF wf dr, of client] obtain s1 where
    s1: "drain_to client (s\<lparr>ss_walk := finish_input (ss_walk s)\<rparr>) = Some (Inr (), s1)"
    "ss_sink s1 = ss_sink s" "counted s s1 0"
    "drained l opt inp (ss_walk s1) rows" by blast
  have st: "status_of (ss_walk s1) = reference_status l opt inp p"
    by (rule status_of_eq [OF s1(4) p])
  show ?thesis
  proof (cases "reference_status l opt inp p")
    case (Inl e)
    with s1 st show ?thesis by (simp add: finish_parse_def)
  next
    case (Inr x)
    obtain r k where "send_all (sink_send client) (closing_events (sk_fold (ss_sink s)) x)
        ((ss_sink s)\<lparr>sk_fold := None\<rparr>) = (r, k)" by fastforce
    with s1 st Inr show ?thesis by (simp add: finish_parse_def sink_finish_sends)
  qed
qed

text \<open>
  What a parse answers: on success the whole response and the reference's trailer; on failure no
  trailer and a prefix of the reference's rows, all of them when the client took everything and the
  request was one the service can read to its end.
\<close>

definition parse_answers ::
  "layout \<Rightarrow> decode_options \<Rightarrow> rstr \<Rightarrow> bool \<Rightarrow> layout_info \<Rightarrow> nat \<Rightarrow> inbound list \<Rightarrow>
     parse_error + unit \<Rightarrow> event list \<Rightarrow> bool" where
  "parse_answers l opt version emit info cap inbound r taken \<longleftrightarrow>
     (let inp = concat (chunks_of inbound) in
      case r of
        Inr _ \<Rightarrow> all_data inbound \<and> length inp \<le> cap \<and>
          (\<exists>rows st. reference_parse l opt inp = (rows, Inr st) \<and>
             taken = response_events version emit info rows st)
      | Inl _ \<Rightarrow> \<not> list_ex is_trailer taken \<and>
          (\<exists>more. fst (reference_parse l opt inp) = rows_in taken @ more) \<and>
          (taken \<noteq> [] \<longrightarrow> hd taken = LayoutInfoEvent info))"

definition parse_delivers ::
  "layout \<Rightarrow> decode_options \<Rightarrow> layout_info \<Rightarrow> u8 list \<Rightarrow> parse_error + unit \<Rightarrow> event list \<Rightarrow> bool" where
  "parse_delivers l opt info inp r taken \<longleftrightarrow>
     (\<forall>e. r = Inl e \<longrightarrow> (\<exists>rows. reference_parse l opt inp = (rows, Inl e) \<and>
        taken = LayoutInfoEvent info # map RecordEvent rows))"

lemma fst_reference_parse: "fst (reference_parse l opt inp) = fst (reference_rows l opt inp)"
  by (simp add: reference_parse_def split: prod.split)

text \<open>Sending the closing events of a parse that the reference ends well: all of them, or a refusal.\<close>

lemma closing_answers:
  assumes ref: "reference_parse l opt inp = (rows, Inr st)"
    and inp: "inp = concat (chunks_of inbound)" "all_data inbound" "length inp \<le> cap"
    and fold: "kept = (if emit then Some (fold_of version DEFAULT_ROW_CAP DEFAULT_BYTE_CAP info rows) else None)"
    and taken: "sk_taken k = LayoutInfoEvent info # map RecordEvent rows"
    and S: "send_all (sink_send client) (closing_events kept st) k = (r, k')"
  shows "parse_answers l opt version emit info cap inbound r (sk_taken k') \<and>
    ((\<forall>n. client n = Takes) \<longrightarrow> parse_delivers l opt info inp r (sk_taken k'))"
proof -
  from sink.send_all_taken [OF S] obtain n where n:
    "sk_taken k' = (LayoutInfoEvent info # map RecordEvent rows) @ take n (closing_events kept st)"
    "r = Inr () \<longrightarrow> n = length (closing_events kept st)"
    "r \<noteq> Inr () \<longrightarrow> n < length (closing_events kept st)" by (auto simp: taken)
  show ?thesis
  proof (cases r)
    case (Inl e)
    have "\<not> (\<forall>n. client n = Takes)" using S Inl send_all_takes by fastforce
    with n Inl ref closing_trailer [of n kept st] show ?thesis
      by (auto simp: parse_answers_def inp(1) [symmetric])
  next
    case (Inr u)
    with n inp(2,3) ref show ?thesis
      by (simp add: parse_answers_def parse_delivers_def response_events_def fold inp(1) [symmetric])
  qed
qed

lemma finish_parse_answers:
  assumes wf: "wf_layout l" and dr: "drained l opt inp (ss_walk s) rows"
    and inp: "inp = concat (chunks_of inbound)" "all_data inbound" "length inp \<le> cap"
    and k: "ss_sink s = offered (LayoutInfoEvent info # map RecordEvent rows) k" "sk_taken k = []"
      "sk_fold k = (if emit then Some (new_fold version) else None)"
  shows "\<exists>r s'. finish_parse client s = Some (r, s') \<and>
    counted s s' 0 \<and>
    parse_answers l opt version emit info cap inbound r (sk_taken (ss_sink s')) \<and>
    ((\<forall>n. client n = Takes) \<longrightarrow> parse_delivers l opt info inp r (sk_taken (ss_sink s')))"
proof -
  obtain p where p: "reference_rows l opt inp = (rows, None, p)" using dr by (auto simp: drained_def)
  have taken: "sk_taken (ss_sink s) = LayoutInfoEvent info # map RecordEvent rows" using k by simp
  have fold: "sk_fold (ss_sink s) =
      (if emit then Some (fold_of version DEFAULT_ROW_CAP DEFAULT_BYTE_CAP info rows) else None)"
    using k by (simp add: fold_of_def with_row_cap_def with_byte_cap_def new_fold_def)
  from finish_parse_sends [OF wf dr p, of client] obtain r s' where
    F: "finish_parse client s = Some (r, s')" "counted s s' 0"
    and S: "case reference_status l opt inp p of
       Inl e \<Rightarrow> r = Inl e \<and> ss_sink s' = ss_sink s
     | Inr st \<Rightarrow> send_all (sink_send client) (closing_events (sk_fold (ss_sink s)) st)
         ((ss_sink s)\<lparr>sk_fold := None\<rparr>) = (r, ss_sink s')" by blast
  have "parse_answers l opt version emit info cap inbound r (sk_taken (ss_sink s')) \<and>
    ((\<forall>n. client n = Takes) \<longrightarrow> parse_delivers l opt info inp r (sk_taken (ss_sink s')))"
  proof (cases "reference_status l opt inp p")
    case (Inl e)
    moreover from this have "reference_parse l opt inp = (rows, Inl e)"
      using p by (simp add: reference_parse_def)
    ultimately show ?thesis
      using S taken by (simp add: parse_answers_def parse_delivers_def inp(1) [symmetric])
  next
    case (Inr st)
    then have "reference_parse l opt inp = (rows, Inr st)" using p by (simp add: reference_parse_def)
    then show ?thesis by (rule closing_answers [OF _ inp fold]) (use S Inr taken in simp_all)
  qed
  with F show ?thesis by blast
qed

text \<open>Frames that could not be read to their end leave no trailer and a prefix of the rows.\<close>

lemma failed_frames_answer:
  assumes "frames_read l opt client cap inbound [] [] s (Inl e) s1 rows"
    and "ss_sink s = offered [LayoutInfoEvent info] k" and "sk_taken k = []"
  shows "parse_answers l opt version emit info cap inbound (Inl e) (sk_taken (ss_sink s1)) \<and>
    ((\<forall>n. client n = Takes) \<and> all_data inbound \<and> length (concat (chunks_of inbound)) \<le> cap \<longrightarrow>
       parse_delivers l opt info (concat (chunks_of inbound)) (Inl e) (sk_taken (ss_sink s1)))"
proof -
  let ?inp = "concat (chunks_of inbound)"
  from assms(1) have A: "advances l opt ?inp [] s (Inl e, s1) rows"
    and D: "(\<forall>n. client n = Takes) \<and> all_data inbound \<and> length ?inp \<le> cap \<longrightarrow>
      fails_as_reference l opt ?inp [] (Inl e) rows" by (simp_all add: frames_read_def Let_def)
  have taken: "sk_taken (ss_sink s1) = LayoutInfoEvent info # map RecordEvent rows"
    using A assms(2,3) by (simp add: advances_def)
  then have "parse_answers l opt version emit info cap inbound (Inl e) (sk_taken (ss_sink s1))"
    using A by (simp add: parse_answers_def advances_def fst_reference_parse)
  with D taken show ?thesis
    by (auto simp: fails_as_reference_def parse_delivers_def reference_parse_def)
qed

lemma run_parse_answers:
  assumes wf: "wf_layout l" and w: "ss_walk s = new_stream l opt"
    and k: "sk_taken (ss_sink s) = []"
      "sk_fold (ss_sink s) = (if emit then Some (new_fold version) else None)"
    and inp: "inp = concat (chunks_of inbound)"
  shows "\<exists>r s'. run_parse client cap idle info inbound s = Some (r, s') \<and>
    read_bounded cap [] s s' \<and>
    parse_answers l opt version emit info cap inbound r (sk_taken (ss_sink s')) \<and>
    ((\<forall>n. client n = Takes) \<and> all_data inbound \<and> length inp \<le> cap \<longrightarrow>
       parse_delivers l opt info inp r (sk_taken (ss_sink s')))"
  using k(1)
proof (cases rule: LayoutInfo_sent [where client = client and info = info])
  case (Refused x k')
  then have "run_parse client cap idle info inbound s = Some (Inl x, s\<lparr>ss_sink := k'\<rparr>)"
    by (simp add: run_parse_def)
  with Refused read_bounded_refl [of "[]" cap s] show ?thesis
    by (auto simp: parse_answers_def read_bounded_def)
next
  case Sent
  let ?s = "s\<lparr>ss_sink := offered [LayoutInfoEvent info] (ss_sink s)\<rparr>"
  have "drained l opt [] (ss_walk ?s) []" using w drained_new by simp
  from read_frames_reads [OF wf this, of cap client idle inbound] obtain r s1 rows where
    R: "read_frames client cap idle inbound ?s = Some (r, s1)"
    and fr: "frames_read l opt client cap inbound [] [] ?s r s1 rows" by auto
  then have b: "read_bounded cap [] s s1" by (simp add: frames_read_def Let_def read_bounded_def)
  show ?thesis
  proof (cases r)
    case (Inl e)
    with Sent R have "run_parse client cap idle info inbound s = Some (Inl e, s1)"
      by (simp add: run_parse_def)
    with b failed_frames_answer [OF fr [unfolded Inl], of info "ss_sink s"] k(1) show ?thesis
      unfolding inp by auto
  next
    case (Inr u)
    with fr have dr: "drained l opt inp (ss_walk s1) rows" and d: "all_data inbound" "length inp \<le> cap"
      and sk: "ss_sink s1 = offered (LayoutInfoEvent info # map RecordEvent rows) (ss_sink s)"
      by (simp_all add: frames_read_def Let_def advances_def inp)
    from finish_parse_answers [OF wf dr inp d sk k, of client] obtain r2 s2 where
      F: "finish_parse client s1 = Some (r2, s2)" "counted s1 s2 0"
      "parse_answers l opt version emit info cap inbound r2 (sk_taken (ss_sink s2))"
      "(\<forall>n. client n = Takes) \<longrightarrow> parse_delivers l opt info inp r2 (sk_taken (ss_sink s2))" by blast
    moreover have "run_parse client cap idle info inbound s = Some (r2, s2)"
      using Sent R Inr F(1) by (simp add: run_parse_def)
    moreover have "read_bounded cap [] s s2"
      using b counted_trans [OF _ F(2)] by (fastforce simp: read_bounded_def)
    ultimately show ?thesis by blast
  qed
qed

end
