(* ===== verification/Call_Counters.thy ===== *)
theory Call_Counters
  imports Service_Correct
begin

section \<open>What a parse counts\<close>

text \<open>
  The counters of a parse against its response stream. A record is counted when it is sent, so what is
  counted and not on the stream is at most the one record whose send ended the parse; the bytes of a
  parse that reads its frames to their end are those of its data.
\<close>

definition unstreamed :: "session \<Rightarrow> u64" where
  "unstreamed s =
     m_records_emitted (ss_metrics s) - word_of_nat (length (rows_in (sk_taken (ss_sink s))))"

text \<open>A part of a parse whose records are on the stream, but for one when a send failed.\<close>

definition accounted :: "session \<Rightarrow> (parse_error + unit) \<times> session \<Rightarrow> bool" where
  "accounted s out \<longleftrightarrow>
     (case out of (r, s') \<Rightarrow>
       unstreamed s' = unstreamed s \<or> r \<noteq> Inr () \<and> unstreamed s' = unstreamed s + 1)"

lemma accounted_same: "unstreamed s' = unstreamed s \<Longrightarrow> accounted s (r, s')"
  by (simp add: accounted_def)

lemma accounted_from: "unstreamed s1 = unstreamed s \<Longrightarrow> accounted s1 out \<Longrightarrow> accounted s out"
  by (auto simp: accounted_def)

lemma accounted_trans: "accounted s (Inr (), s1) \<Longrightarrow> accounted s1 out \<Longrightarrow> accounted s out"
  by (auto simp: accounted_def)

lemma unstreamed_update [simp]:
  "unstreamed (s\<lparr>ss_walk := w\<rparr>) = unstreamed s" "unstreamed (push_frame c s) = unstreamed s"
  by (simp_all add: unstreamed_def push_frame_def)

lemma unstreamed_taken:
  "rows_in (sk_taken k) = rows_in (sk_taken (ss_sink s)) \<Longrightarrow> unstreamed (s\<lparr>ss_sink := k\<rparr>) = unstreamed s"
  by (simp add: unstreamed_def)

subsection \<open>The loops\<close>

text \<open>One record sent: it is on the stream and counted, or counted and the send has failed.\<close>

lemma record_sent:
  assumes "sink_send client (RecordEvent row) (ss_sink s) = (r, k)"
  shows "accounted s (r, s\<lparr>ss_walk := w, ss_sink := k, ss_metrics := (ss_metrics s)
    \<lparr>m_records_emitted := counter_bump (m_records_emitted (ss_metrics s))\<rparr>\<rparr>)"
proof (cases rule: sink_send_cases [of client "ss_sink s" "RecordEvent row"])
  case Takes
  with assms have "r = Inr ()" "sk_taken k = sk_taken (ss_sink s) @ [RecordEvent row]" by auto
  then show ?thesis
    by (simp add: accounted_def unstreamed_def counter_bump_def counter_add_def)
next
  case (Refused x)
  with assms have "r = Inl x" "sk_taken k = sk_taken (ss_sink s)" by auto
  then show ?thesis
    by (simp add: accounted_def unstreamed_def counter_bump_def counter_add_def)
qed

definition same_bytes :: "session \<Rightarrow> session \<Rightarrow> bool" where
  "same_bytes s s' \<longleftrightarrow> m_bytes_received (ss_metrics s') = m_bytes_received (ss_metrics s)"

lemma drain_to_accounted:
  assumes "drain_to client s = Some out"
  shows "accounted s out \<and> same_bytes s (snd out)"
proof (rule drain_to.raw_induct [of "\<lambda>_ s out. accounted s out \<and> same_bytes s (snd out)", OF _ assms])
  fix drain_rec and client :: client and s :: session and out
  assume IH: "\<And>client s out. drain_rec client s = Some out \<Longrightarrow> accounted s out \<and> same_bytes s (snd out)"
    and step: "(case next_record (ss_walk s) of
        (Inl e, w) \<Rightarrow> Some (Inl e, s\<lparr>ss_walk := w\<rparr>)
      | (Inr None, w) \<Rightarrow> Some (Inr (), s\<lparr>ss_walk := w\<rparr>)
      | (Inr (Some row), w) \<Rightarrow>
          (case sink_send client (RecordEvent row) (ss_sink s) of
             (Inl e, k) \<Rightarrow>
               Some (Inl e, s\<lparr>ss_walk := w, ss_sink := k, ss_metrics := (ss_metrics s)
                 \<lparr>m_records_emitted := counter_bump (m_records_emitted (ss_metrics s))\<rparr>\<rparr>)
           | (Inr _, k) \<Rightarrow>
               drain_rec client (s\<lparr>ss_walk := w, ss_sink := k, ss_metrics := (ss_metrics s)
                 \<lparr>m_records_emitted := counter_bump (m_records_emitted (ss_metrics s))\<rparr>\<rparr>))) = Some out"
  obtain x w where n: "next_record (ss_walk s) = (x, w)" by fastforce
  show "accounted s out \<and> same_bytes s (snd out)"
  proof (cases "\<exists>row. x = Inr (Some row)")
    case False
    with step n show ?thesis
      by (auto simp: same_bytes_def intro: accounted_same split: sum.splits option.splits)
  next
    case True
    then obtain row where x: "x = Inr (Some row)" by blast
    obtain r k where k: "sink_send client (RecordEvent row) (ss_sink s) = (r, k)" by fastforce
    let ?s = "s\<lparr>ss_walk := w, ss_sink := k, ss_metrics := (ss_metrics s)
      \<lparr>m_records_emitted := counter_bump (m_records_emitted (ss_metrics s))\<rparr>\<rparr>"
    have sent: "accounted s (r, ?s)" "same_bytes s ?s"
      using record_sent [OF k] by (simp_all add: same_bytes_def)
    show ?thesis
    proof (cases r)
      case (Inl e)
      then have "out = (Inl e, ?s)" using step n x k by simp
      with sent Inl show ?thesis by simp
    next
      case (Inr u)
      then have "drain_rec client ?s = Some out" using step n x k by simp
      with IH have "accounted ?s out" "same_bytes ?s (snd out)" by blast+
      with sent Inr accounted_trans show ?thesis by (auto simp: same_bytes_def)
    qed
  qed
qed

text \<open>The frames: what is counted on a success is the length of the data.\<close>

definition reads_all :: "nat \<Rightarrow> session \<Rightarrow> (parse_error + unit) \<times> session \<Rightarrow> bool" where
  "reads_all n s out \<longleftrightarrow>
     (case out of (r, s') \<Rightarrow> r = Inr () \<longrightarrow>
       m_bytes_received (ss_metrics s') = m_bytes_received (ss_metrics s) + word_of_nat n)"

lemma read_frames_accounted:
  "read_frames client cap idle inbound s = Some out \<Longrightarrow>
     accounted s out \<and> reads_all (length (concat (chunks_of inbound))) s out"
proof (induction client cap idle inbound s rule: read_frames.induct)
  case (6 client cap idle chunk rest s)
  show ?case
  proof (cases "cap < rs_received (ss_walk s) + length chunk")
    case True
    with 6(2) show ?thesis by (auto simp: reads_all_def intro: accounted_same)
  next
    case False
    with 6(2) obtain r s1 where d: "drain_to client (push_frame chunk s) = Some (r, s1)"
      and out: "(case r of Inl e \<Rightarrow> Some (Inl e, s1) | Inr _ \<Rightarrow> read_frames client cap idle rest s1) = Some out"
      by (auto simp: bind_eq_Some_conv)
    from drain_to_accounted [OF d] have "accounted (push_frame chunk s) (r, s1)" by blast
    then have a: "accounted s (r, s1)" by (rule accounted_from [rotated]) simp
    from drain_to_accounted [OF d] have b: "m_bytes_received (ss_metrics s1) =
        m_bytes_received (ss_metrics s) + word_of_nat (length chunk)"
      by (simp add: same_bytes_def push_frame_def counter_add_def)
    show ?thesis
    proof (cases r)
      case (Inl e)
      with out a show ?thesis by (auto simp: reads_all_def)
    next
      case (Inr u)
      with out have f: "read_frames client cap idle rest s1 = Some out" by simp
      from 6(1) [OF False d refl Inr f]
      have "accounted s1 out" "reads_all (length (concat (chunks_of rest))) s1 out" by simp_all
      with a b Inr accounted_trans show ?thesis by (auto simp: reads_all_def add.assoc)
    qed
  qed
qed (auto simp: reads_all_def intro: accounted_same)

lemma finish_parse_accounted:
  assumes "finish_parse client s = Some out"
  shows "accounted s out \<and> same_bytes s (snd out)"
proof -
  from assms obtain r s1 where d: "drain_to client (s\<lparr>ss_walk := finish_input (ss_walk s)\<rparr>) = Some (r, s1)"
    and out: "(case r of
         Inl e \<Rightarrow> Some (Inl e, s1)
       | Inr _ \<Rightarrow>
           (case status_of (ss_walk s1) of
              Inl e \<Rightarrow> Some (Inl e, s1)
            | Inr st \<Rightarrow>
                let (r, k) = sink_finish client st (ss_sink s1) in Some (r, s1\<lparr>ss_sink := k\<rparr>))) = Some out"
    by (auto simp: finish_parse_def bind_eq_Some_conv)
  from drain_to_accounted [OF d] have a: "accounted s (r, s1)" "same_bytes s s1"
    by (simp_all add: accounted_def same_bytes_def)
  show ?thesis
  proof (cases "(\<exists>e. r = Inl e) \<or> (\<exists>e. status_of (ss_walk s1) = Inl e)")
    case True
    with out a show ?thesis by (auto simp: accounted_def split: sum.splits prod.splits)
  next
    case False
    then obtain st where st: "status_of (ss_walk s1) = Inr st" and r: "r = Inr ()"
      by (cases "status_of (ss_walk s1)"; cases r) auto
    obtain r' k where k: "sink_finish client st (ss_sink s1) = (r', k)" by fastforce
    from sink.send_all_taken [OF k [unfolded sink_finish_sends]] obtain n where
      "sk_taken k = sk_taken (ss_sink s1) @ take n (closing_events (sk_fold (ss_sink s1)) st)" by auto
    then have "rows_in (sk_taken k) = rows_in (sk_taken (ss_sink s1))" by simp
    with a r have "accounted s (r', s1\<lparr>ss_sink := k\<rparr>)"
      by (auto simp: accounted_def unstreamed_taken)
    moreover have "out = (r', s1\<lparr>ss_sink := k\<rparr>)" using out r st k by simp
    ultimately show ?thesis using a(2) by (simp add: same_bytes_def)
  qed
qed

text \<open>The whole parse.\<close>

lemma run_parse_accounted:
  assumes R: "run_parse client cap idle info inbound s = Some out"
  shows "accounted s out \<and> reads_all (length (concat (chunks_of inbound))) s out"
proof -
  obtain r k where k: "sink_send client (LayoutInfoEvent info) (ss_sink s) = (r, k)" by fastforce
  let ?s = "s\<lparr>ss_sink := k\<rparr>"
  have "rows_in (sk_taken k) = rows_in (sk_taken (ss_sink s))"
    using k by (cases rule: sink_send_cases [of client "ss_sink s" "LayoutInfoEvent info"]) auto
  then have u: "unstreamed ?s = unstreamed s" by (rule unstreamed_taken)
  show ?thesis
  proof (cases r)
    case (Inl e)
    with R k have "out = (Inl e, ?s)" by (simp add: run_parse_def)
    with u show ?thesis by (simp add: reads_all_def accounted_same)
  next
    case (Inr v)
    with R k obtain r1 s1 where f: "read_frames client cap idle inbound ?s = Some (r1, s1)"
      and out: "(case r1 of Inl e \<Rightarrow> Some (Inl e, s1) | Inr _ \<Rightarrow> finish_parse client s1) = Some out"
      by (auto simp: run_parse_def bind_eq_Some_conv)
    from read_frames_accounted [OF f] have a: "accounted s (r1, s1)"
      and b: "reads_all (length (concat (chunks_of inbound))) s (r1, s1)"
      using accounted_from [OF u] by (auto simp: reads_all_def)
    show ?thesis
    proof (cases r1)
      case (Inl e)
      with out a b show ?thesis by simp
    next
      case (Inr w)
      with out have "finish_parse client s1 = Some out" by simp
      from finish_parse_accounted [OF this] a b Inr accounted_trans show ?thesis
        by (auto simp: reads_all_def same_bytes_def)
    qed
  qed
qed

end
