(* ===== verification/Service_Properties.thy ===== *)
theory Service_Properties
  imports Call_Counters Stream_Properties
begin

section \<open>Properties of a call\<close>

text \<open>
  Which calls open a response stream, what it carries whatever the client does, what it carries when
  the client takes everything, and what every call leaves in the counters.
\<close>

subsection \<open>Accepted calls\<close>

text \<open>The setup of a call: its options, the frames after them, the code page and the layout.\<close>

definition call_setup ::
  "(u8 list \<Rightarrow> rstr + json_layout) \<Rightarrow> service \<Rightarrow> inbound list \<Rightarrow>
     (parse_options \<times> inbound list \<times> codec \<times> layout) option" where
  "call_setup parse svc inbound =
     (if svc_permits svc = 0 then None
      else case first_options (svc_idle_timeout svc) inbound of
        Inl _ \<Rightarrow> None
      | Inr (options, rest) \<Rightarrow>
          (case (resolve_codec (po_encoding options), resolve_layout parse options) of
             (Inr c, Inr l) \<Rightarrow> Some (options, rest, c, l)
           | _ \<Rightarrow> None))"

lemma call_setup_layout:
  assumes "call_setup parse svc inbound = Some (options, rest, c, l)"
  shows "wf_layout l"
proof -
  have "resolve_layout parse options = Inr l"
    using assms by (auto simp: call_setup_def split: if_splits sum.splits prod.splits)
  then show ?thesis
    using validate_sound by (auto simp: resolve_layout_def result_simps split: option.splits layout_form.splits)
qed

text \<open>The session of an accepted call, and how its task ends.\<close>

definition call_session :: "service \<Rightarrow> rstr \<Rightarrow> parse_options \<Rightarrow> codec \<Rightarrow> layout \<Rightarrow> metrics \<Rightarrow> session" where
  "call_session svc version options c l m =
     \<lparr>ss_walk = new_stream l (decode_options_of c options), ss_sink = new_sink svc version options,
      ss_metrics = m\<lparr>m_parses_started := counter_bump (m_parses_started m)\<rparr>\<rparr>"

lemma parse_ebcdic_accepted:
  assumes "call_setup parse svc inbound = Some (options, rest, c, l)"
  shows "parse_ebcdic parse version svc client inbound m =
    (case parse_task client (byte_cap svc options) (svc_idle_timeout svc)
        (to_layout_info l (page_name c)) rest (call_session svc version options c l m) of
       None \<Rightarrow> (None, m\<lparr>m_parses_started := counter_bump (m_parses_started m)\<rparr>)
     | Some (items, m) \<Rightarrow> (Some (Inr items), m))"
  using assms
  by (auto simp: call_setup_def parse_ebcdic_def call_session_def Let_def result_simps
      split: if_splits sum.splits prod.splits)

lemma refused_call_counted:
  assumes "call_setup parse svc inbound = None"
  shows "\<exists>st. parse_ebcdic parse version svc client inbound m =
    (Some (Inl st), m\<lparr>m_parses_rejected := m_parses_rejected m + of_bool (svc_permits svc = 0)\<rparr>)"
  using assms
  by (auto simp: call_setup_def parse_ebcdic_def result_simps counter_bump_def counter_add_def
      split: if_splits sum.splits prod.splits)

lemma parse_ebcdic_not_accepted:
  assumes "call_setup parse svc inbound = None"
  shows "\<exists>st. fst (parse_ebcdic parse version svc client inbound m) = Some (Inl st)"
    and "\<exists>x. snd (parse_ebcdic parse version svc client inbound m) = m\<lparr>m_parses_rejected := x\<rparr>"
  using refused_call_counted [OF assms, of version client m] by auto

text \<open>What the task of an accepted call leaves: its items, and what it counted.\<close>

definition final_items :: "client \<Rightarrow> nat \<Rightarrow> parse_error + unit \<Rightarrow> event list \<Rightarrow> stream_item list" where
  "final_items client sends r taken =
     map EventItem taken @
     (case r of
        Inr _ \<Rightarrow> []
      | Inl e \<Rightarrow> if client sends = Takes then [ErrorItem (to_status e)] else [])"

definition call_counted :: "parse_error + unit \<Rightarrow> u64 \<Rightarrow> nat \<Rightarrow> metrics \<Rightarrow> metrics" where
  "call_counted r rows n m =
     count_outcome r (m
       \<lparr>m_parses_started := m_parses_started m + 1, m_records_emitted := m_records_emitted m + rows,
         m_bytes_received := m_bytes_received m + word_of_nat n\<rparr>)"

lemma accepted_call:
  assumes "call_setup parse svc inbound = Some (options, rest, c, l)"
  shows "\<exists>r taken sends rows n.
    parse_ebcdic parse version svc client inbound m =
      (Some (Inr (final_items client sends r taken)), call_counted r rows n m) \<and>
    n \<le> byte_cap svc options \<and>
    (r = Inr () \<longrightarrow> n = length (concat (chunks_of rest))) \<and>
    (rows = word_of_nat (length (rows_in taken)) \<or>
       r \<noteq> Inr () \<and> rows = word_of_nat (length (rows_in taken)) + 1) \<and>
    parse_answers l (decode_options_of c options) version (po_emit_document options)
      (to_layout_info l (page_name c)) (byte_cap svc options) rest r taken \<and>
    ((\<forall>n. client n = Takes) \<and> all_data rest \<and>
     length (concat (chunks_of rest)) \<le> byte_cap svc options \<longrightarrow>
       parse_delivers l (decode_options_of c options) (to_layout_info l (page_name c))
         (concat (chunks_of rest)) r taken)"
proof -
  let ?s = "call_session svc version options c l m"
  let ?opt = "decode_options_of c options" and ?cap = "byte_cap svc options"
  let ?info = "to_layout_info l (page_name c)"
  have s: "ss_walk ?s = new_stream l ?opt" "sk_taken (ss_sink ?s) = []"
    "sk_fold (ss_sink ?s) = (if po_emit_document options then Some (new_fold version) else None)"
    by (simp_all add: call_session_def new_sink_def)
  obtain r s' where R: "run_parse client ?cap (svc_idle_timeout svc) ?info rest ?s = Some (r, s')"
    and b: "read_bounded ?cap [] ?s s'"
    and A: "parse_answers l ?opt version (po_emit_document options) ?info ?cap rest r (sk_taken (ss_sink s'))"
    and D: "(\<forall>n. client n = Takes) \<and> all_data rest \<and> length (concat (chunks_of rest)) \<le> ?cap \<longrightarrow>
      parse_delivers l ?opt ?info (concat (chunks_of rest)) r (sk_taken (ss_sink s'))"
    using run_parse_answers [OF call_setup_layout [OF assms] s refl, of client ?cap _ ?info rest] by blast
  from run_parse_accounted [OF R] have acc: "accounted ?s (r, s')"
    and all: "reads_all (length (concat (chunks_of rest))) ?s (r, s')" by blast+
  from b obtain n0 rows where n0: "n0 \<le> ?cap"
    and m0: "ss_metrics s' = (ss_metrics ?s)
      \<lparr>m_records_emitted := m_records_emitted (ss_metrics ?s) + rows,
        m_bytes_received := m_bytes_received (ss_metrics ?s) + word_of_nat n0\<rparr>"
    by (auto simp: read_bounded_def counted_def)
  define n where "n = (if r = Inr () then length (concat (chunks_of rest)) else n0)"
  have n: "n \<le> ?cap" using n0 A by (auto simp: n_def parse_answers_def Let_def)
  have m': "ss_metrics s' = (ss_metrics ?s)
      \<lparr>m_records_emitted := m_records_emitted (ss_metrics ?s) + rows,
        m_bytes_received := m_bytes_received (ss_metrics ?s) + word_of_nat n\<rparr>"
    using all m0 by (auto simp: reads_all_def n_def)
  have "unstreamed ?s = m_records_emitted (ss_metrics ?s)" by (simp add: unstreamed_def s)
  with acc have rows: "rows = word_of_nat (length (rows_in (sk_taken (ss_sink s')))) \<or>
      r \<noteq> Inr () \<and> rows = word_of_nat (length (rows_in (sk_taken (ss_sink s')))) + 1"
    by (auto simp: accounted_def unstreamed_def m' algebra_simps)
  have "parse_ebcdic parse version svc client inbound m =
      (Some (Inr (final_items client (sk_sends (ss_sink s')) r (sk_taken (ss_sink s')))), call_counted r rows n m)"
    unfolding parse_ebcdic_accepted [OF assms] parse_task_def R
    by (cases r) (simp_all add: final_items_def call_counted_def count_outcome_def m' Let_def
        call_session_def counter_bump_def counter_add_def)
  with n rows A D show ?thesis by (intro exI conjI) (auto simp: n_def)
qed

lemma accepted_call_delivers:
  assumes "call_setup parse svc inbound = Some (options, rest, c, l)" and "\<forall>n. client n = Takes"
    and "all_data rest" and "length (concat (chunks_of rest)) \<le> byte_cap svc options"
  shows "fst (parse_ebcdic parse version svc client inbound m) =
    Some (Inr (case reference_parse l (decode_options_of c options) (concat (chunks_of rest)) of
      (rows, Inr st) \<Rightarrow>
        map EventItem (response_events version (po_emit_document options)
          (to_layout_info l (page_name c)) rows st)
    | (rows, Inl e) \<Rightarrow>
        map EventItem (LayoutInfoEvent (to_layout_info l (page_name c)) # map RecordEvent rows) @
        [ErrorItem (to_status e)]))"
proof -
  from accepted_call [OF assms(1), of version client m] assms(2-4) obtain r taken sends rows n where
    P: "parse_ebcdic parse version svc client inbound m =
      (Some (Inr (final_items client sends r taken)), call_counted r rows n m)"
    and A: "parse_answers l (decode_options_of c options) version (po_emit_document options)
      (to_layout_info l (page_name c)) (byte_cap svc options) rest r taken"
    and D: "parse_delivers l (decode_options_of c options) (to_layout_info l (page_name c))
         (concat (chunks_of rest)) r taken" by blast
  show ?thesis
  proof (cases r)
    case (Inl e)
    with P D assms(2) show ?thesis by (auto simp: parse_delivers_def final_items_def)
  next
    case (Inr u)
    with P A show ?thesis by (auto simp: parse_answers_def final_items_def Let_def)
  qed
qed

subsection \<open>Properties\<close>

text \<open>C12. Refinement: a call answers an error exactly when it is refused or its setup fails, and
otherwise a stream. Whatever the client does, the events on the stream are either the whole response
(the layout, the rows of the reference parse of the whole upload, the document when asked for, the
trailer last), and then the request stream held only data within the cap; or they carry no trailer,
start with the layout, and their rows are a prefix of the reference rows, with at most one error
after them.\<close>

theorem response_refines_reference:
  "case fst (parse_ebcdic parse version svc client inbound m) of
     None \<Rightarrow> False
   | Some (Inl st) \<Rightarrow> call_setup parse svc inbound = None
   | Some (Inr items) \<Rightarrow>
       \<exists>options rest c l r taken sends.
         call_setup parse svc inbound = Some (options, rest, c, l) \<and>
         parse_answers l (decode_options_of c options) version (po_emit_document options)
           (to_layout_info l (page_name c)) (byte_cap svc options) rest r taken \<and>
         items = final_items client sends r taken"
proof (cases "call_setup parse svc inbound")
  case None
  then obtain st where "fst (parse_ebcdic parse version svc client inbound m) = Some (Inl st)"
    using parse_ebcdic_not_accepted(1) by blast
  with None show ?thesis by simp
next
  case (Some x)
  obtain options rest c l where x: "x = (options, rest, c, l)" by (cases x)
  from accepted_call [OF Some [unfolded x], of version client m] obtain r taken sends rows n where
    "parse_ebcdic parse version svc client inbound m =
       (Some (Inr (final_items client sends r taken)), call_counted r rows n m)"
    "parse_answers l (decode_options_of c options) version (po_emit_document options)
       (to_layout_info l (page_name c)) (byte_cap svc options) rest r taken" by blast
  with Some x show ?thesis by auto
qed

text \<open>C6. Delivery: to a client that takes every event, an accepted call whose frames are data within
the cap delivers the parse of the whole upload, however it was cut: on success the layout, every row,
the document when asked for and the trailer; otherwise the layout, the rows before the error, and
the error's status.\<close>

theorem call_delivers_reference:
  assumes "call_setup parse svc inbound = Some (options, rest, c, l)" and "\<forall>n. client n = Takes"
    and "all_data rest" and "length (concat (chunks_of rest)) \<le> byte_cap svc options"
  shows "fst (parse_ebcdic parse version svc client inbound m) =
    Some (Inr (case reference_parse l (decode_options_of c options) (concat (chunks_of rest)) of
      (rows, Inr st) \<Rightarrow>
        map EventItem (response_events version (po_emit_document options)
          (to_layout_info l (page_name c)) rows st)
    | (rows, Inl e) \<Rightarrow>
        map EventItem (LayoutInfoEvent (to_layout_info l (page_name c)) # map RecordEvent rows) @
        [ErrorItem (to_status e)]))"
  using accepted_call_delivers [OF assms] .

text \<open>What the items of a response stream hold.\<close>

fun events_in :: "stream_item list \<Rightarrow> event list" where
  "events_in [] = []"
| "events_in (EventItem e # items) = e # events_in items"
| "events_in (ErrorItem _ # items) = events_in items"

fun stream_error :: "stream_item list \<Rightarrow> status option" where
  "stream_error [] = None"
| "stream_error (EventItem _ # items) = stream_error items"
| "stream_error (ErrorItem st # _) = Some st"

lemma events_in_final [simp]: "events_in (final_items client sends r taken) = taken"
proof -
  have "events_in (map EventItem taken @ items) = taken @ events_in items" for items
    by (induction taken) simp_all
  then show ?thesis by (simp add: final_items_def split: sum.split)
qed

lemma stream_error_final [simp]:
  "stream_error (final_items client sends r taken) =
     (case r of Inr _ \<Rightarrow> None | Inl e \<Rightarrow> if client sends = Takes then Some (to_status e) else None)"
proof -
  have "stream_error (map EventItem taken @ items) = stream_error items" for items
    by (induction taken) simp_all
  then show ?thesis by (simp add: final_items_def split: sum.split)
qed

lemma response_trailer: "list_ex is_trailer (response_events version emit info rows st)"
  by (simp add: response_events_def closing_events_def split: option.split)

text \<open>C24. The counters of a call agree with its response stream and its request. An answered error
changes nothing but the refusals, by one when no slot was free. A stream counts one parse started, and
one completed when it holds a trailer, one failed when it does not; the records counted are the rows on
the stream, and one more only when the parse failed; the bytes counted are at most the cap that the
request asks for and the operator bounds, and for a completed parse exactly its data; the cap counter
moves only for a failed parse, and, when the stream shows the error, exactly for a resource error.\<close>

theorem call_counters_exact:
  "case parse_ebcdic parse version svc client inbound m of
     (Some (Inr items), m') \<Rightarrow>
       \<exists>options rest c l n lost hit.
         call_setup parse svc inbound = Some (options, rest, c, l) \<and>
         n \<le> byte_cap svc options \<and> byte_cap svc options \<le> svc_max_document_bytes svc \<and>
         (let trailer = list_ex is_trailer (events_in items) in
          (if trailer then lost = False \<and> hit = False \<and> n = length (concat (chunks_of rest)) else True) \<and>
          (case stream_error items of None \<Rightarrow> True | Some st \<Rightarrow> hit = (fst st = ResourceExhausted)) \<and>
          m' = m
            \<lparr>m_parses_started := m_parses_started m + 1,
              m_parses_completed := m_parses_completed m + of_bool trailer,
              m_parses_failed := m_parses_failed m + of_bool (\<not> trailer),
              m_records_emitted :=
                m_records_emitted m + word_of_nat (length (rows_in (events_in items))) + of_bool lost,
              m_bytes_received := m_bytes_received m + word_of_nat n,
              m_byte_cap_hits := m_byte_cap_hits m + of_bool hit\<rparr>)
   | (_, m') \<Rightarrow>
       m' = m\<lparr>m_parses_rejected := m_parses_rejected m + of_bool (svc_permits svc = 0)\<rparr>"
proof (cases "call_setup parse svc inbound")
  case None
  from refused_call_counted [OF this, of version client m] obtain st where
    "parse_ebcdic parse version svc client inbound m =
      (Some (Inl st), m\<lparr>m_parses_rejected := m_parses_rejected m + of_bool (svc_permits svc = 0)\<rparr>)" by blast
  then show ?thesis by simp
next
  case (Some x)
  then obtain options rest c l where S: "call_setup parse svc inbound = Some (options, rest, c, l)"
    by (cases x) simp
  from accepted_call [OF S, of version client m] obtain r taken sends rows n where
    P: "parse_ebcdic parse version svc client inbound m =
      (Some (Inr (final_items client sends r taken)), call_counted r rows n m)"
    and n: "n \<le> byte_cap svc options" "r = Inr () \<longrightarrow> n = length (concat (chunks_of rest))"
    and rows: "rows = word_of_nat (length (rows_in taken)) \<or>
      r \<noteq> Inr () \<and> rows = word_of_nat (length (rows_in taken)) + 1"
    and A: "parse_answers l (decode_options_of c options) version (po_emit_document options)
      (to_layout_info l (page_name c)) (byte_cap svc options) rest r taken" by blast
  have cap: "byte_cap svc options \<le> svc_max_document_bytes svc" by (simp add: byte_cap_def)
  have t: "list_ex is_trailer taken \<longleftrightarrow> r = Inr ()"
    using A response_trailer by (cases r) (auto simp: parse_answers_def Let_def)
  have "call_counted r rows n m = m
    \<lparr>m_parses_started := m_parses_started m + 1,
      m_parses_completed := m_parses_completed m + of_bool (r = Inr ()),
      m_parses_failed := m_parses_failed m + of_bool (r \<noteq> Inr ()),
      m_records_emitted := m_records_emitted m + rows,
      m_bytes_received := m_bytes_received m + word_of_nat n,
      m_byte_cap_hits := m_byte_cap_hits m +
        of_bool (case r of Inl e \<Rightarrow> code e = ResourceExhausted | Inr _ \<Rightarrow> False)\<rparr>"
    by (cases r) (simp_all add: call_counted_def count_outcome_def Let_def counter_bump_def counter_add_def)
  moreover obtain lost where "rows = word_of_nat (length (rows_in taken)) + of_bool lost"
    and "r = Inr () \<Longrightarrow> lost = False" using rows by (metis add.right_neutral of_bool_eq)
  ultimately show ?thesis unfolding P prod.case option.case sum.case events_in_final stream_error_final t Let_def
    using S n cap
    by (intro exI [of _ options] exI [of _ rest] exI [of _ c] exI [of _ l] exI [of _ n] exI [of _ lost]
        exI [of _ "case r of Inl e \<Rightarrow> code e = ResourceExhausted | Inr _ \<Rightarrow> False"])
      (cases r; simp add: to_status_def add.assoc)
qed

definition balanced :: "metrics \<Rightarrow> bool" where
  "balanced m \<longleftrightarrow> m_parses_started m = m_parses_completed m + m_parses_failed m"

text \<open>The counters: after any calls, one after the other, with any services, request streams and
clients, every parse that was counted as started is counted as completed or as failed.\<close>

theorem metrics_balanced:
  "balanced (fold (\<lambda>(svc, client, inbound) m. snd (parse_ebcdic parse version svc client inbound m))
     calls new_metrics)"
proof -
  have step: "balanced (snd (parse_ebcdic parse version svc client inbound m))" if "balanced m"
    for svc client inbound m
  proof (cases "call_setup parse svc inbound")
    case None
    then obtain x where "snd (parse_ebcdic parse version svc client inbound m) = m\<lparr>m_parses_rejected := x\<rparr>"
      using parse_ebcdic_not_accepted(2) by blast
    with that show ?thesis by (simp add: balanced_def)
  next
    case (Some x)
    then obtain options rest c l where "call_setup parse svc inbound = Some (options, rest, c, l)"
      by (cases x) simp
    from accepted_call [OF this, of version client m] obtain r items rows n where
      "parse_ebcdic parse version svc client inbound m = (items, call_counted r rows n m)" by blast
    with that show ?thesis
      by (cases r) (simp_all add: balanced_def call_counted_def count_outcome_def Let_def counter_bump_def counter_add_def)
  qed
  have "balanced m \<Longrightarrow>
    balanced (fold (\<lambda>(svc, client, inbound) m. snd (parse_ebcdic parse version svc client inbound m)) calls m)"
    for m by (induction calls arbitrary: m) (auto intro: step)
  then show ?thesis by (simp add: balanced_def new_metrics_def)
qed

subsection \<open>A small call\<close>

text \<open>The tiny layout in its protobuf form, with one upload cut in two and an empty frame between.\<close>

definition tiny_proto :: ebcdic_layout where
  "tiny_proto =
     \<lparr>el_records =
        [\<lparr>erl_fields = [\<lparr>ef_name = lit ''N'', ef_size = 1, ef_type = 2, ef_scale = 0, ef_picture = [],
            ef_offset = None\<rparr>], erl_name = lit ''r'', erl_selector = None\<rparr>],
      el_description = [], el_header_size = 1, el_footer_size = 1, el_record_length_field = None,
      el_record_type_field = None\<rparr>"

definition tiny_raw :: raw_layout where
  "tiny_raw =
     \<lparr>raw_records = [\<lparr>raw_record_name = lit ''r'',
        raw_fields = [\<lparr>raw_name = lit ''N'', raw_size = 1, raw_kind = KInteger, raw_scale = 0,
          raw_picture = [], raw_offset = None, raw_declaration = empty_declaration\<rparr>],
        raw_selector = None\<rparr>],
      raw_description = [], raw_header_size = 1, raw_footer_size = 1,
      raw_length_field = None, raw_type_field = None\<rparr>"

lemma tiny_from_proto: "from_proto tiny_proto = Inr tiny_raw"
proof -
  have "field_type_try_from 2 = Some TypeInteger"
    by (simp add: field_type_try_from_def enum_field_type_def)
  then have "kind_from_proto 2 = Inr KInteger"
    by (simp add: kind_from_proto_def)
  then show ?thesis
    by (simp add: from_proto_def tiny_proto_def record_from_proto_def field_from_proto_def tiny_raw_def)
qed

lemma tiny_validates: "validate tiny_raw SourceProto = Inr tiny_layout"
  by (simp add: tiny_raw_def validate_def Let_def guard_def validate_record_def
      validate_field_def check_width_def check_scale_def check_selector_def ok_or_def
      checked_add_u32_def MAX_FOOTER_BYTES_def MAX_LAYOUT_FIELDS_def MAX_RECORD_BYTES_def
      MAX_BINARY_BYTES_def is_numeric_def lit_def digit_limit_def saturating_mul_u32_def
      schema_name_def width_of_def tiny_layout_def tiny_record_def tiny_field_def
      empty_declaration_def)
definition tiny_request :: parse_options where
  "tiny_request =
     \<lparr>po_encoding = [], po_layout_source = Some (LayoutForm tiny_proto), po_max_records = 0,
      po_strip_control_characters = None, po_abort_on_error = False, po_max_document_mib = 0,
      po_emit_document = False\<rparr>"

definition tiny_upload :: "inbound list" where
  "tiny_upload =
     [Message (Some (OptionsFrame tiny_request)), Message (Some (ChunkFrame [0xaa, 1])), Message None,
      Message (Some (ChunkFrame [2, 0xbb]))]"

lemma tiny_opened:
  "call_setup parse new_service (Message (Some (OptionsFrame tiny_request)) # rest) =
     Some (tiny_request, rest, CODE_PAGES ! 0, tiny_layout)"
proof -
  have "resolve_codec (page_name (CODE_PAGES ! 0)) = Inr (CODE_PAGES ! 0)"
    by (rule resolve_canonical) (simp add: CODE_PAGES_def)
  moreover have "resolve_codec [] = resolve_codec (page_name (CODE_PAGES ! 0))"
    by (simp add: resolve_codec_def CODE_PAGES_def DEFAULT_ENCODING_def trim_def is_whitespace_def lit_def)
  ultimately have "resolve_codec (po_encoding tiny_request) = Inr (CODE_PAGES ! 0)"
    by (simp add: tiny_request_def)
  moreover have "resolve_layout parse tiny_request = Inr tiny_layout"
    by (simp add: resolve_layout_def tiny_request_def tiny_from_proto tiny_validates)
  ultimately show ?thesis
    by (simp add: call_setup_def new_service_def DEFAULT_MAX_CONCURRENT_PARSES_def first_options_def)
qed

lemma tiny_setup:
  "call_setup parse new_service tiny_upload =
     Some (tiny_request, tl tiny_upload, CODE_PAGES ! 0, tiny_layout)"
  by (simp add: tiny_upload_def tiny_opened)

lemma tiny_reference_parse:
  "\<exists>rows st. reference_parse tiny_layout (tiny_options 0) [0xaa, 1, 2, 0xbb] = (rows, Inr st) \<and>
     map row_cells rows = [[tiny_cell 1], [tiny_cell 2]] \<and> ps_records_kept st = 2"
  by (simp add: reference_parse_def tiny_reference reference_status_def status_of_def Let_def
      decodable_end_def new_stream_def)
    (simp add: tiny_layout_def start_at_def after_row_def tiny_options_def)

theorem call_delivers_reference_witness:
  "\<exists>rows st. map row_cells rows = [[tiny_cell 1], [tiny_cell 2]] \<and> ps_records_kept st = 2 \<and>
     fst (parse_ebcdic (\<lambda>_. Inl []) [] new_service (\<lambda>_. Takes) tiny_upload new_metrics) =
       Some (Inr (map EventItem (LayoutInfoEvent (to_layout_info tiny_layout (page_name (CODE_PAGES ! 0))) #
         map RecordEvent rows @ [StatusEvent st])))"
proof -
  have opt: "decode_options_of (CODE_PAGES ! 0) tiny_request = tiny_options 0"
    by (simp add: decode_options_of_def tiny_request_def tiny_options_def)
  have data: "all_data (tl tiny_upload)" "concat (chunks_of (tl tiny_upload)) = [0xaa, 1, 2, 0xbb]"
    by (simp_all add: tiny_upload_def)
  have cap: "length (concat (chunks_of (tl tiny_upload))) \<le> byte_cap new_service tiny_request"
    unfolding data by (simp add: byte_cap_def tiny_request_def new_service_def DEFAULT_MAX_DOCUMENT_MIB_def)
  from tiny_reference_parse obtain rows st where
    "reference_parse tiny_layout (tiny_options 0) [0xaa, 1, 2, 0xbb] = (rows, Inr st)"
    "map row_cells rows = [[tiny_cell 1], [tiny_cell 2]]" "ps_records_kept st = 2"
    by (elim exE conjE)
  moreover have "\<not> po_emit_document tiny_request" by (simp add: tiny_request_def)
  ultimately show ?thesis
    using call_delivers_reference [OF tiny_setup _ data(1) cap, where client = "\<lambda>_. Takes"
      and parse = "\<lambda>_. Inl []" and version = "[]" and m = new_metrics]
    by (intro exI [of _ rows] exI [of _ st])
      (simp add: opt data(2) response_events_def closing_events_def del: map_map)
qed

end
