(* ===== verification/Copybook_Calls.thy ===== *)
theory Copybook_Calls
  imports Extracts Copybook_Properties Service_Properties
begin

section \<open>From copybook text to rows\<close>

text \<open>
  The whole program at once: a copybook sent as text, values written under it, and the call that
  reads them back. The layout of a copybook tree is given directly, as the fields of the tree placed
  one after the other; the compiler and the validator are shown to return it.
\<close>

subsection \<open>The layout of a tree\<close>

fun place_fields :: "nat \<Rightarrow> raw_field list \<Rightarrow> field list" where
  "place_fields c [] = []"
| "place_fields c (f # fs) = placed_field c f # place_fields (c + raw_size f) fs"

lemma validate_fields_place:
  "\<forall>raw \<in> set raws. packable raw \<and> raw_size raw \<le> width_limit (raw_kind raw) \<Longrightarrow>
     distinct (map raw_name (named raws)) \<Longrightarrow> raw_name ` set (named raws) \<inter> ns = {} \<Longrightarrow>
     c + bytes_of raws \<le> MAX_RECORD_BYTES \<Longrightarrow>
     validate_fields name c ns raws = Inr (place_fields c raws, c + bytes_of raws)"
proof (induction raws arbitrary: c ns)
  case (Cons raw raws)
  let ?ns = "if raw_kind raw \<noteq> KSkip then insert (raw_name raw) ns else ns"
  have "validate_field name c ns raw = Inr (placed_field c raw, c + raw_size raw, ?ns)"
    using Cons.prems by (subst validate_field_packable) (auto simp: named_def)
  moreover have "validate_fields name (c + raw_size raw) ?ns raws =
      Inr (place_fields (c + raw_size raw) raws, c + raw_size raw + bytes_of raws)"
    using Cons.prems by (intro Cons.IH) (auto simp: named_def split: if_splits)
  ultimately show ?case by simp
qed simp

definition copybook_record :: "item list \<Rightarrow> record_layout" where
  "copybook_record items =
     (let title = record_title (items ! 0); fields = tree_fields items in
      \<lparr>record_name = (if title = [] then DEFAULT_RECORD_NAME else title),
       record_fields = place_fields 0 fields, record_size = bytes_of fields, record_selector = None\<rparr>)"

definition copybook_layout :: "item list \<Rightarrow> layout" where
  "copybook_layout items =
     \<lparr>layout_records = [copybook_record items], layout_description = [], layout_header_size = 0,
      layout_footer_size = 0, layout_length_field = None, layout_type_field = None,
      layout_prefix_size = 0, layout_source_of = SourceCopybook\<rparr>"

lemma copybook_layout_simps [simp]:
  "layout_records (copybook_layout items) = [copybook_record items]"
  "layout_header_size (copybook_layout items) = 0" "layout_footer_size (copybook_layout items) = 0"
  by (simp_all add: copybook_layout_def)

text \<open>A tree the whole program can decode: its text can be printed, it is one record, no field is
wider than its decoder, and no two columns share a name.\<close>

definition decodable_tree :: "item list \<Rightarrow> bool" where
  "decodable_tree items \<longleftrightarrow>
     (\<forall>i \<in> set items. printable i \<and> lexable i) \<and> one_root items \<and> tree_ok items \<and>
     tree_fields items \<noteq> [] \<and>
     (\<forall>f \<in> set (tree_fields items). raw_size f \<le> width_limit (raw_kind f)) \<and>
     distinct (map raw_name (named (tree_fields items)))"

definition copybook_text :: "item list \<Rightarrow> rstr" where
  "copybook_text items = show_statements (concat (map show_full items))"

lemma compile_text:
  assumes "decodable_tree items"
  shows "compile (copybook_text items) = Inr (one_record (record_title (items ! 0)) (tree_fields items))"
  using assms statements_of_items [of items] parse_items_shown [of items]
  unfolding compile_exact copybook_text_def decodable_tree_def by blast

lemma validate_tree:
  assumes "decodable_tree items"
  shows "validate (one_record (record_title (items ! 0)) (tree_fields items)) SourceCopybook =
    Inr (copybook_layout items)"
proof -
  have wf: "\<forall>i \<in> set items. wf_item i" using assms by (simp add: decodable_tree_def printable_def)
  have "validate_fields name 0 {} (tree_fields items) =
      Inr (place_fields 0 (tree_fields items), 0 + bytes_of (tree_fields items))" for name
    using assms tree_fields_packable [OF wf]
    by (intro validate_fields_place) (auto simp: decodable_tree_def tree_ok_def)
  with assms show ?thesis
    by (simp add: validate_def one_record_def guard_def Let_def validate_record_def check_selector_def
        schema_name_def width_of_def decodable_tree_def tree_ok_def copybook_layout_def copybook_record_def)
qed

lemma resolve_copybook_text:
  assumes "decodable_tree items" and "po_layout_source options = Some (CopybookForm (copybook_text items))"
  shows "resolve_layout parse options = Inr (copybook_layout items)"
  by (simp add: resolve_layout_def assms(2) compile_text [OF assms(1)] validate_tree [OF assms(1)])

lemma copybook_call_setup:
  assumes "decodable_tree items" and "po_layout_source options = Some (CopybookForm (copybook_text items))"
    and "resolve_codec (po_encoding options) = Inr c" and "svc_permits svc \<noteq> 0"
  shows "call_setup parse svc (Message (Some (OptionsFrame options)) # frames) =
    Some (options, frames, c, copybook_layout items)"
  by (simp add: call_setup_def first_options_def assms(3,4) resolve_copybook_text [OF assms(1,2)])

lemma wf_copybook_layout: "decodable_tree items \<Longrightarrow> wf_layout (copybook_layout items)"
  using validate_sound [OF validate_tree] by blast

lemma columns_place: "map field_name (columns (place_fields c fs)) = map raw_name (named fs)"
  by (induction fs arbitrary: c) (simp_all add: columns_def named_def placed_field_def)

text \<open>The cells of a row that shows values are named after the named fields of the tree, in order.\<close>

lemma shows_record_names:
  assumes "shows_record r vs cells"
  shows "map cell_name cells = map field_name (columns (record_fields r))"
  using assms
  by (auto simp: shows_record_def shows_plain_def list_all2_conv_all_nth intro!: nth_equalityI)

lemma copybook_cells_named:
  "shows_record (copybook_record items) vs cells \<Longrightarrow>
     map cell_name cells = map raw_name (named (tree_fields items))"
  by (drule shows_record_names) (simp add: copybook_record_def Let_def columns_place)

text \<open>A row of the tree that shows the values written.\<close>

definition tree_row_shows :: "item list \<Rightarrow> plain list \<Rightarrow> record_row \<Rightarrow> bool" where
  "tree_row_shows items vs row \<longleftrightarrow>
     row_record_type row = record_name (copybook_record items) \<and>
     map cell_name (row_cells row) = map raw_name (named (tree_fields items)) \<and>
     shows_record (copybook_record items) vs (row_cells row)"

lemma tree_row_shows_iff: "row_shows (copybook_record items, vs) row \<longleftrightarrow> tree_row_shows items vs row"
  by (auto simp: row_shows_def tree_row_shows_def copybook_cells_named)

subsection \<open>Properties\<close>

lemma tree_rows_of_schema:
  assumes "list_all2 (tree_row_shows items) values_of_rows rows"
  shows "rows_of (record_to_schema (copybook_record items)) rows = rows"
  using assms
  by (induction rule: list_all2_induct) (simp_all add: rows_of_def record_to_schema_def tree_row_shows_def)

lemma copybook_schemas:
  "li_records (to_layout_info (copybook_layout items) page) = [record_to_schema (copybook_record items)]"
  by (simp add: to_layout_info_def copybook_layout_def)

text \<open>C3. End to end: a copybook printed as text and values written under its tree,
sent as a call's options and its chunks however cut, come back on the response stream: the layout of
the tree, one row per record in order with one cell per named field, texts as written and numbers
exact in the scale of the picture, the Document when asked for, and last a trailer that counts the
rows and has nothing left over. The trailer warns of nothing but rows that the Document had to leave
out, and only when the Document was asked for and the caps allow its table fewer rows than were sent.\<close>

theorem copybook_call_roundtrip:
  assumes "decodable_tree items" and "po_layout_source options = Some (CopybookForm (copybook_text items))"
    and "po_max_records options = 0" and "resolve_codec (po_encoding options) = Inr c"
    and "svc_permits svc \<noteq> 0" and "\<forall>n. client n = Takes"
    and "write_records c (copybook_layout items) (map (Pair (copybook_record items)) values_of_rows) =
      Some (concat (chunks_of frames))"
    and "all_data frames" and "length (concat (chunks_of frames)) \<le> byte_cap svc options"
    and info_def: "info = to_layout_info (copybook_layout items) (page_name c)"
    and kept_def: "kept = (\<lambda>rows. kept_rows (li_records info) DEFAULT_ROW_CAP DEFAULT_BYTE_CAP rows
      (record_to_schema (copybook_record items)))"
  shows "\<exists>rows st f.
    fst (parse_ebcdic parse version svc client (Message (Some (OptionsFrame options)) # frames) m) =
      Some (Inr (map EventItem (LayoutInfoEvent info # map RecordEvent rows @
        (if po_emit_document options then [DocumentEvent (take_document f)] else []) @ [StatusEvent st]))) \<and>
    list_all2 (tree_row_shows items) values_of_rows rows \<and>
    f = fold_of version DEFAULT_ROW_CAP DEFAULT_BYTE_CAP info rows \<and>
    ps_records_kept st = length values_of_rows \<and> ps_trailing_bytes st = 0 \<and> \<not> ps_truncated st \<and>
    ps_warnings st = (if po_emit_document options then truncation_warnings f else []) \<and>
    (truncation_warnings f = [] \<longleftrightarrow> kept rows = length rows)"
proof -
  let ?l = "copybook_layout items" and ?r = "copybook_record items"
  let ?opt = "decode_options_of c options" and ?data = "concat (chunks_of frames)"
  have opt: "opt_codec ?opt = c" "opt_max_records ?opt = 0"
    using assms(3) by (simp_all add: decode_options_of_def)
  obtain rows st where R: "reference_parse ?l ?opt ([] @ ?data @ []) = (rows, Inr st)"
    and S: "list_all2 row_shows (map (Pair ?r) values_of_rows) rows"
      "ps_records_kept st = length (map (Pair ?r) values_of_rows)"
      "ps_warnings st = []" "ps_trailing_bytes st = 0" "\<not> ps_truncated st"
    using reference_parse_written [OF wf_copybook_layout [OF assms(1)] resolve_codec_carried [OF assms(4)]
      opt _ assms(7), of "[]" "[]"] by auto
  let ?f = "fold_of version DEFAULT_ROW_CAP DEFAULT_BYTE_CAP info rows"
  let ?st = "if po_emit_document options then st\<lparr>ps_warnings := truncation_warnings ?f\<rparr> else st"
  have "fst (parse_ebcdic parse version svc client (Message (Some (OptionsFrame options)) # frames) m) =
      Some (Inr (map EventItem (LayoutInfoEvent info # map RecordEvent rows @
        (if po_emit_document options then [DocumentEvent (take_document ?f)] else []) @ [StatusEvent ?st])))"
    using accepted_call_delivers [OF copybook_call_setup [OF assms(1,2,4,5)] assms(6,8,9), of parse version m] R S(3)
    by (simp add: response_events_def closing_events_def info_def)
  moreover have rows: "list_all2 (tree_row_shows items) values_of_rows rows"
    using S(1) by (simp add: list_all2_map1 tree_row_shows_iff)
  moreover have "truncation_warnings ?f = [] \<longleftrightarrow> kept rows = length rows"
    using no_truncation_warnings [of info DEFAULT_BYTE_CAP version DEFAULT_ROW_CAP rows] tree_rows_of_schema [OF rows]
    unfolding kept_def info_def copybook_schemas by (simp add: DEFAULT_BYTE_CAP_def)
  ultimately show ?thesis using S by (intro exI [of _ rows] exI [of _ ?st] exI [of _ ?f]) simp
qed

subsection \<open>A small call\<close>

text \<open>A kind and a packed amount with two decimals, under one group.\<close>

definition amount_item :: item where
  "amount_item =
     \<lparr>item_level = 5, item_name = Some (lit ''AMT''), item_picture = Some (lit ''S9V99''),
      item_usage = UPacked, item_occurs = None, item_conditions = []\<rparr>"

definition amount_described :: described where
  "amount_described = \<lparr>described_kind = KPackedDecimal, described_size = 2, described_scale = 2\<rparr>"

definition order_items :: "item list" where
  "order_items = [sample_group, sample_item, amount_item]"

lemma amount_describe: "describe (lit ''S9V99'') UPacked (Some (lit ''AMT'')) = Inr amount_described"
proof -
  have one: "read_count p n (c # cs) = Inr (1, c # cs)" if "c \<noteq> 40" for p n c cs
    using that by (simp add: read_count_def)
  have "read_count p n [] = Inr (1, [])" for p n by (simp add: read_count_def)
  with one have "expand (lit ''S9V99'') (lit ''AMT'') = Inr (lit ''S9V99'')"
    by (simp add: expand_def lit_def guard_def MAX_RECORD_SYMBOLS_def)
  then show ?thesis
    by (simp add: describe_def Let_def guard_def describe_numeric_def amount_described_def lit_def)
qed

lemma amount_item_described: "item_described amount_item = Some (lit ''S9V99'', amount_described)"
  by (simp add: item_described_def amount_item_def amount_describe)

lemma order_leaves:
  "\<not> is_leaf order_items 0" "is_leaf order_items 1" "is_leaf order_items 2" "leaves order_items = [1, 2]"
proof -
  show l: "\<not> is_leaf order_items 0" "is_leaf order_items 1" "is_leaf order_items 2"
    by (simp_all add: is_leaf_def is_group_def order_items_def sample_group_def sample_item_def
        amount_item_def numeral_2_eq_2)
  have "[0..<length order_items] = [0, 1, 2]" by (simp add: order_items_def)
  with l show "leaves order_items = [1, 2]" by (simp add: leaves_def)
qed

lemma order_enclosing: "enclosing order_items 1 = [0]" "enclosing order_items 2 = [0]"
  by (simp_all add: enclosing_def order_items_def sample_group_def sample_item_def amount_item_def
      numeral_2_eq_2)

lemma order_tree_fields:
  "tree_fields order_items =
     [occurrence_field sample_item [(1, lit ''REC'')] (lit ''X'') sample_described 1,
      occurrence_field amount_item [(1, lit ''REC'')] (lit ''S9V99'') amount_described 1]"
proof -
  have "groups_at order_items k = [(1, lit ''REC'')]" if "k = 1 \<or> k = 2" for k
  proof -
    have "enclosing order_items k = [0]" using that order_enclosing by blast
    moreover have "order_items ! 0 = sample_group" by (simp add: order_items_def)
    ultimately show ?thesis by (simp add: groups_at_def group_of_def sample_group_def label_of_def)
  qed
  moreover have "order_items ! 1 = sample_item" "order_items ! 2 = amount_item"
    by (simp_all add: order_items_def)
  moreover have "occurrences_of sample_item = 1" "occurrences_of amount_item = 1"
    by (simp_all add: occurrences_of_def sample_item_def amount_item_def)
  ultimately show ?thesis
    by (simp add: tree_fields_def order_leaves item_fields_def sample_item_described amount_item_described)
qed

lemma amount_printable: "printable amount_item \<and> lexable amount_item"
proof -
  have u: "to_uppercase (lit ''AMT'') = lit ''AMT''" "to_uppercase (lit ''S9V99'') = lit ''S9V99''"
    by (simp_all add: to_uppercase_lit)
  have p: "plain_name (lit ''AMT'')"
    unfolding plain_name_def u by (simp_all add: is_clause_keyword_def keyword_defs)
  have w: "wordy (lit ''AMT'')" "plain_token (lit ''S9V99'')"
    by (simp_all add: wordy_def plain_token_def lit_def is_whitespace_def is_ascii_digit_def)
  have "printable amount_item"
    by (simp add: printable_def wf_item_def amount_item_def p u) (simp add: FILLER_def lit_def)
  then show ?thesis by (simp add: lexable_def amount_item_def w)
qed

lemma order_tree_ok: "tree_ok order_items"
proof -
  have "k < length order_items \<longleftrightarrow> k = 0 \<or> k = 1 \<or> k = 2" for k by (auto simp: order_items_def)
  moreover have items: "order_items ! 0 = sample_group" "order_items ! 1 = sample_item"
    "order_items ! 2 = amount_item" by (simp_all add: order_items_def)
  moreover have "item_picture sample_group = None" "item_occurs sample_group = None"
    by (simp_all add: sample_group_def)
  ultimately have "\<forall>k < length order_items. if is_leaf order_items k
      then item_described (order_items ! k) \<noteq> None
      else item_picture (order_items ! k) = None \<and> item_occurs (order_items ! k) = None"
    using order_leaves(1-3) sample_item_described amount_item_described by (metis option.distinct(1))
  moreover have "item_weight sample_item = 3" "item_weight amount_item = 0"
    by (simp_all add: item_weight_def condition_weight_def occurrences_of_def sample_item_def amount_item_def)
  ultimately show ?thesis
    unfolding tree_ok_def order_tree_fields order_leaves(4)
    by (simp add: items(2,3)[simplified] occurrence_field_def sample_described_def amount_described_def MAX_RECORD_BYTES_def
        MAX_LAYOUT_FIELDS_def MAX_CONDITION_VALUES_def)
qed

lemma order_decodable: "decodable_tree order_items"
proof -
  have "\<forall>i \<in> set order_items. printable i \<and> lexable i"
    using sample_printable amount_printable by (simp add: order_items_def sample_items_def)
  moreover have "one_root order_items"
    by (simp add: one_root_def order_items_def is_root_def sample_group_def sample_item_def amount_item_def)
  ultimately show ?thesis
    using order_tree_ok unfolding decodable_tree_def order_tree_fields
    by (simp add: occurrence_field_def sample_described_def amount_described_def sample_item_def
        amount_item_def named_def leaf_name_def lit_def MAX_RECORD_BYTES_def MAX_PACKED_BYTES_def)
qed

lemma order_written:
  "write_records (CODE_PAGES ! 0) (copybook_layout order_items)
     (map (Pair (copybook_record order_items)) [[PlainText (lit ''A''), PlainNumber (- 123)]]) =
   Some [0xc1, 0x12, 0x3d]"
proof -
  have c: "CODE_PAGES ! 0 \<in> set CODE_PAGES" by (simp add: CODE_PAGES_def)
  have "decode (CODE_PAGES ! 0) [0xc1] = Inr (lit ''A'')"
    by (simp add: decode_Inr_iff [OF c]) (simp add: CODE_PAGES_def CP037_def lit_def UNDEFINED_def)
  then have "encode (CODE_PAGES ! 0) (lit ''A'') = Inr [0xc1]"
    by (rule decode_encode_injective [OF c, rotated]) (simp add: CODE_PAGES_def distinct_CP037)
  moreover have "trim (lit ''A'') = lit ''A''" "list_all (\<lambda>ch. \<not> is_control ch) (lit ''A'')"
    by (simp_all add: lit_def trim_def is_whitespace_def is_control_def)
  moreover have "encode_packed 2 (- 123) = [0x12, 0x3d]"
  proof -
    have digits: "pad_digits (numeral k) n = pad_digits (pred_numeral k) (n div 10) @ [n mod 10]" for k n
      unfolding numeral_eq_Suc [of k] by (rule pad_digits.simps)
    show ?thesis by (simp add: encode_packed_def digits)
  qed
  ultimately have "write_fields (CODE_PAGES ! 0) 0 (record_fields (copybook_record order_items))
      [PlainText (lit ''A''), PlainNumber (- 123)] = Some [0xc1, 0x12, 0x3d]"
    by (simp add: copybook_record_def Let_def order_tree_fields placed_field_def occurrence_field_def
        sample_described_def amount_described_def sample_item_def amount_item_def write_field_def
        packed_holds_def)
  then show ?thesis
    by (simp add: write_record_def write_length_def write_type_def copybook_layout_def)
qed

definition order_request :: parse_options where
  "order_request =
     \<lparr>po_encoding = page_name (CODE_PAGES ! 0), po_layout_source = Some (CopybookForm (copybook_text order_items)),
      po_max_records = 0, po_strip_control_characters = None, po_abort_on_error = False,
      po_max_document_mib = 0, po_emit_document = False\<rparr>"

theorem copybook_call_roundtrip_witness:
  "\<exists>rows st.
    fst (parse_ebcdic (\<lambda>_. Inl []) [] new_service (\<lambda>_. Takes)
        [Message (Some (OptionsFrame order_request)), Message (Some (ChunkFrame [0xc1, 0x12])), Message None,
         Message (Some (ChunkFrame [0x3d]))] new_metrics) =
      Some (Inr (map EventItem (LayoutInfoEvent
        (to_layout_info (copybook_layout order_items) (page_name (CODE_PAGES ! 0))) #
        map RecordEvent rows @ [StatusEvent st]))) \<and>
    list_all2 (tree_row_shows order_items) [[PlainText (lit ''A''), PlainNumber (- 123)]] rows \<and>
    ps_records_kept st = 1 \<and> ps_warnings st = []"
proof -
  let ?frames = "[Message (Some (ChunkFrame [0xc1, 0x12])), Message None, Message (Some (ChunkFrame [0x3d]))]"
  have src: "po_layout_source order_request = Some (CopybookForm (copybook_text order_items))"
    "po_max_records order_request = 0" "po_emit_document order_request = False"
    by (simp_all add: order_request_def)
  have enc: "resolve_codec (po_encoding order_request) = Inr (CODE_PAGES ! 0)"
    unfolding order_request_def parse_options.simps by (rule resolve_canonical) (simp add: CODE_PAGES_def)
  have svc: "svc_permits new_service \<noteq> 0" by (simp add: new_service_def DEFAULT_MAX_CONCURRENT_PARSES_def)
  have data: "concat (chunks_of ?frames) = [0xc1, 0x12, 0x3d]" "all_data ?frames" by simp_all
  have cap: "length (concat (chunks_of ?frames)) \<le> byte_cap new_service order_request"
    unfolding data by (simp add: byte_cap_def order_request_def new_service_def DEFAULT_MAX_DOCUMENT_MIB_def)
  note written = order_written [folded data(1)]
  have takes: "\<forall>n :: nat. (\<lambda>_. Takes) n = Takes" by simp
  from copybook_call_roundtrip [OF order_decodable src(1,2) enc svc takes written data(2) cap refl refl,
      where parse = "\<lambda>_. Inl []" and version = "[]" and m = new_metrics]
  show ?thesis unfolding src(3) if_False append_Nil by (elim exE conjE) (intro exI conjI; simp)
qed

end
