(* ===== verification/Document_Extracts.thy ===== *)
theory Document_Extracts
  imports Copybook_Calls
begin

section \<open>From written values to the tables of the Document\<close>

text \<open>
  The Document at the end of a call shows the values an extract was written from: the text of every
  cell of its tables reads as the value in the column of that field.
\<close>

subsection \<open>Texts that show values\<close>

text \<open>The text of a cell that shows a value: the text written, or the number in decimal with the
digits after the point that the field declares.\<close>

definition text_shows :: "field \<Rightarrow> plain \<Rightarrow> rstr \<Rightarrow> bool" where
  "text_shows f v t \<longleftrightarrow>
     (case v of
        PlainText s \<Rightarrow> t = s
      | PlainNumber n \<Rightarrow>
          fraction_digits t = field_scale f \<and> parse_i128 (filter (\<lambda>ch. ch \<noteq> 46) t) = Some n)"

lemma render_int_reads:
  assumes "i128_min \<le> n" and "n \<le> i128_max"
  shows "fraction_digits (render_int n) = 0 \<and> parse_i128 (filter (\<lambda>ch. ch \<noteq> 46) (render_int n)) = Some n"
proof -
  have "render_int n = render_decimal (word_of_int n) 0"
    by (simp add: render_decimal_def sint_of_int_i128 [OF assms])
  then show ?thesis by (simp add: render_decimal_parse sint_of_int_i128 [OF assms])
qed

lemma cell_text_shows:
  assumes "shows_plain f v cell"
  shows "text_shows f v (cell_text cell)"
proof (cases v)
  case (PlainNumber n)
  with assms obtain x where x: "cell_val cell = Some x" "number_of_cell x = Some (n, field_scale f)"
    "i128_min \<le> n" "n \<le> i128_max" by (auto simp: shows_plain_def)
  show ?thesis
  proof (cases x)
    case (IntegerValue i)
    with x PlainNumber render_int_reads [OF x(3,4)] show ?thesis by (simp add: text_shows_def cell_text_def)
  qed (use x PlainNumber in \<open>auto simp: text_shows_def cell_text_def split: if_splits\<close>)
qed (use assms in \<open>simp add: text_shows_def shows_plain_def cell_text_def\<close>)

subsection \<open>Rows of a table\<close>

lemma schema_columns:
  "map column_name (ts_columns (begin_table (record_to_schema r))) =
     map field_name (columns (record_fields r))"
proof -
  have "field_type_number (kind_to_proto k) = field_type_number TypeSkip \<longleftrightarrow> k = KSkip" for k
    by (cases k) simp_all
  then show ?thesis
    by (simp add: begin_table_def Let_def record_to_schema_def columns_def filter_map comp_def
        column_of_def field_to_schema_def)
qed

lemma find_distinct: "distinct (map g xs) \<Longrightarrow> x \<in> set xs \<Longrightarrow> find (\<lambda>y. g y = g x) xs = Some x"
  by (induction xs) (auto simp: image_iff)

lemma place_cells_named:
  assumes "distinct (map column_name (ts_columns (begin_table s)))"
    and "map cell_name cells = map column_name (ts_columns (begin_table s))"
  shows "map fst (place_cells (begin_table s) cells) = map cell_text cells"
proof (rule nth_equalityI)
  let ?st = "begin_table s"
  have n: "length cells = length (ts_columns ?st)" using assms(2) by (rule map_eq_imp_length_eq)
  have idx: "ts_column_index ?st = index_columns (ts_columns ?st)" by (simp add: begin_table_def Let_def)
  note P = place_cells_nth [OF assms(1) idx, of _ cells]
  show len: "length (map fst (place_cells ?st cells)) = length (map cell_text cells)"
    using P [of 0] n by (cases "ts_columns ?st") (auto simp: place_cells_def)
  fix j assume "j < length (map fst (place_cells ?st cells))"
  with len have j: "j < length cells" by simp
  have "cell_name (cells ! j) = column_name (ts_columns ?st ! j)"
    using arg_cong [OF assms(2), of "\<lambda>xs. xs ! j"] j n by simp
  moreover have "distinct (map cell_name (rev cells))" using assms by (simp add: rev_map [symmetric])
  ultimately have "find (\<lambda>c. cell_name c = column_name (ts_columns ?st ! j)) (rev cells) = Some (cells ! j)"
    using j find_distinct [of cell_name "rev cells" "cells ! j"] by simp
  with P [of j] j n show "map fst (place_cells ?st cells) ! j = map cell_text cells ! j" by simp
qed

text \<open>A row of the grid that shows values, and the values written into the records of one layout.\<close>

definition row_reads :: "record_layout \<Rightarrow> plain list \<Rightarrow> rstr list \<Rightarrow> bool" where
  "row_reads r vs texts \<longleftrightarrow>
     length vs = length (columns (record_fields r)) \<and>
     list_all2 (\<lambda>(f, v) t. text_shows f v t) (zip (columns (record_fields r)) vs) texts"

definition values_of :: "record_layout \<Rightarrow> (record_layout \<times> plain list) list \<Rightarrow> plain list list" where
  "values_of r recs = map snd (filter (\<lambda>(r', _). record_name r' = record_name r) recs)"

lemma row_placed_reads:
  assumes "wf_record r" and "shows_record r vs cells"
  shows "row_reads r vs (map tc_text (grid_row k (place_cells (begin_table (record_to_schema r)) cells)))"
proof -
  have "map tc_text (grid_row k (place_cells (begin_table (record_to_schema r)) cells)) = map cell_text cells"
    unfolding grid_row_texts using assms(1) shows_record_names [OF assms(2)]
    by (intro place_cells_named) (simp_all add: schema_columns wf_record_def)
  then show ?thesis
    using assms(2) by (auto simp: row_reads_def shows_record_def list_all2_conv_all_nth cell_text_shows)
qed

lemma rows_of_shown:
  assumes "distinct (map record_name (layout_records l))" and "r \<in> set (layout_records l)"
    and "list_all2 row_shows recs rows" and "\<forall>(r, vs) \<in> set recs. r \<in> set (layout_records l)"
  shows "list_all2 (\<lambda>vs row. shows_record r vs (row_cells row)) (values_of r recs)
    (rows_of (record_to_schema r) rows)"
  using assms(3,4)
proof (induction rule: list_all2_induct)
  case (Cons rec recs row rows)
  obtain r' vs where rec: "rec = (r', vs)" by (cases rec)
  with Cons.hyps have "row_record_type row = record_name r'" "shows_record r' vs (row_cells row)"
    by (simp_all add: row_shows_def)
  moreover have "record_name r' = record_name r \<longleftrightarrow> r' = r"
    using assms(1,2) Cons.prems rec by (auto dest: distinct_map [THEN iffD1, THEN conjunct2, THEN inj_onD])
  ultimately show ?case
    using Cons.IH Cons.prems rec by (auto simp: values_of_def rows_of_def record_to_schema_def)
qed (simp add: values_of_def rows_of_def)

text \<open>A table that shows values: its header names the columns of the record, and below it every row
reads as the values of one record.\<close>

definition table_shows_values :: "record_layout \<Rightarrow> plain list list \<Rightarrow> table_item \<Rightarrow> bool" where
  "table_shows_values r vss t \<longleftrightarrow>
     (\<exists>d header body. ti_data t = Some d \<and> td_grid d = header # body \<and>
        map tc_text header = map field_name (columns (record_fields r)) \<and>
        list_all2 (\<lambda>vs row. row_reads r vs (map tc_text row)) vss body)"

lemma header_row_texts: "map tc_text (header_row st) = map column_name (ts_columns st)"
  by (auto simp: header_row_def table_cell_at_def comp_def case_prod_beta enumerate_eq_zip
      intro!: nth_equalityI)

lemma shown_rows_table:
  assumes "wf_record r" and "ti_data t = Some d" and "shows_rows (record_to_schema r) mine n d"
    and "list_all2 (\<lambda>vs row. shows_record r vs (row_cells row)) vss mine"
  shows "table_shows_values r (take n vss) t"
proof -
  have "list_all2 (\<lambda>vs row. row_reads r vs (map tc_text row)) (take n vss)
      (grid_of (record_to_schema r) (take n mine))"
    using assms(4) row_placed_reads [OF assms(1)]
    by (auto simp: list_all2_conv_all_nth grid_of_def)
  with assms(2,3) show ?thesis
    by (auto simp: table_shows_values_def shows_rows_def header_row_texts schema_columns)
qed

subsection \<open>Properties\<close>

lemma schema_names_distinct: "wf_layout l \<Longrightarrow> distinct (map rs_name (li_records (to_layout_info l page)))"
  by (simp add: wf_layout_def to_layout_info_def comp_def record_to_schema_def)

lemma fold_shows_values:
  assumes "wf_layout l" and "\<forall>(r, vs) \<in> set recs. r \<in> set (layout_records l)"
    and "list_all2 row_shows recs rows" and "cells_cap < u64_max"
    and f_def: "f = fold_of version row_cap cells_cap (to_layout_info l page) rows"
    and vals_def: "vals = (\<lambda>k. values_of (layout_records l ! k) recs)"
    and kept_def: "kept = (\<lambda>k. kept_rows (map record_to_schema (layout_records l)) row_cap cells_cap rows
      (record_to_schema (layout_records l ! k)))"
    and n_def: "n = length (layout_records l)"
  shows "list_all2 (\<lambda>k t. table_shows_values (layout_records l ! k) (take (kept k) (vals k)) t)
      (filter (\<lambda>k. vals k \<noteq> []) [0..<n]) (doc_tables (take_document f))"
    and "truncation_warnings f = [] \<longleftrightarrow> (\<forall>k < n. kept k = length (vals k))"
proof -
  let ?info = "to_layout_info l page" and ?s = "\<lambda>k. record_to_schema (layout_records l ! k)"
  have records: "li_records ?info = map record_to_schema (layout_records l)"
    by (simp add: to_layout_info_def)
  let ?mine = "\<lambda>k. rows_of (?s k) rows"
  have d: "distinct (map record_name (layout_records l))" using assms(1) by (simp add: wf_layout_def)
  have shown: "list_all2 (\<lambda>vs row. shows_record (layout_records l ! k) vs (row_cells row)) (vals k) (?mine k)"
    if "k < n" for k
    unfolding vals_def using that by (intro rows_of_shown [OF d _ assms(3,2)]) (simp add: n_def)
  then have eq: "length (?mine k) = length (vals k)" if "k < n" for k
    using that by (metis list_all2_lengthD)
  have t: "df_tables f = map (\<lambda>k. table_after (?s k) (?mine k) (kept k)) [0..<n]"
    using fold_tables_kept [OF schema_names_distinct [OF assms(1)] assms(4), of version row_cap page rows]
    unfolding records f_def kept_def n_def by (simp cong: map_cong)
  have "list_all2 (\<lambda>k t. \<exists>d. ti_data t = Some d \<and> shows_rows (?s k) (?mine k) (kept k) d)
      (filter (\<lambda>k. ?mine k \<noteq> []) [0..<n]) (doc_tables (take_document f))"
    by (intro kept_tables_shown [OF t]) (simp_all add: f_def fold_of_no_tables kept_def kept_rows_le)
  moreover have "filter (\<lambda>k. ?mine k \<noteq> []) [0..<n] = filter (\<lambda>k. vals k \<noteq> []) [0..<n]"
    by (rule filter_cong [OF refl]) (metis eq atLeastLessThan_iff length_0_conv set_upt)
  ultimately have tables: "list_all2 (\<lambda>k t. \<exists>d. ti_data t = Some d \<and> shows_rows (?s k) (?mine k) (kept k) d)
      (filter (\<lambda>k. vals k \<noteq> []) [0..<n]) (doc_tables (take_document f))" by simp
  show "list_all2 (\<lambda>k t. table_shows_values (layout_records l ! k) (take (kept k) (vals k)) t)
      (filter (\<lambda>k. vals k \<noteq> []) [0..<n]) (doc_tables (take_document f))"
  proof (rule list.rel_mono_strong [OF tables])
    fix k and t :: table_item
    assume "k \<in> set (filter (\<lambda>k. vals k \<noteq> []) [0..<n])"
      and "\<exists>d. ti_data t = Some d \<and> shows_rows (?s k) (?mine k) (kept k) d"
    then obtain d where k: "k < n" and d: "ti_data t = Some d" "shows_rows (?s k) (?mine k) (kept k) d" by auto
    have "wf_record (layout_records l ! k)" using assms(1) k by (simp add: wf_layout_def n_def)
    from shown_rows_table [OF this d shown [OF k]]
    show "table_shows_values (layout_records l ! k) (take (kept k) (vals k)) t" .
  qed
  show "truncation_warnings f = [] \<longleftrightarrow> (\<forall>k < n. kept k = length (vals k))"
    using no_truncation_warnings [OF schema_names_distinct [OF assms(1)] assms(4), of version row_cap page rows] eq
    unfolding records f_def kept_def by (auto simp: all_set_conv_all_nth n_def)
qed

text \<open>C4. End to end, in the Document: values written into the records of an extract, sent in an accepted
call that asks for the Document, come back in its tables, sent right before the trailer: one table for
each record type that was written, in layout order, under a header that names its columns, and in it
the first of its records in order, every cell with the text written or the number exactly, with the
digits after the point that the field declares. A table has exactly as many rows as the caps allow: up
to the row cap, of those that arrived before the first row whose tables would cost more than the byte
cap. The trailer has no warning exactly when no record is left out.\<close>

theorem document_shows_values:
  assumes "call_setup parse svc inbound = Some (options, frames, c, l)" and "\<forall>n. client n = Takes"
    and "all_data frames" and "length (concat (chunks_of frames)) \<le> byte_cap svc options"
    and "po_emit_document options" and "po_max_records options = 0"
    and "\<forall>(r, vs) \<in> set recs. r \<in> set (layout_records l)" and "write_records c l recs = Some data"
    and "length header = layout_header_size l" and "length footer = layout_footer_size l"
    and "concat (chunks_of frames) = header @ data @ footer"
    and vals_def: "vals = (\<lambda>k. values_of (layout_records l ! k) recs)"
    and kept_def: "kept = (\<lambda>rows k. kept_rows (map record_to_schema (layout_records l))
      DEFAULT_ROW_CAP DEFAULT_BYTE_CAP rows (record_to_schema (layout_records l ! k)))"
  shows "\<exists>rows d st.
    fst (parse_ebcdic parse version svc client inbound m) =
      Some (Inr (map EventItem (LayoutInfoEvent (to_layout_info l (page_name c)) # map RecordEvent rows @
        [DocumentEvent d, StatusEvent st]))) \<and>
    list_all2 row_shows recs rows \<and>
    list_all2 (\<lambda>k t. table_shows_values (layout_records l ! k) (take (kept rows k) (vals k)) t)
      (filter (\<lambda>k. vals k \<noteq> []) [0..<length (layout_records l)]) (doc_tables d) \<and>
    (ps_warnings st = [] \<longleftrightarrow> (\<forall>k < length (layout_records l). kept rows k = length (vals k)))"
proof -
  let ?opt = "decode_options_of c options" and ?info = "to_layout_info l (page_name c)"
  have c: "c \<in> set CODE_PAGES" and wf: "wf_layout l"
    using assms(1) call_setup_layout by (auto simp: call_setup_def resolve_codec_carried
      split: if_splits sum.splits prod.splits)
  have opt: "opt_codec ?opt = c" "opt_max_records ?opt = 0"
    using assms(6) by (simp_all add: decode_options_of_def)
  obtain rows st where R: "reference_parse l ?opt (concat (chunks_of frames)) = (rows, Inr st)"
    and S: "list_all2 row_shows recs rows" "ps_warnings st = []"
    unfolding assms(11) using reference_parse_written [OF wf c opt assms(7-10)] by blast
  let ?f = "fold_of version DEFAULT_ROW_CAP DEFAULT_BYTE_CAP ?info rows"
  let ?st = "st\<lparr>ps_warnings := truncation_warnings ?f\<rparr>"
  have "fst (parse_ebcdic parse version svc client inbound m) =
      Some (Inr (map EventItem (LayoutInfoEvent ?info # map RecordEvent rows @
        [DocumentEvent (take_document ?f), StatusEvent ?st])))"
    using assms(5) S(2) by (simp add: accepted_call_delivers [OF assms(1-4)] R response_events_def closing_events_def)
  moreover have "DEFAULT_BYTE_CAP < u64_max" by (simp add: DEFAULT_BYTE_CAP_def)
  note shown = fold_shows_values [OF wf assms(7) S(1) this refl vals_def fun_cong [OF kept_def] refl,
      of version "page_name c"]
  ultimately show ?thesis
    using S(1) by (intro exI [of _ rows] exI [of _ "take_document ?f"] exI [of _ ?st]) simp
qed

text \<open>The order of a kind and an amount, with its Document.\<close>

theorem document_shows_values_witness:
  "\<exists>rows d st n.
    fst (parse_ebcdic (\<lambda>_. Inl []) [] new_service (\<lambda>_. Takes)
        [Message (Some (OptionsFrame (order_request\<lparr>po_emit_document := True\<rparr>))),
         Message (Some (ChunkFrame [0xc1, 0x12])), Message (Some (ChunkFrame [0x3d]))] new_metrics) =
      Some (Inr (map EventItem (LayoutInfoEvent
        (to_layout_info (copybook_layout order_items) (page_name (CODE_PAGES ! 0))) #
        map RecordEvent rows @ [DocumentEvent d, StatusEvent st]))) \<and>
    list_all2 row_shows [(copybook_record order_items, [PlainText (lit ''A''), PlainNumber (- 123)])] rows \<and>
    n = kept_rows [record_to_schema (copybook_record order_items)] DEFAULT_ROW_CAP DEFAULT_BYTE_CAP rows
      (record_to_schema (copybook_record order_items)) \<and>
    list_all2 (\<lambda>k t. table_shows_values (copybook_record order_items)
        (take n [[PlainText (lit ''A''), PlainNumber (- 123)]]) t) [0 :: nat] (doc_tables d) \<and>
    (ps_warnings st = [] \<longleftrightarrow> n = 1)"
proof -
  let ?req = "order_request\<lparr>po_emit_document := True\<rparr>" and ?l = "copybook_layout order_items"
    and ?r = "copybook_record order_items" and ?vss = "[[PlainText (lit ''A''), PlainNumber (- 123)]]"
  let ?frames = "[Message (Some (ChunkFrame [0xc1, 0x12])), Message (Some (ChunkFrame [0x3d]))]"
  let ?recs = "map (Pair ?r) ?vss"
  have req: "po_layout_source ?req = Some (CopybookForm (copybook_text order_items))"
    "po_max_records ?req = 0" "po_emit_document ?req"
    by (simp_all add: order_request_def)
  have enc: "resolve_codec (po_encoding ?req) = Inr (CODE_PAGES ! 0)"
    unfolding order_request_def by (simp, rule resolve_canonical) (simp add: CODE_PAGES_def)
  have svc: "svc_permits new_service \<noteq> 0" by (simp add: new_service_def DEFAULT_MAX_CONCURRENT_PARSES_def)
  note accepted = copybook_call_setup [OF order_decodable req(1) enc svc]
  have data: "concat (chunks_of ?frames) = [] @ [0xc1, 0x12, 0x3d] @ []" "all_data ?frames" by simp_all
  have cap: "length (concat (chunks_of ?frames)) \<le> byte_cap new_service ?req"
    unfolding data by (simp add: byte_cap_def order_request_def new_service_def DEFAULT_MAX_DOCUMENT_MIB_def)
  have recs: "\<forall>(r, vs) \<in> set ?recs. r \<in> set (layout_records ?l)" by simp
  have ends: "length [] = layout_header_size ?l" "length [] = layout_footer_size ?l" by simp_all
  have takes: "\<forall>n :: nat. (\<lambda>_. Takes) n = Takes" by simp
  have one: "layout_records ?l = [?r]" "values_of ?r ?recs = ?vss"
    by (simp_all add: values_of_def copybook_layout_def)
  from document_shows_values [OF accepted takes data(2) cap req(3,2) recs order_written ends data(1) refl refl,
      where parse = "\<lambda>_. Inl []" and version = "[]" and m = new_metrics]
  obtain rows d st where P:
    "fst (parse_ebcdic (\<lambda>_. Inl []) [] new_service (\<lambda>_. Takes) (Message (Some (OptionsFrame ?req)) # ?frames) new_metrics) =
      Some (Inr (map EventItem (LayoutInfoEvent (to_layout_info ?l (page_name (CODE_PAGES ! 0))) #
        map RecordEvent rows @ [DocumentEvent d, StatusEvent st])))"
    "list_all2 row_shows ?recs rows"
    "list_all2 (\<lambda>k t. table_shows_values ([?r] ! k)
        (take (kept_rows [record_to_schema ?r] DEFAULT_ROW_CAP DEFAULT_BYTE_CAP rows (record_to_schema ([?r] ! k)))
          (values_of ([?r] ! k) ?recs)) t)
      (filter (\<lambda>k. values_of ([?r] ! k) ?recs \<noteq> []) [0..<1]) (doc_tables d)"
    "ps_warnings st = [] \<longleftrightarrow> (\<forall>k < 1. kept_rows [record_to_schema ?r] DEFAULT_ROW_CAP DEFAULT_BYTE_CAP rows
      (record_to_schema ([?r] ! k)) = length (values_of ([?r] ! k) ?recs))"
    unfolding one(1) list.map(2) list.map(1) list.size One_nat_def by auto
  have "filter (\<lambda>k. values_of ([?r] ! k) ?recs \<noteq> []) [0..<1] = [0]" by (simp add: values_of_def)
  with P one(2) show ?thesis
    by (intro exI [of _ rows] exI [of _ d] exI [of _ st] exI conjI) (auto simp: list_all2_Cons1)
qed

end
