(* ===== verification/Layout_Forms.thy ===== *)
theory Layout_Forms
  imports Copybook_Calls
begin

section \<open>The same layout in another form\<close>

text \<open>
  The layout event tells a client how its file was read. Here a client sends that layout back, in the
  protobuf or the JSON form, with the prefix fields it knows from its own request. Such a layout
  describes the same bytes; all it loses is what a copybook says beyond them. \<open>bare_layout\<close> is a layout
  without that, and a walk does not tell the two apart.
\<close>

subsection \<open>A layout without its declarations\<close>

definition bare_field :: "field \<Rightarrow> field" where
  "bare_field f = f\<lparr>field_declaration := empty_declaration\<lparr>decl_path := field_name f\<rparr>\<rparr>"

definition bare_record :: "record_layout \<Rightarrow> record_layout" where
  "bare_record r = r\<lparr>record_fields := map bare_field (record_fields r)\<rparr>"

definition bare_layout :: "layout_source \<Rightarrow> layout \<Rightarrow> layout" where
  "bare_layout source l =
     l\<lparr>layout_records := map bare_record (layout_records l),
       layout_length_field := map_option bare_field (layout_length_field l),
       layout_type_field := map_option bare_field (layout_type_field l),
       layout_source_of := source\<rparr>"

lemma bare_field_simps [simp]:
  "field_name (bare_field f) = field_name f" "field_offset (bare_field f) = field_offset f"
  "field_size (bare_field f) = field_size f" "field_kind (bare_field f) = field_kind f"
  "field_scale (bare_field f) = field_scale f" "field_picture (bare_field f) = field_picture f"
  "field_declaration (bare_field f) = empty_declaration\<lparr>decl_path := field_name f\<rparr>"
  by (simp_all add: bare_field_def)

lemma bare_record_simps [simp]:
  "record_name (bare_record r) = record_name r" "record_size (bare_record r) = record_size r"
  "record_selector (bare_record r) = record_selector r"
  "record_fields (bare_record r) = map bare_field (record_fields r)"
  by (simp_all add: bare_record_def)

lemma bare_layout_simps [simp]:
  "layout_records (bare_layout src l) = map bare_record (layout_records l)"
  "layout_length_field (bare_layout src l) = map_option bare_field (layout_length_field l)"
  "layout_type_field (bare_layout src l) = map_option bare_field (layout_type_field l)"
  "layout_header_size (bare_layout src l) = layout_header_size l"
  "layout_footer_size (bare_layout src l) = layout_footer_size l"
  "layout_prefix_size (bare_layout src l) = layout_prefix_size l"
  "layout_description (bare_layout src l) = layout_description l"
  "layout_source_of (bare_layout src l) = src"
  by (simp_all add: bare_layout_def)

lemma fields_from_bare [simp]: "fields_from c (map bare_field fs) e \<longleftrightarrow> fields_from c fs e"
  by (induction fs arbitrary: c) simp_all

lemma columns_bare [simp]: "columns (map bare_field fs) = map bare_field (columns fs)"
  by (induction fs) simp_all

lemma width_of_bare [simp]: "width_of (map_option bare_field f) = width_of f"
  by (cases f) (simp_all add: width_of_def)

lemma wf_bare_record: "wf_record r \<Longrightarrow> wf_record (bare_record r)"
  by (auto simp: wf_record_def wf_field_def comp_def)

lemma wf_bare_layout:
  assumes "wf_layout l"
  shows "wf_layout (bare_layout src l)"
proof -
  have "wf_prefix off (bare_field f)" if "wf_prefix off f" for off f
    using that by (simp add: wf_prefix_def)
  with assms wf_bare_record show ?thesis
    by (auto simp: wf_layout_def wf_selectors_def comp_def)
qed

subsection \<open>A walk does not see the declarations\<close>

lemma decode_field_bare [simp]: "decode_field (bare_field f) = decode_field f"
  by (intro ext) (simp add: decode_field_def)

lemma decode_cells_bare [simp]: "decode_cells (bare_record r) = decode_cells r"
proof (intro ext)
  fix body opt
  have c: "decode_cell (bare_record r) body opt (bare_field f) = decode_cell r body opt f" for f
    by (simp add: decode_cell_def)
  have "decode_fields (bare_record r) body opt (map bare_field fs) = decode_fields r body opt fs" for fs
    by (induction fs) (simp_all add: c)
  then show "decode_cells (bare_record r) body opt = decode_cells r body opt"
    by (simp add: decode_cells_def)
qed

lemma find_map_same: "(\<And>x. P (f x) = P x) \<Longrightarrow> find P (map f xs) = map_option f (find P xs)"
  by (induction xs) simp_all

lemma select_bare: "select (bare_layout src l) v = map_option bare_record (select l v)"
  by (auto simp: select_def find_map_same split: option.splits list.splits)

lemma read_prefix_bare:
  "read_prefix (stream_at (bare_layout src l) opt base bs) =
     rbind (read_prefix (stream_at l opt base bs)) (\<lambda>(r, n). Inr (bare_record r, n))"
proof -
  let ?s = "stream_at l opt base bs" and ?t = "stream_at (bare_layout src l) opt base bs"
  have v: "length_of_value ?t (bare_field f) = length_of_value ?s f" for f
    by (intro ext) (simp add: length_of_value_def split: field_value.split option.split)
  have len: "read_length ?t = read_length ?s"
    by (cases "layout_length_field l") (simp_all add: read_length_def v)
  have type: "read_type ?t = read_type ?s"
    by (cases "layout_type_field l") (simp_all add: read_type_def)
  have size: "check_body_size ?t len (bare_record r) = check_body_size ?s len r" for len r
    unfolding check_body_size_def stream_at_simps bare_layout_simps bare_record_simps by (rule refl)
  have pick: "ok_or e (map_option g x) = rbind (ok_or e x) (\<lambda>y. Inr (g y))" for e x and g :: "'b \<Rightarrow> 'c"
    by (cases x) (simp_all add: ok_or_def)
  show ?thesis
    unfolding read_prefix_def len type
    by (simp add: select_bare pick size rbind_assoc)
qed

definition bare_outcome :: "outcome \<Rightarrow> outcome" where
  "bare_outcome x = (case x of Found r cells n \<Rightarrow> Found (bare_record r) cells n | _ \<Rightarrow> x)"

lemma bare_outcome_simps [simp]:
  "bare_outcome NeedMore = NeedMore" "bare_outcome (Fails e) = Fails e"
  "bare_outcome (Found r cells n) = Found (bare_record r) cells n"
  by (simp_all add: bare_outcome_def)

lemma read_one_bare: "read_one (bare_layout src l) opt base bs = bare_outcome (read_one l opt base bs)"
  by (auto simp: read_one_def Let_def read_prefix_bare split: sum.splits prod.splits if_splits)

lemma row_at_bare [simp]: "row_at p (bare_record r) = row_at p r"
  by (intro ext) (simp add: row_at_def)

lemma after_row_bare [simp]: "after_row opt p (bare_record r) = after_row opt p r"
  by (intro ext) (simp add: after_row_def)

lemma batch_bare:
  assumes wf: "wf_layout l"
  shows "batch (bare_layout src l) opt p bs = batch l opt p bs"
  using wf
proof (induction p bs rule: batch_induct [where opt = opt])
  case (Found p bs r cells n)
  have f: "read_one (bare_layout src l) opt (pr_base p) bs = Found (bare_record r) cells n"
    by (simp add: read_one_bare Found(2))
  show ?case
    using Found(5)
    unfolding batch_found [OF wf Found(1,2)] batch_found [OF wf_bare_layout [OF wf] Found(1) f] by simp
qed (simp_all add: batch_more batch_fails read_one_bare)

lemma reference_parse_bare:
  assumes "wf_layout l"
  shows "reference_parse (bare_layout src l) opt inp = reference_parse l opt inp"
proof -
  have "data_of (bare_layout src l) inp = data_of l inp" by (simp add: data_of_def)
  moreover have "start_at (bare_layout src l) = start_at l"
    by (intro ext) (simp add: start_at_def comp_def)
  moreover have "reference_status (bare_layout src l) opt inp = reference_status l opt inp"
    by (intro ext) (simp add: reference_status_def status_of_def decodable_end_def new_stream_def Let_def)
  ultimately show ?thesis
    unfolding reference_parse_def reference_rows_def bare_layout_simps by (simp only: batch_bare [OF assms])
qed

lemma run_stream_bare:
  "wf_layout l \<Longrightarrow> run_stream (bare_layout src l) opt chunks = run_stream l opt chunks"
  by (simp add: run_stream_reference wf_bare_layout reference_parse_bare)

subsection \<open>What a layout event says, as a request\<close>

definition field_request :: "field_schema \<Rightarrow> ebcdic_field" where
  "field_request f =
     \<lparr>ef_name = fs_name f, ef_size = fs_size f, ef_type = fs_type f, ef_scale = fs_scale f,
      ef_picture = fs_picture f, ef_offset = Some (fs_offset f)\<rparr>"

definition record_request :: "record_schema \<Rightarrow> ebcdic_record_layout" where
  "record_request r =
     \<lparr>erl_fields = map field_request (rs_fields r), erl_name = rs_name r, erl_selector = rs_selector r\<rparr>"

definition layout_request :: "layout_info \<Rightarrow> ebcdic_field option \<Rightarrow> ebcdic_field option \<Rightarrow> ebcdic_layout" where
  "layout_request info length_field type_field =
     \<lparr>el_records = map record_request (li_records info), el_description = li_description info,
      el_header_size = li_header_size info, el_footer_size = li_footer_size info,
      el_record_length_field = length_field, el_record_type_field = type_field\<rparr>"

text \<open>The same request in the JSON form.\<close>

definition json_type :: "int \<Rightarrow> json_field_type" where
  "json_type n =
     (case field_type_try_from n of
        Some TypeInteger \<Rightarrow> JInteger
      | Some TypeUnsignedInteger \<Rightarrow> JUnsignedInteger
      | Some TypePackedDecimal \<Rightarrow> JPackedDecimal
      | Some TypeZonedDecimal \<Rightarrow> JZonedDecimal
      | Some TypeSkip \<Rightarrow> JSkip
      | _ \<Rightarrow> JString)"

definition json_field_request :: "ebcdic_field \<Rightarrow> json_field" where
  "json_field_request f =
     \<lparr>jf_name = ef_name f, jf_size = ef_size f, jf_type = json_type (ef_type f),
      jf_scale = ef_scale f, jf_offset = ef_offset f, jf_picture = Some (ef_picture f)\<rparr>"

definition json_request :: "ebcdic_layout \<Rightarrow> json_layout" where
  "json_request l =
     \<lparr>jl_records = map (\<lambda>r. \<lparr>jr_fields = map json_field_request (erl_fields r),
        jr_name = Some (erl_name r), jr_selector = erl_selector r\<rparr>) (el_records l),
      jl_description = el_description l, jl_header_size = el_header_size l,
      jl_footer_size = el_footer_size l,
      jl_record_length_field = map_option json_field_request (el_record_length_field l),
      jl_record_type_field = map_option json_field_request (el_record_type_field l)\<rparr>"

subsection \<open>Reading it back\<close>

definition map_fields :: "(raw_field \<Rightarrow> raw_field) \<Rightarrow> raw_layout \<Rightarrow> raw_layout" where
  "map_fields g raw =
     raw\<lparr>raw_records := map (\<lambda>r. r\<lparr>raw_fields := map g (raw_fields r)\<rparr>) (raw_records raw),
         raw_length_field := map_option g (raw_length_field raw),
         raw_type_field := map_option g (raw_type_field raw)\<rparr>"

definition undeclared :: "raw_field \<Rightarrow> raw_field" where
  "undeclared raw = raw\<lparr>raw_declaration := empty_declaration\<rparr>"

definition named_only :: "raw_field \<Rightarrow> raw_field" where
  "named_only raw = raw\<lparr>raw_declaration := empty_declaration\<lparr>decl_path := raw_name raw\<rparr>\<rparr>"

definition request_for :: "layout \<Rightarrow> rstr \<Rightarrow> ebcdic_layout" where
  "request_for l encoding =
     layout_request (to_layout_info l encoding)
       (map_option (field_request \<circ> field_to_schema) (layout_length_field l))
       (map_option (field_request \<circ> field_to_schema) (layout_type_field l))"

lemma kind_forms:
  "kind_from_proto (field_type_number (kind_to_proto k)) = Inr k"
  "kind_from_json (json_type (field_type_number (kind_to_proto k))) = k"
  unfolding kind_from_proto_def json_type_def field_type_try_from_number by (cases k; simp)+

lemma field_from_request:
  "field_from_proto (field_request (field_to_schema f)) = Inr (undeclared (raw_of_field f))"
  "field_from_json (json_field_request (field_request (field_to_schema f))) = undeclared (raw_of_field f)"
  by (simp_all add: field_from_proto_def field_from_json_def json_field_request_def field_request_def
      field_to_schema_def undeclared_def raw_of_field_def kind_forms)

lemma record_from_request:
  "record_from_proto (record_request (record_to_schema r)) =
     Inr ((raw_of_record r)\<lparr>raw_fields := map undeclared (raw_fields (raw_of_record r))\<rparr>)"
proof -
  have "rmap field_from_proto (map (field_request \<circ> field_to_schema) fs) =
      Inr (map (undeclared \<circ> raw_of_field) fs)" for fs
    by (induction fs) (simp_all add: field_from_request)
  then show ?thesis
    by (simp add: record_from_proto_def record_request_def record_to_schema_def raw_of_record_def)
qed

lemma from_proto_request: "from_proto (request_for l e) = Inr (map_fields undeclared (raw_of_layout l))"
proof -
  have "rmap record_from_proto (map (record_request \<circ> record_to_schema) rs) =
      Inr (map ((\<lambda>r. r\<lparr>raw_fields := map undeclared (raw_fields r)\<rparr>) \<circ> raw_of_record) rs)" for rs
    by (induction rs) (simp_all add: record_from_request)
  moreover have "rtraverse field_from_proto (map_option (field_request \<circ> field_to_schema) f) =
      Inr (map_option (undeclared \<circ> raw_of_field) f)" for f
    by (cases f) (simp_all add: field_from_request)
  ultimately show ?thesis
    by (simp add: from_proto_def request_for_def layout_request_def to_layout_info_def map_fields_def
        raw_of_layout_def option.map_comp)
qed

lemma from_json_request:
  assumes "parse bytes = Inr (json_request (request_for l e))"
  shows "from_json parse bytes = Inr (map_fields undeclared (raw_of_layout l))"
  by (simp add: from_json_def assms json_request_def request_for_def layout_request_def to_layout_info_def
      map_fields_def raw_of_layout_def record_request_def record_to_schema_def raw_of_record_def
      comp_def field_from_request option.map_comp)

text \<open>The validator gives a field without a declaration the path it would have declared: its name.\<close>

lemma validate_field_named: "validate_field name c ns (named_only raw) = validate_field name c ns (undeclared raw)"
  by (simp add: validate_field_def check_width_def check_scale_def named_only_def undeclared_def
      empty_declaration_def Let_def cong: option.case_cong if_cong)

lemma prefix_field_named: "prefix_field (named_only raw) role = prefix_field (undeclared raw) role"
  by (simp add: prefix_field_def check_width_def check_scale_def named_only_def undeclared_def
      empty_declaration_def Let_def cong: option.case_cong if_cong)

lemma validate_fields_named:
  "validate_fields name c ns (map named_only raws) = validate_fields name c ns (map undeclared raws)"
  by (induction raws arbitrary: c ns) (simp_all add: validate_field_named)

lemma validate_records_named:
  "validate_records typed names sels (map (\<lambda>r. r\<lparr>raw_fields := map named_only (raw_fields r)\<rparr>) raws) =
     validate_records typed names sels (map (\<lambda>r. r\<lparr>raw_fields := map undeclared (raw_fields r)\<rparr>) raws)"
proof (induction raws arbitrary: names sels)
  case (Cons raw raws)
  have "validate_record typed names sels (raw\<lparr>raw_fields := map named_only (raw_fields raw)\<rparr>) =
      validate_record typed names sels (raw\<lparr>raw_fields := map undeclared (raw_fields raw)\<rparr>)"
    by (simp add: validate_record_def schema_name_def validate_fields_named Let_def)
  with Cons.IH show ?case by simp
qed simp

lemma validate_named: "validate (map_fields named_only raw) src = validate (map_fields undeclared raw) src"
proof -
  have "rtraverse (\<lambda>f. prefix_field f role) (map_option named_only x) =
      rtraverse (\<lambda>f. prefix_field f role) (map_option undeclared x)" for role x
    by (cases x) (simp_all add: prefix_field_named)
  then show ?thesis
    by (simp add: validate_def map_fields_def validate_records_named comp_def)
qed

lemma validate_resent:
  assumes "wf_layout l"
  shows "validate (map_fields undeclared (raw_of_layout l)) src = Inr (bare_layout src l)"
proof -
  have "raw_of_field (bare_field f) = named_only (raw_of_field f)" for f
    by (simp add: raw_of_field_def named_only_def)
  then have "raw_of_layout (bare_layout src l) = map_fields named_only (raw_of_layout l)"
    by (simp add: raw_of_layout_def map_fields_def raw_of_record_def option.map_comp comp_def)
  with validate_complete [OF wf_bare_layout [OF assms], of src] validate_named show ?thesis by simp
qed

lemma resolve_wf: "resolve_layout parse options = Inr l \<Longrightarrow> wf_layout l"
  using validate_sound by (auto simp: resolve_layout_def result_simps split: option.splits layout_form.splits)

subsection \<open>Properties\<close>

text \<open>C9. A layout event is enough to read the file again: whatever form a request declared its layout
in, the layout the server reports, sent back as a protobuf or a JSON layout with the prefix fields of
the first request, is accepted and decodes every input to the same rows, or fails with the same error,
however it is cut.\<close>

theorem layout_event_decodes_again:
  assumes "resolve_layout parse options = Inr l"
    and "po_layout_source again = Some (LayoutForm (request_for l encoding)) \<or>
      po_layout_source again = Some (LayoutJson json) \<and>
        parse json = Inr (json_request (request_for l encoding))"
  shows "\<exists>l'. resolve_layout parse again = Inr l' \<and>
    (\<forall>opt chunks. run_stream l' opt chunks = run_stream l opt chunks \<and> run_stream l opt chunks \<noteq> None)"
proof -
  note wf = resolve_wf [OF assms(1)]
  have "\<exists>src. resolve_layout parse again = Inr (bare_layout src l)"
    using assms(2) by (auto simp: resolve_layout_def from_proto_request from_json_request validate_resent [OF wf])
  then show ?thesis using run_stream_bare [OF wf] run_stream_reference [OF wf] by fastforce
qed

text \<open>The layout of the order copybook, sent back as a protobuf layout.\<close>

theorem layout_event_decodes_again_witness:
  "\<exists>l'. resolve_layout (\<lambda>_. Inl []) (order_request\<lparr>po_layout_source :=
        Some (LayoutForm (request_for (copybook_layout order_items) []))\<rparr>) = Inr l' \<and>
     (\<forall>opt. run_stream l' opt [[0xc1, 0x12], [0x3d]] = run_stream (copybook_layout order_items) opt [[0xc1, 0x12], [0x3d]])"
proof -
  have "po_layout_source order_request = Some (CopybookForm (copybook_text order_items))"
    by (simp add: order_request_def)
  from layout_event_decodes_again [OF resolve_copybook_text [OF order_decodable this],
      where again = "order_request\<lparr>po_layout_source :=
        Some (LayoutForm (request_for (copybook_layout order_items) []))\<rparr>" and encoding = "[]"]
  show ?thesis by simp blast
qed

end
