(* ===== verification/Trailer_Guard.thy ===== *)
theory Trailer_Guard
  imports Service Transition_Systems
begin

section \<open>The guarded response stream\<close>

text \<open>
  The model of \<^verbatim>\<open>TrailerGuard\<close> of \<^verbatim>\<open>src/service.rs\<close>: the stream between the channel a parse sends
  on and the transport. The channel is the items not yet taken from it and whether its sender is gone;
  \<open>len\<close> is prost's \<^verbatim>\<open>encoded_len\<close>, and what the batch timer answers when it is polled is an argument of
  the poll. Sends, the end of the sender and polls interleave as the steps of \<open>guard_run\<close>.
\<close>

subsection \<open>The stream\<close>

definition BATCH_BYTES :: nat where
  "BATCH_BYTES = 256"

record trailer_guard =
  tg_events :: "stream_item list"
  tg_closed :: bool
  tg_finished :: bool
  tg_batch :: "stream_item list"
  tg_batch_bytes :: nat
  tg_batch_final :: bool
  tg_releasing :: bool
  tg_wait :: bool

definition new_guard :: trailer_guard where
  "new_guard =
     \<lparr>tg_events = [], tg_closed = False, tg_finished = False, tg_batch = [], tg_batch_bytes = 0,
      tg_batch_final = False, tg_releasing = False, tg_wait = False\<rparr>"

datatype polled =
    Pending
  | Ready "stream_item option"

fun final_item :: "stream_item \<Rightarrow> bool" where
  "final_item (ErrorItem _) \<longleftrightarrow> True"
| "final_item (EventItem (StatusEvent _)) \<longleftrightarrow> True"
| "final_item (EventItem _) \<longleftrightarrow> False"

fun item_bytes :: "(event \<Rightarrow> nat) \<Rightarrow> stream_item \<Rightarrow> nat" where
  "item_bytes len (EventItem e) = len e"
| "item_bytes len (ErrorItem _) = 0"

definition no_trailer :: stream_item where
  "no_trailer = ErrorItem (InternalCode, [MLit ''the parse ended without a ParseStatus trailer''])"

text \<open>The gathering loop, over the items the channel holds.\<close>

fun gather :: "(event \<Rightarrow> nat) \<Rightarrow> stream_item list \<Rightarrow> trailer_guard \<Rightarrow> trailer_guard" where
  "gather len events g =
     (if tg_batch_final g \<or> BATCH_BYTES \<le> tg_batch_bytes g then g\<lparr>tg_events := events\<rparr>
      else case events of
        [] \<Rightarrow>
          (if tg_closed g
           then g\<lparr>tg_events := [], tg_batch_final := True, tg_batch := tg_batch g @ [no_trailer]\<rparr>
           else g\<lparr>tg_events := []\<rparr>)
      | item # rest \<Rightarrow>
          gather len rest (g\<lparr>tg_batch_final := final_item item,
            tg_batch_bytes := tg_batch_bytes g + item_bytes len item,
            tg_batch := tg_batch g @ [item]\<rparr>))"

declare gather.simps [simp del]

definition release :: "trailer_guard \<Rightarrow> polled \<times> trailer_guard" where
  "release g =
     (case tg_batch g of
        [] \<Rightarrow> (Pending, g)
      | item # rest \<Rightarrow>
          let g = g\<lparr>tg_batch := rest\<rparr>;
              g = (if rest = []
                   then g\<lparr>tg_releasing := False, tg_batch_bytes := 0, tg_finished := tg_batch_final g\<rparr>
                   else g)
          in (Ready (Some item), g))"

definition poll_next :: "(event \<Rightarrow> nat) \<Rightarrow> bool \<Rightarrow> trailer_guard \<Rightarrow> polled \<times> trailer_guard" where
  "poll_next len elapsed g =
     (if tg_finished g then (Ready None, g)
      else if tg_releasing g then release g
      else let g = gather len (tg_events g) g in
        if tg_batch g = [] then (Pending, g)
        else if \<not> tg_batch_final g \<and> tg_batch_bytes g < BATCH_BYTES \<and> \<not> elapsed
        then (Pending, g\<lparr>tg_wait := True\<rparr>)
        else release (g\<lparr>tg_releasing := True, tg_wait := False\<rparr>))"

subsection \<open>Interleavings\<close>

text \<open>A state of a run: the items sent so far, the items handed over so far, and the stream.\<close>

inductive guard_step ::
  "(event \<Rightarrow> nat) \<Rightarrow> stream_item list \<times> stream_item list \<times> trailer_guard \<Rightarrow>
     stream_item list \<times> stream_item list \<times> trailer_guard \<Rightarrow> bool" for len where
  Send: "\<not> tg_closed g \<Longrightarrow>
    guard_step len (sent, out, g) (sent @ [item], out, g\<lparr>tg_events := tg_events g @ [item]\<rparr>)"
| Close: "guard_step len (sent, out, g) (sent, out, g\<lparr>tg_closed := True\<rparr>)"
| Yield: "poll_next len elapsed g = (Ready (Some item), g') \<Longrightarrow>
    guard_step len (sent, out, g) (sent, out @ [item], g')"
| Wait: "poll_next len elapsed g = (Pending, g') \<Longrightarrow> guard_step len (sent, out, g) (sent, out, g')"
| Done: "poll_next len elapsed g = (Ready None, g') \<Longrightarrow> guard_step len (sent, out, g) (sent, out, g')"

inductive_cases guard_step_cases: "guard_step len (sent, out, g) t"

definition guard_run ::
  "(event \<Rightarrow> nat) \<Rightarrow> stream_item list \<Rightarrow> stream_item list \<Rightarrow> trailer_guard \<Rightarrow> bool" where
  "guard_run len sent out g \<longleftrightarrow> reaches ((=) ([], [], new_guard)) (guard_step len) (sent, out, g)"

lemma guard_run_open: "guard_run len [] [] new_guard"
  unfolding guard_run_def by (rule reaches.Init) simp

lemma guard_run_step:
  "guard_run len sent out g \<Longrightarrow> guard_step len (sent, out, g) (sent', out', g') \<Longrightarrow> guard_run len sent' out' g'"
  unfolding guard_run_def by (rule reaches.Step)

lemmas guard_run_send = guard_run_step [OF _ guard_step.Send]
lemmas guard_run_close = guard_run_step [OF _ guard_step.Close]
lemmas guard_run_yield = guard_run_step [OF _ guard_step.Yield]

subsection \<open>What a client should see\<close>

text \<open>The items up to the first final one, or an error after all of them.\<close>

fun closed_response :: "stream_item list \<Rightarrow> stream_item list" where
  "closed_response [] = [no_trailer]"
| "closed_response (item # items) = (if final_item item then [item] else item # closed_response items)"

lemma closed_response_append:
  "closed_response (xs @ ys) =
     (if list_ex final_item xs then closed_response xs else xs @ closed_response ys)"
  by (induction xs) auto

lemma closed_response_last:
  "\<exists>xs x. closed_response items = xs @ [x] \<and> final_item x \<and> \<not> list_ex final_item xs"
proof (induction items)
  case Nil
  have "closed_response [] = [] @ [no_trailer]" by simp
  then show ?case by (intro exI [of _ "[]"] exI [of _ no_trailer]) (simp add: no_trailer_def)
next
  case (Cons item items)
  then obtain xs x where x: "closed_response items = xs @ [x]" "final_item x" "\<not> list_ex final_item xs"
    by blast
  show ?case
  proof (cases "final_item item")
    case True
    then have "closed_response (item # items) = [] @ [item]" by simp
    with True show ?thesis by (intro exI [of _ "[]"] exI [of _ item]) simp
  next
    case False
    with x have "closed_response (item # items) = (item # xs) @ [x]" by simp
    with False x show ?thesis by (intro exI [of _ "item # xs"] exI [of _ x]) simp
  qed
qed

text \<open>The invariant of every run.\<close>

definition guarded :: "(event \<Rightarrow> nat) \<Rightarrow> stream_item list \<Rightarrow> stream_item list \<Rightarrow> trailer_guard \<Rightarrow> bool" where
  "guarded len sent out g \<longleftrightarrow>
     (if tg_batch_final g
      then out @ tg_batch g = closed_response sent \<and> (tg_closed g \<or> list_ex final_item sent)
      else sent = out @ tg_batch g @ tg_events g \<and> \<not> list_ex final_item (out @ tg_batch g)) \<and>
     tg_finished g = (tg_batch_final g \<and> tg_batch g = []) \<and>
     (tg_releasing g \<longrightarrow> tg_batch g \<noteq> []) \<and>
     (\<not> tg_releasing g \<longrightarrow> tg_batch_bytes g = sum_list (map (item_bytes len) (tg_batch g))) \<and>
     (tg_batch g \<noteq> [] \<longrightarrow> sum_list (map (item_bytes len) (butlast (tg_batch g))) < BATCH_BYTES)"

subsection \<open>Every step keeps it\<close>

lemma gather_guarded:
  assumes "guarded len sent out (g\<lparr>tg_events := events\<rparr>)" and "\<not> tg_releasing g"
  shows "guarded len sent out (gather len events g) \<and> \<not> tg_releasing (gather len events g) \<and>
    tg_closed (gather len events g) = tg_closed g \<and>
    (tg_batch_final (gather len events g) \<or> BATCH_BYTES \<le> tg_batch_bytes (gather len events g) \<or>
     tg_events (gather len events g) = [] \<and> \<not> tg_closed g)"
  using assms
proof (induction events arbitrary: g)
  case Nil
  have "sent @ [no_trailer] = closed_response sent" if "\<not> list_ex final_item sent"
    using that closed_response_append [of sent "[]"] by simp
  with Nil show ?case
    by (cases "tg_batch_final g"; cases "tg_closed g")
      (auto simp: gather.simps [of len "[]"] guarded_def no_trailer_def)
next
  case (Cons item rest)
  show ?case
  proof (cases "tg_batch_final g \<or> BATCH_BYTES \<le> tg_batch_bytes g")
    case True
    with Cons.prems show ?thesis by (auto simp: gather.simps [of len "item # rest"])
  next
    case False
    let ?g = "g\<lparr>tg_batch_final := final_item item,
      tg_batch_bytes := tg_batch_bytes g + item_bytes len item, tg_batch := tg_batch g @ [item]\<rparr>"
    have "guarded len sent out (?g\<lparr>tg_events := rest\<rparr>)"
      using Cons.prems False by (auto simp: guarded_def closed_response_append)
    moreover have "\<not> tg_releasing ?g" using Cons.prems by simp
    ultimately show ?thesis using Cons.IH [of ?g] False by (simp add: gather.simps [of len "item # rest"])
  qed
qed

lemma gather_finished [simp]: "tg_finished (gather len events g) = tg_finished g"
  by (induction events arbitrary: g; subst gather.simps) simp_all

lemma release_guarded:
  assumes "guarded len sent out g" and "tg_batch g \<noteq> []" and "tg_releasing g"
  shows "\<exists>item g'. release g = (Ready (Some item), g') \<and> guarded len sent (out @ [item]) g'"
proof -
  obtain item rest where b: "tg_batch g = item # rest" using assms(2) by (cases "tg_batch g") auto
  have "sum_list (map (item_bytes len) (butlast rest)) < BATCH_BYTES" if "rest \<noteq> []"
    using assms that b by (auto simp: guarded_def)
  with assms b show ?thesis
    by (cases "tg_batch_final g"; cases "rest = []") (simp_all add: release_def Let_def guarded_def)
qed

text \<open>A poll that neither finished nor is letting a batch out: it gathers, then waits or releases.\<close>

lemma poll_next_gathers:
  assumes "\<not> tg_finished g" and "\<not> tg_releasing g"
  shows "poll_next len elapsed g =
    (let g' = gather len (tg_events g) g in
     if tg_batch g' = [] then (Pending, g')
     else if \<not> tg_batch_final g' \<and> tg_batch_bytes g' < BATCH_BYTES \<and> \<not> elapsed
     then (Pending, g'\<lparr>tg_wait := True\<rparr>)
     else release (g'\<lparr>tg_releasing := True, tg_wait := False\<rparr>))"
  using assms by (simp add: poll_next_def Let_def)

text \<open>A batch that is neither full nor final holds everything sent so far.\<close>

lemma gathered_quiet:
  assumes "guarded len sent out g" and "\<not> tg_releasing g"
    and "\<not> tg_batch_final (gather len (tg_events g) g)"
    and "tg_batch_bytes (gather len (tg_events g) g) < BATCH_BYTES"
  shows "\<not> tg_closed g \<and> \<not> list_ex final_item sent \<and> sent = out @ tg_batch (gather len (tg_events g) g)"
proof -
  let ?g = "gather len (tg_events g) g"
  have "guarded len sent out ?g" "tg_closed ?g = tg_closed g" "tg_events ?g = [] \<and> \<not> tg_closed g"
    using gather_guarded [where g = g and events = "tg_events g" and len = len] assms by auto
  with assms(3) show ?thesis by (auto simp: guarded_def)
qed

text \<open>What a poll does: nothing after the end, an item, or nothing for want of items or time.\<close>

lemma poll_next_cases:
  assumes "guarded len sent out g"
  obtains (Finished) "poll_next len elapsed g = (Ready None, g)" "out = closed_response sent"
      "tg_closed g \<or> list_ex final_item sent"
  | (Item) item g' where "poll_next len elapsed g = (Ready (Some item), g')"
      "guarded len sent (out @ [item]) g'"
  | (Waiting) g' where "poll_next len elapsed g = (Pending, g')" "guarded len sent out g'"
      "\<not> tg_closed g" "\<not> list_ex final_item sent" "elapsed \<longrightarrow> out = sent"
proof -
  let ?g = "gather len (tg_events g) g"
  consider (fin) "tg_finished g" | (rel) "\<not> tg_finished g" "tg_releasing g"
    | (gat) "\<not> tg_finished g" "\<not> tg_releasing g" by blast
  then show ?thesis
  proof cases
    case fin
    with assms have "out = closed_response sent" "tg_closed g \<or> list_ex final_item sent"
      by (auto simp: guarded_def)
    with fin Finished show ?thesis by (simp add: poll_next_def)
  next
    case rel
    with assms Item release_guarded [OF assms] show ?thesis by (auto simp: poll_next_def guarded_def)
  next
    case gat
    note poll = poll_next_gathers [OF gat, of len elapsed, unfolded Let_def]
    have G: "guarded len sent out ?g" "\<not> tg_releasing ?g" "tg_closed ?g = tg_closed g"
      using gather_guarded [where g = g and events = "tg_events g"] assms gat(2) by simp_all
    note quiet = gathered_quiet [OF assms gat(2)]
    consider (none) "tg_batch ?g = []"
      | (wait) "tg_batch ?g \<noteq> []" "\<not> tg_batch_final ?g" "tg_batch_bytes ?g < BATCH_BYTES" "\<not> elapsed"
      | (out) "tg_batch ?g \<noteq> []" "\<not> (\<not> tg_batch_final ?g \<and> tg_batch_bytes ?g < BATCH_BYTES \<and> \<not> elapsed)"
      by blast
    then show ?thesis
    proof cases
      case none
      then have "\<not> tg_batch_final ?g" "tg_batch_bytes ?g < BATCH_BYTES"
        using G gat(1) by (auto simp: guarded_def BATCH_BYTES_def)
      from quiet [OF this] have "\<not> tg_closed g" "\<not> list_ex final_item sent" "elapsed \<longrightarrow> out = sent"
        using none by auto
      with Waiting [OF _ G(1)] none poll show ?thesis by simp
    next
      case wait
      have "guarded len sent out (?g\<lparr>tg_wait := True\<rparr>)" using G(1) by (auto simp: guarded_def)
      moreover have "poll_next len elapsed g = (Pending, ?g\<lparr>tg_wait := True\<rparr>)" using wait poll by simp
      ultimately show ?thesis using Waiting quiet [OF wait(2,3)] wait(4) by blast
    next
      case out
      have "guarded len sent out (?g\<lparr>tg_releasing := True, tg_wait := False\<rparr>)"
        using G(1) out(1) by (auto simp: guarded_def)
      from release_guarded [OF this] out Item poll show ?thesis by auto
    qed
  qed
qed

lemma poll_guarded:
  assumes "guarded len sent out g" and "poll_next len elapsed g = (p, g')"
  shows "guarded len sent (case p of Ready (Some item) \<Rightarrow> out @ [item] | _ \<Rightarrow> out) g'"
  using assms(1)
  by (cases rule: poll_next_cases [where elapsed = elapsed]) (use assms in auto)

lemma send_guarded:
  "guarded len sent out g \<Longrightarrow> \<not> tg_closed g \<Longrightarrow>
     guarded len (sent @ [item]) out (g\<lparr>tg_events := tg_events g @ [item]\<rparr>)"
  by (auto simp: guarded_def closed_response_append split: if_splits)

lemma close_guarded: "guarded len sent out g \<Longrightarrow> guarded len sent out (g\<lparr>tg_closed := True\<rparr>)"
  by (auto simp: guarded_def)

lemma guard_step_guarded:
  assumes "guarded len sent out g" and "guard_step len (sent, out, g) (sent', out', g')"
  shows "guarded len sent' out' g'"
  using assms(2)
  by (elim guard_step_cases)
    (use poll_guarded [OF assms(1)] send_guarded [OF assms(1)] close_guarded [OF assms(1)] in fastforce)+

interpretation guard: invariant_system "(=) ([], [], new_guard)" "guard_step len"
  "\<lambda>(sent, out, g). guarded len sent out g" for len
proof
  show "case s of (sent, out, g) \<Rightarrow> guarded len sent out g" if "([], [], new_guard) = s" for s
    unfolding that [symmetric] by (simp add: guarded_def new_guard_def)
  show "case t of (sent, out, g) \<Rightarrow> guarded len sent out g"
    if "case s of (sent, out, g) \<Rightarrow> guarded len sent out g" "guard_step len s t" for s t
    using that guard_step_guarded by (cases s; cases t) auto
qed

lemma guard_run_guarded: "guard_run len sent out g \<Longrightarrow> guarded len sent out g"
  using guard.reaches_inv [of len "(sent, out, g)"] by (simp add: guard_run_def)

subsection \<open>Properties\<close>

lemma guarded_prefix: "guarded len sent out g \<Longrightarrow> \<exists>rest. closed_response sent = out @ rest"
proof (cases "tg_batch_final g")
  case True
  moreover assume "guarded len sent out g"
  ultimately have "closed_response sent = out @ tg_batch g" by (simp add: guarded_def)
  then show ?thesis ..
next
  case False
  moreover assume "guarded len sent out g"
  ultimately have "sent = out @ tg_batch g @ tg_events g" "\<not> list_ex final_item out"
    by (simp_all add: guarded_def)
  then show ?thesis by (simp add: closed_response_append)
qed

text \<open>C18. The trailer guard: however sends, the end of the sender and polls interleave, what the
transport has been handed is a prefix of the items sent up to the first trailer or error, followed by
an error of the guard's own when the sender ends without one; and the stream ends only once all of
that has gone out, so its last item is a trailer or an error.\<close>

theorem stream_ends_with_trailer_or_error:
  assumes "guard_run len sent out g"
  shows "(\<exists>rest. closed_response sent = out @ rest) \<and>
    (fst (poll_next len elapsed g) = Ready None \<longrightarrow>
       out = closed_response sent \<and> out \<noteq> [] \<and> final_item (last out) \<and>
       (tg_closed g \<or> list_ex final_item sent))"
proof
  have g: "guarded len sent out g" by (rule guard_run_guarded [OF assms])
  then show "\<exists>rest. closed_response sent = out @ rest" by (rule guarded_prefix)
  from closed_response_last [of sent] have l: "closed_response sent \<noteq> []" "final_item (last (closed_response sent))"
    by auto
  from g show "fst (poll_next len elapsed g) = Ready None \<longrightarrow>
       out = closed_response sent \<and> out \<noteq> [] \<and> final_item (last out) \<and>
       (tg_closed g \<or> list_ex final_item sent)"
    by (cases rule: poll_next_cases [where elapsed = elapsed]) (use l in auto)
qed

text \<open>C17. Progress: a poll hands over an item whenever one is owed and the stream is ending (the sender
has ended, or the trailer or an error was sent) or the batch timer has run out; so no event waits for
more than the timer, and an ending stream never waits.\<close>

theorem stream_never_stalls:
  assumes "guard_run len sent out g" and "out \<noteq> closed_response sent"
    and "tg_closed g \<or> list_ex final_item sent \<or> elapsed \<and> out \<noteq> sent"
  shows "\<exists>item g'. poll_next len elapsed g = (Ready (Some item), g') \<and>
    guard_run len sent (out @ [item]) g'"
proof -
  have "guarded len sent out g" by (rule guard_run_guarded [OF assms(1)])
  then show ?thesis
    by (cases rule: poll_next_cases [where elapsed = elapsed]) (use assms guard_run_yield in auto)
qed

subsection \<open>Draining an ended stream\<close>

text \<open>Polls one after the other, with what the timer answers at each.\<close>

fun polls :: "(event \<Rightarrow> nat) \<Rightarrow> bool list \<Rightarrow> trailer_guard \<Rightarrow> polled list \<times> trailer_guard" where
  "polls len [] g = ([], g)"
| "polls len (elapsed # es) g =
     (let (p, g) = poll_next len elapsed g; (ps, g) = polls len es g in (p # ps, g))"

lemma poll_keeps_end:
  assumes "poll_next len elapsed g = (p, g')" and "\<not> tg_releasing g \<longrightarrow> guarded len sent out g"
  shows "tg_closed g' = tg_closed g"
  using assms gather_guarded [where g = g and events = "tg_events g" and len = len and sent = sent and out = out]
  by (cases "tg_releasing g")
    (auto simp: poll_next_def release_def Let_def split: if_splits list.splits)

lemma polls_drain:
  "guarded len sent out g \<Longrightarrow> tg_closed g \<or> list_ex final_item sent \<Longrightarrow>
     closed_response sent = out @ rest \<Longrightarrow> length es = length rest \<Longrightarrow>
     \<exists>g'. polls len es g = (map (Ready \<circ> Some) rest, g') \<and> guarded len sent (out @ rest) g' \<and>
       poll_next len elapsed g' = (Ready None, g')"
proof (induction es arbitrary: out rest g)
  case Nil
  from Nil.prems(1) show ?case
    by (cases rule: poll_next_cases [where elapsed = elapsed]) (use Nil.prems in \<open>auto dest: guarded_prefix\<close>)
next
  case (Cons e es)
  then obtain item rest' where rest: "rest = item # rest'" by (cases rest) auto
  from Cons.prems(1) show ?case
  proof (cases rule: poll_next_cases [where elapsed = e])
    case (Item item' g1)
    have "closed_response sent = (out @ [item']) @ rest'" "item' = item"
      using guarded_prefix [OF Item(2)] Cons.prems(3) by (auto simp: rest)
    moreover have "tg_closed g1 \<or> list_ex final_item sent"
      using poll_keeps_end [OF Item(1)] Cons.prems(1,2) by blast
    ultimately show ?thesis
      using Cons.IH [OF Item(2), of rest'] Cons.prems(4) Item(1) by (auto simp: rest)
  qed (use Cons.prems rest in auto)
qed

text \<open>C16. Delivery: once the sender has ended or the last item was sent, the polls that follow hand over
exactly the items still owed, one each, whatever the batch timer answers, and the next poll ends the
stream: nothing is lost, repeated, reordered or held back.\<close>

theorem ended_stream_drains:
  assumes "guard_run len sent out g" and "tg_closed g \<or> list_ex final_item sent"
  shows "\<exists>rest. closed_response sent = out @ rest \<and>
    (\<forall>es elapsed. length es = length rest \<longrightarrow>
       (\<exists>g'. polls len es g = (map (Ready \<circ> Some) rest, g') \<and> poll_next len elapsed g' = (Ready None, g')))"
proof -
  have g: "guarded len sent out g" by (rule guard_run_guarded [OF assms(1)])
  then obtain rest where "closed_response sent = out @ rest" using guarded_prefix by blast
  with polls_drain [OF g assms(2)] show ?thesis by blast
qed

text \<open>What a batch holds: without its last item, less than the batch bound, so the stream adds at
most one event past it to what the channel buffers.\<close>

theorem batch_bounded:
  assumes "guard_run len sent out g" and "tg_batch g \<noteq> []"
  shows "sum_list (map (item_bytes len) (butlast (tg_batch g))) < BATCH_BYTES"
  using guard_run_guarded [OF assms(1)] assms(2) by (simp add: guarded_def)

text \<open>A run: two events are sent, the sender ends, everything is polled.\<close>

definition some_row :: stream_item where
  "some_row = EventItem (RecordEvent \<lparr>row_record_type = [], row_index = 0, row_record_index = 0,
     row_byte_offset = 0, row_cells = [], row_byte_length = 0\<rparr>)"

definition sent_guard :: trailer_guard where
  "sent_guard = new_guard\<lparr>tg_events := [some_row], tg_closed := True\<rparr>"

lemma some_row_simps [simp]: "\<not> final_item some_row" "item_bytes (\<lambda>_. 10) some_row = 10"
  by (simp_all add: some_row_def)

lemma sent_run: "guard_run (\<lambda>_. 10) [some_row] [] sent_guard"
proof -
  have "guard_run (\<lambda>_. 10) ([] @ [some_row]) [] (new_guard\<lparr>tg_events := tg_events new_guard @ [some_row]\<rparr>)"
    by (rule guard_run_send [OF guard_run_open]) (simp add: new_guard_def)
  from guard_run_close [OF this] show ?thesis by (simp add: sent_guard_def new_guard_def)
qed

lemmas poll_eval = poll_next_def sent_guard_def new_guard_def gather.simps release_def Let_def
  BATCH_BYTES_def no_trailer_def

lemma polled_run: "\<exists>g. guard_run (\<lambda>_. 10) [some_row] [some_row] g \<and> tg_batch g = [no_trailer]"
proof -
  let ?p = "poll_next (\<lambda>_. 10) False sent_guard"
  have "fst ?p = Ready (Some some_row)" "tg_batch (snd ?p) = [no_trailer]"
    by (simp_all add: poll_eval)
  moreover from this have "guard_run (\<lambda>_. 10) [some_row] ([] @ [some_row]) (snd ?p)"
    using guard_run_yield [OF sent_run, of False some_row "snd ?p"] by (metis prod.collapse)
  ultimately show ?thesis by auto
qed

theorem stream_never_stalls_witness:
  "\<exists>item g'. poll_next (\<lambda>_. 10) False sent_guard = (Ready (Some item), g') \<and>
     guard_run (\<lambda>_. 10) [some_row] [item] g'"
  using stream_never_stalls [OF sent_run, of False] by (simp add: sent_guard_def)

theorem batch_bounded_witness:
  "\<exists>g :: trailer_guard. tg_batch g = [no_trailer] \<and>
     sum_list (map (item_bytes (\<lambda>_. 10)) (butlast (tg_batch g))) < BATCH_BYTES"
proof -
  obtain g where "guard_run (\<lambda>_. 10) [some_row] [some_row] g" "tg_batch g = [no_trailer]"
    using polled_run by blast
  with batch_bounded [of "\<lambda>_. 10" "[some_row]" "[some_row]" g] show ?thesis
    by (intro exI [of _ g]) simp
qed

theorem stream_ends_with_trailer_or_error_witness:
  "\<exists>g. guard_run (\<lambda>_. 10) [some_row] [some_row, no_trailer] g \<and>
     fst (poll_next (\<lambda>_. 10) False g) = Ready None \<and>
     [some_row, no_trailer] = closed_response [some_row]"
proof -
  let ?p = "poll_next (\<lambda>_. 10) False sent_guard"
  let ?q = "poll_next (\<lambda>_. 10) False (snd ?p)"
  have f: "fst ?p = Ready (Some some_row)" "fst ?q = Ready (Some no_trailer)"
    "fst (poll_next (\<lambda>_. 10) False (snd ?q)) = Ready None"
    by (simp_all add: poll_eval)
  have "guard_run (\<lambda>_. 10) [some_row] ([] @ [some_row]) (snd ?p)"
    using guard_run_yield [OF sent_run, of False some_row "snd ?p"] f(1) by (metis prod.collapse)
  then have "guard_run (\<lambda>_. 10) [some_row] (([] @ [some_row]) @ [no_trailer]) (snd ?q)"
    using guard_run_yield [of "\<lambda>_. 10" "[some_row]" "[] @ [some_row]" "snd ?p" False no_trailer "snd ?q"] f(2)
    by (metis prod.collapse)
  then have run: "guard_run (\<lambda>_. 10) [some_row] [some_row, no_trailer] (snd ?q)" by simp
  with stream_ends_with_trailer_or_error [OF run, of False] f(3) show ?thesis by blast
qed

theorem ended_stream_drains_witness:
  "\<exists>g'. polls (\<lambda>_. 10) [False, True] sent_guard = ([Ready (Some some_row), Ready (Some no_trailer)], g') \<and>
     poll_next (\<lambda>_. 10) False g' = (Ready None, g')"
proof -
  have closed: "tg_closed sent_guard \<or> list_ex final_item [some_row]" by (simp add: sent_guard_def)
  from ended_stream_drains [OF sent_run closed] obtain rest where
    "closed_response [some_row] = [] @ rest"
    and D: "\<forall>es elapsed. length es = length rest \<longrightarrow> (\<exists>g'. polls (\<lambda>_. 10) es sent_guard =
      (map (Ready \<circ> Some) rest, g') \<and> poll_next (\<lambda>_. 10) elapsed g' = (Ready None, g'))" by blast
  then have "rest = [some_row, no_trailer]" by simp
  with D [rule_format, of "[False, True]" False] show ?thesis by simp
qed

end
