(* ===== verification/Guarded_Calls.thy ===== *)
theory Guarded_Calls
  imports Service_Properties Trailer_Guard
begin

section \<open>What a caller receives\<close>

text \<open>
  The parse and the guard together: the items of a call are what its task sends on the channel, and
  the transport is handed what the guard makes of them.
\<close>

lemma final_item_event [simp]: "final_item (EventItem e) = is_trailer e"
  by (cases e) simp_all

lemma list_ex_final_event [simp]: "list_ex final_item (map EventItem es) = list_ex is_trailer es"
  by (induction es) simp_all

lemma closed_response_trailer:
  "list_ex is_trailer es \<Longrightarrow> \<not> list_ex is_trailer (butlast es) \<Longrightarrow>
     closed_response (map EventItem es) = map EventItem es"
  by (induction es) (auto split: if_splits)

lemma closed_response_final_items:
  assumes "parse_answers l opt version emit info cap rest r taken"
  shows "closed_response (final_items client sends r taken) =
    map EventItem taken @
    (case r of
       Inr _ \<Rightarrow> []
     | Inl e \<Rightarrow> [if client sends = Takes then ErrorItem (to_status e) else no_trailer])"
proof (cases r)
  case (Inl e)
  with assms have "\<not> list_ex is_trailer taken" by (simp add: parse_answers_def)
  with Inl show ?thesis by (simp add: final_items_def closed_response_append)
next
  case (Inr u)
  with assms obtain rows st where t: "taken = response_events version emit info rows st"
    by (auto simp: parse_answers_def Let_def)
  have "list_ex is_trailer taken" "\<not> list_ex is_trailer (butlast taken)"
    by (simp_all add: t response_events_def closing_events_def butlast_append)
  with Inr show ?thesis by (simp add: final_items_def closed_response_trailer)
qed

text \<open>C2. End to end: when the stream of a call has ended, the caller holds either the whole response to
the upload, its trailer last, or a layout and a prefix of the reference rows without a trailer,
followed by exactly one error: the parse's own, or the guard's when the parse's could not be sent.
A call never ends as if it were complete with its rows cut short.\<close>

theorem ended_call_is_complete_or_failed:
  assumes call: "fst (parse_ebcdic parse version svc client inbound m) = Some (Inr items)"
    and run: "guard_run len items out g" and ended: "fst (poll_next len elapsed g) = Ready None"
  shows "\<exists>options rest c l r taken.
    call_setup parse svc inbound = Some (options, rest, c, l) \<and>
    parse_answers l (decode_options_of c options) version (po_emit_document options)
      (to_layout_info l (page_name c)) (byte_cap svc options) rest r taken \<and>
    (case r of
       Inr _ \<Rightarrow> out = map EventItem taken
     | Inl e \<Rightarrow> out = map EventItem taken @ [ErrorItem (to_status e)] \<or>
         out = map EventItem taken @ [no_trailer])"
proof -
  have "guarded len items out g" by (rule guard_run_guarded [OF run])
  then have out: "out = closed_response items"
    by (cases rule: poll_next_cases [where elapsed = elapsed]) (use ended in auto)
  obtain options rest c l where S: "call_setup parse svc inbound = Some (options, rest, c, l)"
    using call parse_ebcdic_not_accepted(1) [of parse svc inbound version client m]
    by (cases "call_setup parse svc inbound") auto
  from accepted_call [OF S, of version client m] obtain r taken sends rows n where
    "parse_ebcdic parse version svc client inbound m =
      (Some (Inr (final_items client sends r taken)), call_counted r rows n m)"
    and A: "parse_answers l (decode_options_of c options) version (po_emit_document options)
      (to_layout_info l (page_name c)) (byte_cap svc options) rest r taken" by blast
  with call have "items = final_items client sends r taken" by simp
  then have "out = map EventItem taken @
    (case r of
       Inr _ \<Rightarrow> []
     | Inl e \<Rightarrow> [if client sends = Takes then ErrorItem (to_status e) else no_trailer])"
    using closed_response_final_items [OF A] out by simp
  then have "case r of
       Inr _ \<Rightarrow> out = map EventItem taken
     | Inl e \<Rightarrow> out = map EventItem taken @ [ErrorItem (to_status e)] \<or>
         out = map EventItem taken @ [no_trailer]" by (cases r) simp_all
  with S A show ?thesis by blast
qed

text \<open>A call whose client is gone from the start: the parse delivers nothing, the guard its error.\<close>

lemma gone_call:
  "fst (parse_ebcdic (\<lambda>_. Inl []) [] new_service (\<lambda>_. Gone) tiny_upload new_metrics) = Some (Inr [])"
  by (simp add: parse_ebcdic_accepted [OF tiny_setup] parse_task_def run_parse_def sink_send_def
      call_session_def new_sink_def Let_def)

theorem ended_call_is_complete_or_failed_witness:
  "\<exists>g. guard_run (\<lambda>_. 10) [] [no_trailer] g \<and> fst (poll_next (\<lambda>_. 10) False g) = Ready None \<and>
     (\<exists>options rest c l r taken.
        call_setup (\<lambda>_. Inl []) new_service tiny_upload = Some (options, rest, c, l) \<and>
        parse_answers l (decode_options_of c options) [] (po_emit_document options)
          (to_layout_info l (page_name c)) (byte_cap new_service options) rest r taken \<and>
        (case r of
           Inr _ \<Rightarrow> [no_trailer] = map EventItem taken
         | Inl e \<Rightarrow> [no_trailer] = map EventItem taken @ [ErrorItem (to_status e)] \<or>
             [no_trailer] = map EventItem taken @ [no_trailer]))"
proof -
  let ?g = "new_guard\<lparr>tg_closed := True\<rparr>"
  let ?p = "poll_next (\<lambda>_. 10) False ?g"
  have p: "fst ?p = Ready (Some no_trailer)" "fst (poll_next (\<lambda>_. 10) False (snd ?p)) = Ready None"
    by (simp_all add: poll_eval)
  have "guard_run (\<lambda>_. 10) [] ([] @ [no_trailer]) (snd ?p)"
    using guard_run_yield [OF guard_run_close [OF guard_run_open], of "\<lambda>_. 10" False no_trailer "snd ?p"] p(1)
    by (metis prod.collapse)
  then have run: "guard_run (\<lambda>_. 10) [] [no_trailer] (snd ?p)" by simp
  from ended_call_is_complete_or_failed [OF gone_call run p(2)] run p(2) show ?thesis by blast
qed

end
