(* ===== verification/Endless_Requests.thy ===== *)
theory Endless_Requests
  imports Service_Properties "HOL-Library.Stream"
begin

section \<open>Requests that do not end\<close>

text \<open>
  A request stream that a client never ends: every frame arrives within the idle timeout of the one
  before, or else shows as \<open>Quiet\<close>. \<open>read_endless\<close> is the frame loop of \<^verbatim>\<open>run_parse\<close> over such a
  stream, one turn at a time; it ends as the loop over some finite part of the stream ends, and its
  value is \<open>None\<close> when it does not end.
\<close>

subsection \<open>The loop\<close>

partial_function (option) read_endless ::
  "client \<Rightarrow> nat \<Rightarrow> nat \<Rightarrow> inbound stream \<Rightarrow> session \<Rightarrow> ((parse_error + unit) \<times> session) option" where
  "read_endless client cap idle frames s =
     Option.bind (read_frames client cap idle [shd frames] s) (\<lambda>(r, s).
       case r of
         Inl e \<Rightarrow> Some (Inl e, s)
       | Inr _ \<Rightarrow> read_endless client cap idle (stl frames) s)"

definition run_endless ::
  "client \<Rightarrow> nat \<Rightarrow> nat \<Rightarrow> layout_info \<Rightarrow> inbound stream \<Rightarrow> session \<Rightarrow>
     ((parse_error + unit) \<times> session) option" where
  "run_endless client cap idle info frames s =
     (let (r, k) = sink_send client (LayoutInfoEvent info) (ss_sink s); s = s\<lparr>ss_sink := k\<rparr> in
      case r of
        Inl e \<Rightarrow> Some (Inl e, s)
      | Inr _ \<Rightarrow> read_endless client cap idle frames s)"

lemma read_frames_append:
  "read_frames client cap idle (xs @ ys) s =
     Option.bind (read_frames client cap idle xs s) (\<lambda>(r, s).
       case r of
         Inl e \<Rightarrow> Some (Inl e, s)
       | Inr _ \<Rightarrow> read_frames client cap idle ys s)"
proof (induction client cap idle xs s rule: read_frames.induct)
  case (6 client cap idle chunk rest s)
  show ?case
  proof (cases "cap < rs_received (ss_walk s) + length chunk")
    case False
    show ?thesis
    proof (cases "drain_to client (push_frame chunk s)")
      case (Some out)
      obtain r s1 where out: "out = (r, s1)" by (cases out)
      with False Some 6 [OF False Some [unfolded out] refl] show ?thesis by (cases r) auto
    qed (use False in simp)
  qed simp
qed simp_all

text \<open>The first frame of a longer part, and then the rest.\<close>

lemma read_frames_Cons:
  assumes "read_frames client cap idle [f] s = Some (r, s1)"
  shows "read_frames client cap idle (f # rest) s =
    (case r of Inl e \<Rightarrow> Some (Inl e, s1) | Inr _ \<Rightarrow> read_frames client cap idle rest s1)"
  using assms read_frames_append [of client cap idle "[f]" rest s] by simp

lemma read_endless_Cons:
  assumes "read_frames client cap idle [shd frames] s = Some (r, s1)"
  shows "read_endless client cap idle frames s =
    (case r of Inl e \<Rightarrow> Some (Inl e, s1) | Inr _ \<Rightarrow> read_endless client cap idle (stl frames) s1)"
  by (subst read_endless.simps) (simp add: assms)

lemma read_endless_stops:
  "read_frames client cap idle (stake n frames) s = Some (Inl e, s') \<Longrightarrow>
     read_endless client cap idle frames s = Some (Inl e, s')"
proof (induction n arbitrary: frames s)
  case (Suc n)
  obtain r s1 where f: "read_frames client cap idle [shd frames] s = Some (r, s1)"
    using Suc.prems read_frames_append [of client cap idle "[shd frames]" "stake n (stl frames)" s]
    by (cases "read_frames client cap idle [shd frames] s") auto
  show ?case
  proof (cases r)
    case (Inl x)
    with Suc.prems read_frames_Cons [OF f] read_endless_Cons [OF f] show ?thesis by simp
  next
    case (Inr u)
    then have "read_frames client cap idle (stake n (stl frames)) s1 = Some (Inl e, s')"
      using Suc.prems read_frames_Cons [OF f] by simp
    from Suc.IH [OF this] Inr read_endless_Cons [OF f] show ?thesis by simp
  qed
qed simp

lemma read_endless_error:
  assumes "read_endless client cap idle frames s = Some out"
  shows "\<exists>n e. fst out = Inl e \<and> read_frames client cap idle (stake n frames) s = Some out"
proof (rule read_endless.raw_induct [of "\<lambda>client cap idle frames s out. \<exists>n e. fst out = Inl e \<and>
    read_frames client cap idle (stake n frames) s = Some out", OF _ assms])
  fix loop and client :: client and cap idle frames s out
  assume IH: "\<And>client cap idle frames s out. loop client cap idle frames s = Some out \<Longrightarrow>
      \<exists>n e. fst out = Inl e \<and> read_frames client cap idle (stake n frames) s = Some out"
    and step: "Option.bind (read_frames client cap idle [shd frames] s) (\<lambda>(r, s).
       case r of Inl e \<Rightarrow> Some (Inl e, s) | Inr _ \<Rightarrow> loop client cap idle (stl frames) s) = Some out"
  from step obtain r s1 where f: "read_frames client cap idle [shd frames] s = Some (r, s1)"
    and o: "(case r of Inl e \<Rightarrow> Some (Inl e, s1) | Inr _ \<Rightarrow> loop client cap idle (stl frames) s1) = Some out"
    by (auto simp: bind_eq_Some_conv)
  show "\<exists>n e. fst out = Inl e \<and> read_frames client cap idle (stake n frames) s = Some out"
  proof (cases r)
    case (Inl e)
    with o have "out = (Inl e, s1)" by simp
    with f Inl show ?thesis by (intro exI [of _ 1] exI [of _ e]) simp
  next
    case (Inr u)
    with o have "loop client cap idle (stl frames) s1 = Some out" by simp
    with IH obtain n e where "fst out = Inl e" "read_frames client cap idle (stake n (stl frames)) s1 = Some out"
      by blast
    with read_frames_Cons [OF f, of "stake n (stl frames)"] Inr show ?thesis
      by (intro exI [of _ "Suc n"] exI [of _ e]) simp
  qed
qed

subsection \<open>Frames without a byte\<close>

fun frame_bytes :: "inbound \<Rightarrow> nat" where
  "frame_bytes (Message (Some (ChunkFrame chunk))) = length chunk"
| "frame_bytes _ = 0"

lemma chunks_of_append: "all_data xs \<Longrightarrow> chunks_of (xs @ ys) = chunks_of xs @ chunks_of ys"
  by (induction xs rule: all_data.induct) simp_all

lemma length_chunks_step:
  assumes "all_data (stake (Suc n) frames)"
  shows "length (concat (chunks_of (stake (Suc n) frames))) =
    length (concat (chunks_of (stake n frames))) + frame_bytes (frames !! n)"
proof -
  have eq: "stake (Suc n) frames = stake n frames @ [frames !! n]" by (rule stake_Suc)
  with assms have d: "all_data (stake n frames @ [frames !! n])" by simp
  have "all_data xs" if "all_data (xs @ ys)" for xs ys using that by (induction xs rule: chunks_of.induct) auto
  from this [OF d] have "chunks_of (stake n frames @ [frames !! n]) = chunks_of (stake n frames) @ chunks_of [frames !! n]"
    by (rule chunks_of_append)
  moreover have "length (concat (chunks_of [f])) = frame_bytes f" for f
    by (rule frame_bytes.cases [of f]) auto
  ultimately show ?thesis unfolding eq by simp
qed

text \<open>A count that never falls and stays within a bound stops changing.\<close>

lemma bounded_count_settles:
  fixes c :: "nat \<Rightarrow> nat"
  assumes "\<And>n. c n \<le> c (Suc n)" and "\<And>n. c n \<le> m"
  shows "\<exists>n. \<forall>k. c (n + k) = c n"
proof -
  have "range c \<subseteq> {..m}" using assms(2) by auto
  then have "finite (range c)" by (rule finite_subset) simp
  then have "Max (range c) \<in> range c" by (rule Max_in) simp
  then obtain n where n: "Max (range c) = c n" by blast
  have "c (n + k) = c n" for k
  proof (rule antisym)
    show "c (n + k) \<le> c n" unfolding n [symmetric] by (rule Max_ge [OF \<open>finite (range c)\<close>]) simp
    show "c n \<le> c (n + k)" using assms(1) by (rule lift_Suc_mono_le) simp
  qed
  then show ?thesis by blast
qed

subsection \<open>Properties\<close>

text \<open>C13. Termination on a request that never ends, whatever its frames and its client. A call returns, and
then with an error, unless from some frame on no frame carries a byte; in that case every frame is
data or empty, and all of it is within the byte cap. Such a request does hold its call for ever: to a
client that takes everything, a call whose frames are empty or data within the cap, and whose data
the reference reads without an error, never returns, for each frame restarts the idle timeout.\<close>

theorem endless_request_ends:
  assumes "call_setup parse svc [first] = Some (options, [], c, l)"
    and out_def: "out = run_endless client (byte_cap svc options) (svc_idle_timeout svc)
      (to_layout_info l (page_name c)) frames (call_session svc version options c l m)"
    and sent_def: "sent = (\<lambda>n. concat (chunks_of (stake n frames)))"
  shows "(case out of
      Some (r, _) \<Rightarrow> \<exists>e. r = Inl e
    | None \<Rightarrow>
        (\<forall>n. all_data (stake n frames) \<and> length (sent n) \<le> byte_cap svc options) \<and>
        (\<exists>n. \<forall>k. frame_bytes (frames !! (n + k)) = 0)) \<and>
    ((\<forall>n. client n = Takes) \<and>
      (\<forall>n. all_data (stake n frames) \<and> length (sent n) \<le> byte_cap svc options \<and>
         fst (snd (reference_rows l (decode_options_of c options) (sent n))) = None) \<longrightarrow> out = None)"
proof -
  let ?cap = "byte_cap svc options" and ?opt = "decode_options_of c options"
    and ?idle = "svc_idle_timeout svc" and ?info = "to_layout_info l (page_name c)"
    and ?s0 = "call_session svc version options c l m"
  have wf: "wf_layout l" by (rule call_setup_layout [OF assms(1)])
  have "sk_taken (ss_sink ?s0) = []" by (simp add: call_session_def new_sink_def)
  then show ?thesis
  proof (cases rule: LayoutInfo_sent [where client = client and info = ?info])
    case (Refused x k')
    then show ?thesis by (auto simp: out_def run_endless_def)
  next
    case Sent
    let ?s = "?s0\<lparr>ss_sink := offered [LayoutInfoEvent ?info] (ss_sink ?s0)\<rparr>"
    have out: "out = read_endless client ?cap ?idle frames ?s" using Sent by (simp add: out_def run_endless_def)
    have dr: "drained l ?opt [] (ss_walk ?s) []" by (simp add: call_session_def drained_new)
    have read: "\<exists>r s1 rows. read_frames client ?cap ?idle (stake n frames) ?s = Some (r, s1) \<and>
        frames_read l ?opt client ?cap (stake n frames) [] [] ?s r s1 rows" for n
      by (rule read_frames_reads [OF wf dr]) simp
    show ?thesis
    proof (cases out)
      case (Some v)
      with out obtain n e where n: "fst v = Inl e" "read_frames client ?cap ?idle (stake n frames) ?s = Some v"
        using read_endless_error by metis
      from read [of n] n obtain rows where
        "frames_read l ?opt client ?cap (stake n frames) [] [] ?s (Inl e) (snd v) rows" by auto
      then have "(\<forall>n. client n = Takes) \<and> all_data (stake n frames) \<and> length (sent n) \<le> ?cap \<longrightarrow>
          fst (snd (reference_rows l ?opt (sent n))) = Some e"
        by (auto simp: frames_read_def Let_def fails_as_reference_def sent_def)
      with Some n(1) show ?thesis by (cases v) force
    next
      case None
      have "read_frames client ?cap ?idle (stake n frames) ?s \<noteq> Some (Inl e, s1)" for n e s1
        using read_endless_stops [of client ?cap ?idle n frames ?s e s1] None out by auto
      then have d: "all_data (stake n frames) \<and> length (sent n) \<le> ?cap" for n
        using read [of n] by (auto simp: frames_read_def Let_def sent_def split: sum.splits) (metis old.sum.exhaust old.unit.exhaust)+
      then have step: "length (sent (Suc n)) = length (sent n) + frame_bytes (frames !! n)" for n
        unfolding sent_def by (intro length_chunks_step) blast
      have "\<exists>n. \<forall>k. length (sent (n + k)) = length (sent n)"
        using step d by (intro bounded_count_settles [of "\<lambda>n. length (sent n)" ?cap]) simp_all
      then obtain n where n: "\<forall>k. length (sent (n + k)) = length (sent n)" by blast
      have "frame_bytes (frames !! (n + k)) = 0" for k
        using step [of "n + k"] n [THEN spec, of "Suc k"] n [THEN spec, of k] by simp
      with d None show ?thesis by auto
    qed
  qed
qed

text \<open>A request of empty frames after its options holds its call for ever.\<close>

theorem endless_request_ends_witness:
  "run_endless (\<lambda>_. Takes) (byte_cap new_service tiny_request) (svc_idle_timeout new_service)
     (to_layout_info tiny_layout (page_name (CODE_PAGES ! 0))) (sconst (Message None))
     (call_session new_service [] tiny_request (CODE_PAGES ! 0) tiny_layout new_metrics) = None"
proof -
  let ?opt = "decode_options_of (CODE_PAGES ! 0) tiny_request"
  have empty: "all_data (stake n (sconst (Message None))) \<and> chunks_of (stake n (sconst (Message None))) = []" for n
    by (induction n) (simp_all del: stake_siterate)
  have "fst (snd (reference_rows tiny_layout ?opt [])) = None"
    using drained_new [of tiny_layout ?opt] by (auto simp: drained_def)
  with empty show ?thesis
    using endless_request_ends [OF tiny_opened refl refl, where client = "\<lambda>_. Takes"
        and frames = "sconst (Message None)" and version = "[]" and m = new_metrics]
    by simp
qed

end
