(* ===== verification/Admission.thy ===== *)
theory Admission
  imports Service Transition_Systems "HOL-Library.Multiset"
begin

section \<open>Admission\<close>

text \<open>
  Calls of \<^verbatim>\<open>parse_ebcdic\<close> running at once, as the interleaving of the points at which they touch
  the shared state: the semaphore and the counters. A call is refused or takes a permit; with the
  permit it reads its options and is turned away, or starts its parse; when the parse has ended the
  permit is returned, and only then the outcome is counted. The counters are atomic, so each point is
  one step.
\<close>

datatype phase =
    Opening
  | Parsing
  | Decided "parse_error + unit"

record pool =
  pl_max :: nat
  pl_permits :: nat
  pl_calls :: "phase multiset"
  pl_metrics :: metrics

definition new_pool :: "service \<Rightarrow> pool" where
  "new_pool svc =
     \<lparr>pl_max = svc_max_concurrent_parses svc, pl_permits = svc_permits svc, pl_calls = {#},
      pl_metrics = new_metrics\<rparr>"

inductive admits :: "pool \<Rightarrow> pool \<Rightarrow> bool" where
  Refuse: "pl_permits p = 0 \<Longrightarrow>
    admits p (p\<lparr>pl_metrics := (pl_metrics p)
      \<lparr>m_parses_rejected := counter_bump (m_parses_rejected (pl_metrics p))\<rparr>\<rparr>)"
| Admit: "pl_permits p = Suc n \<Longrightarrow>
    admits p (p\<lparr>pl_permits := n, pl_calls := add_mset Opening (pl_calls p)\<rparr>)"
| Turn_away: "pl_calls p = add_mset Opening calls \<Longrightarrow>
    admits p (p\<lparr>pl_permits := pl_permits p + 1, pl_calls := calls\<rparr>)"
| Start: "pl_calls p = add_mset Opening calls \<Longrightarrow>
    admits p (p\<lparr>pl_calls := add_mset Parsing calls, pl_metrics := (pl_metrics p)
      \<lparr>m_parses_started := counter_bump (m_parses_started (pl_metrics p))\<rparr>\<rparr>)"
| Drop: "pl_calls p = add_mset Parsing calls \<Longrightarrow>
    admits p (p\<lparr>pl_permits := pl_permits p + 1, pl_calls := add_mset (Decided outcome) calls\<rparr>)"
| Count: "pl_calls p = add_mset (Decided outcome) calls \<Longrightarrow>
    admits p (p\<lparr>pl_calls := calls, pl_metrics := count_outcome outcome (pl_metrics p)\<rparr>)"

abbreviation reachable :: "service \<Rightarrow> pool \<Rightarrow> bool" where
  "reachable svc \<equiv> reaches ((=) (new_pool svc)) admits"

inductive_cases admits_cases: "admits p q"

text \<open>The phases in which a call holds a permit, and those between its two counts.\<close>

fun holds_permit :: "phase \<Rightarrow> bool" where
  "holds_permit (Decided _) \<longleftrightarrow> False"
| "holds_permit _ \<longleftrightarrow> True"

fun uncounted :: "phase \<Rightarrow> bool" where
  "uncounted Opening \<longleftrightarrow> False"
| "uncounted _ \<longleftrightarrow> True"

definition admitted :: "pool \<Rightarrow> nat" where
  "admitted p = size (filter_mset holds_permit (pl_calls p))"

definition open_parses :: "pool \<Rightarrow> nat" where
  "open_parses p = size (filter_mset uncounted (pl_calls p))"

definition pool_inv :: "pool \<Rightarrow> bool" where
  "pool_inv p \<longleftrightarrow>
     pl_permits p + admitted p = pl_max p \<and>
     m_parses_started (pl_metrics p) =
       m_parses_completed (pl_metrics p) + m_parses_failed (pl_metrics p) + word_of_nat (open_parses p)"

lemma count_outcome_counters:
  "m_parses_started (count_outcome r m) = m_parses_started m"
  "m_parses_rejected (count_outcome r m) = m_parses_rejected m"
  "m_parses_completed (count_outcome r m) + m_parses_failed (count_outcome r m) =
     m_parses_completed m + m_parses_failed m + 1"
  by (cases r; simp add: count_outcome_def Let_def counter_bump_def counter_add_def)+

lemma admits_inv: "admits p q \<Longrightarrow> pool_inv p \<Longrightarrow> pool_inv q \<and> pl_max q = pl_max p"
  by (induction rule: admits.induct)
    (simp_all add: pool_inv_def admitted_def open_parses_def count_outcome_counters
      counter_bump_def counter_add_def)

interpretation pool: invariant_system "(=) (new_pool (with_max_concurrent_parses n svc))" admits
  "\<lambda>p. pool_inv p \<and> pl_max p = max n 1" for n svc
proof
  show "pool_inv p \<and> pl_max p = max n 1" if "new_pool (with_max_concurrent_parses n svc) = p" for p
    unfolding that [symmetric]
    by (simp add: pool_inv_def new_pool_def admitted_def open_parses_def new_metrics_def
        with_max_concurrent_parses_def)
  show "pool_inv q \<and> pl_max q = max n 1" if "pool_inv p \<and> pl_max p = max n 1" "admits p q" for p q
    using admits_inv that by auto
qed

text \<open>Only a call that finds no permit is counted as rejected.\<close>

lemma rejected_without_permit:
  assumes "admits p q" and "m_parses_rejected (pl_metrics q) \<noteq> m_parses_rejected (pl_metrics p)"
  shows "pl_permits p = 0"
  using assms
  by (elim admits_cases) (auto simp: count_outcome_counters)

subsection \<open>Properties\<close>

text \<open>C25. Admission: however calls interleave, at most the configured number (at least one) hold a
permit; permits are out exactly when that many do, and only then can a call be counted as
rejected; and the parses counted as started are those completed, those failed, and those still
between their two counts.\<close>

theorem admission_bounded:
  assumes "reachable (with_max_concurrent_parses n svc) p"
  shows "admitted p \<le> max n 1 \<and> (pl_permits p = 0 \<longleftrightarrow> admitted p = max n 1) \<and>
    (\<forall>q. admits p q \<longrightarrow> m_parses_rejected (pl_metrics q) \<noteq> m_parses_rejected (pl_metrics p) \<longrightarrow>
       admitted p = max n 1) \<and>
    m_parses_started (pl_metrics p) =
      m_parses_completed (pl_metrics p) + m_parses_failed (pl_metrics p) + word_of_nat (open_parses p)"
proof -
  from pool.reaches_inv [OF assms] have I: "pool_inv p" "pl_max p = max n 1" by simp_all
  then have "pl_permits p = 0 \<longleftrightarrow> admitted p = max n 1" by (auto simp: pool_inv_def)
  with I rejected_without_permit [of p] show ?thesis by (auto simp: pool_inv_def)
qed

text \<open>One permit, one call that holds it: the next is refused.\<close>

theorem admission_bounded_witness:
  "\<exists>p. reachable (with_max_concurrent_parses 0 new_service) p \<and> admitted p = 1 \<and>
     m_parses_rejected (pl_metrics p) = 1 \<and>
     (pl_permits p = 0 \<longleftrightarrow> admitted p = max 0 1)"
proof -
  let ?svc = "with_max_concurrent_parses 0 new_service"
  let ?p = "(new_pool ?svc)\<lparr>pl_permits := 0, pl_calls := {#Opening#}\<rparr>"
  let ?q = "?p\<lparr>pl_metrics := new_metrics\<lparr>m_parses_rejected := 1\<rparr>\<rparr>"
  have "admits (new_pool ?svc) ((new_pool ?svc)\<lparr>pl_permits := 0,
      pl_calls := add_mset Opening (pl_calls (new_pool ?svc))\<rparr>)"
    by (rule admits.Admit) (simp add: new_pool_def with_max_concurrent_parses_def)
  then have p: "admits (new_pool ?svc) ?p" by (simp add: new_pool_def)
  have "admits ?p (?p\<lparr>pl_metrics := (pl_metrics ?p)
      \<lparr>m_parses_rejected := counter_bump (m_parses_rejected (pl_metrics ?p))\<rparr>\<rparr>)"
    by (rule admits.Refuse) simp
  then have "admits ?p ?q"
    by (simp add: new_pool_def new_metrics_def counter_bump_def counter_add_def)
  moreover have "reachable ?svc (new_pool ?svc)" by (rule reaches.Init) (rule refl)
  ultimately have q: "reachable ?svc ?q" using p by (blast intro: reaches.Step)
  have "admitted ?q = 1" "m_parses_rejected (pl_metrics ?q) = 1" by (simp_all add: admitted_def)
  moreover from admission_bounded [OF q] have "pl_permits ?q = 0 \<longleftrightarrow> admitted ?q = max 0 1"
    by (elim conjE)
  ultimately show ?thesis using q by (intro exI [of _ ?q] conjI)
qed

end
