(* ===== verification/Server.thy ===== *)
theory Server
  imports Service Rust_Text
begin

section \<open>The server's configuration\<close>

text \<open>
  The model of the configuration in \<^verbatim>\<open>src/main.rs\<close>: what \<^verbatim>\<open>main\<close> and \<^verbatim>\<open>serve\<close> read from the
  environment (a map from names to values) and build the service, the runtime and the reporter with,
  and the order in which it can fail, with the routes of \<^verbatim>\<open>src/server.rs\<close>. What the
  libraries decide (whether an address parses, how many permits a semaphore takes, whether the runtime
  can be built and the descriptors decode, whether the transport can listen and runs to its shutdown
  without an error) is given as a record; the network itself, the drain at shutdown and the signals
  are not modelled.
\<close>

type_synonym environment = "rstr \<rightharpoonup> rstr"



definition env_u64 :: "environment \<Rightarrow> rstr \<Rightarrow> nat \<Rightarrow> nat" where
  "env_u64 env name fallback =
     (case Option.bind (env name) (parse_unsigned u64_max) of None \<Rightarrow> fallback | Some n \<Rightarrow> n)"

text \<open>\<^verbatim>\<open>u32::try_from\<close> with a default; \<^verbatim>\<open>usize\<close> is 64 bits wide, so its conversions succeed.\<close>

definition u32_or :: "nat \<Rightarrow> nat \<Rightarrow> nat" where
  "u32_or fallback n = (if n \<le> u32_max then n else fallback)"



definition configured_parses :: "environment \<Rightarrow> nat" where
  "configured_parses env =
     env_u64 env (lit ''GRPC_EBCDIC_MAX_CONCURRENT_PARSES'') DEFAULT_MAX_CONCURRENT_PARSES"

definition service_from_env :: "environment \<Rightarrow> service" where
  "service_from_env env =
     (let max_document_mib = u32_or DEFAULT_MAX_DOCUMENT_MIB
            (env_u64 env (lit ''GRPC_EBCDIC_MAX_DOCUMENT_MIB'') DEFAULT_MAX_DOCUMENT_MIB);
          max_parses = configured_parses env;
          idle_seconds = max (env_u64 env (lit ''GRPC_EBCDIC_IDLE_TIMEOUT_SECONDS'')
            DEFAULT_IDLE_TIMEOUT_SECONDS) 1
      in with_idle_timeout (idle_seconds * 1000)
           (with_max_concurrent_parses max_parses
             (with_max_document_mib max_document_mib new_service)))"


text \<open>\<^verbatim>\<open>spawn_reporter\<close>: the interval in seconds between metrics lines, none when it is zero.\<close>

definition spawn_reporter :: "nat \<Rightarrow> nat option" where
  "spawn_reporter seconds = (if seconds = 0 then None else Some seconds)"


text \<open>
  The reporter's loop: a line for every tick but the first, given the counters at each tick.
\<close>

definition reporter_lines :: "nat \<Rightarrow> metrics list \<Rightarrow> msg list" where
  "reporter_lines seconds ticks =
     (case spawn_reporter seconds of None \<Rightarrow> [] | Some _ \<Rightarrow> map metrics_line (tl ticks))"

subsection \<open>Starting the server\<close>





















subsection \<open>Properties\<close>


text \<open>What the service says of itself is what it does: it names exactly the code pages a request can
resolve by their own name, its default is one of them, its field types and the unspecified one are
exactly those a layout may use, and its byte cap and its number of parses are those it enforces.\<close>

theorem service_info_honest:
  "let i = get_service_info version (service_from_env env) in
     (\<forall>name. name \<in> set (si_encodings i) \<longleftrightarrow> (\<exists>c. resolve_codec name = Inr c \<and> page_name c = name)) \<and>
     si_default_encoding i \<in> set (si_encodings i) \<and>
     (\<forall>n. n = 0 \<or> n \<in> set (si_supported_field_types i) \<longleftrightarrow> (\<exists>k. kind_from_proto n = Inr k)) \<and>
     si_default_max_document_mib i * 2 ^ 20 = svc_max_document_bytes (service_from_env env) \<and>
     si_max_concurrent_parses i = min (svc_max_concurrent_parses (service_from_env env)) u32_max"
proof -
  let ?i = "get_service_info version (service_from_env env)"
  have names: "name \<in> set (si_encodings ?i) \<longleftrightarrow> (\<exists>c. resolve_codec name = Inr c \<and> page_name c = name)" for name
    using resolve_codec_carried [of name] resolve_canonical
    by (auto simp: get_service_info_def supported_encodings_def)
  have "page_name (CODE_PAGES ! 0) = DEFAULT_ENCODING" "CODE_PAGES ! 0 \<in> set CODE_PAGES"
    by (simp_all add: CODE_PAGES_def DEFAULT_ENCODING_def)
  then have default: "si_default_encoding ?i \<in> set (si_encodings ?i)"
    by (simp add: get_service_info_def supported_encodings_def) (metis image_eqI)
  have types: "n = 0 \<or> n \<in> set (si_supported_field_types ?i) \<longleftrightarrow> (\<exists>k. kind_from_proto n = Inr k)" for n
    by (auto simp: get_service_info_def kind_from_proto_def field_type_try_from_def enum_field_type_def
        split: if_splits)
  have "u32_or DEFAULT_MAX_DOCUMENT_MIB n \<le> u32_max" for n
    by (simp add: u32_or_def DEFAULT_MAX_DOCUMENT_MIB_def)
  then have "si_default_max_document_mib ?i * 2 ^ 20 = svc_max_document_bytes (service_from_env env)"
    by (simp add: get_service_info_def service_from_env_def Let_def u32_or_max_def with_idle_timeout_def
        with_max_concurrent_parses_def with_max_document_mib_def)
  moreover have "si_max_concurrent_parses ?i = min (svc_max_concurrent_parses (service_from_env env)) u32_max"
    by (simp add: get_service_info_def u32_or_max_def)
  ultimately show ?thesis unfolding Let_def using names default types by blast
qed

end
