(* ===== verification/Spec2Isabelle.thy ===== *)
theory Spec2Isabelle
  imports Stream_Properties Cell_Properties Extracts Copybook_Properties Document_Links Document_Tables
    Document_Extracts Layout_Forms Guarded_Calls Endless_Requests Admission Server
begin

text \<open>
  This development models grpc-ebcdic, a Rust server that decodes EBCDIC mainframe extracts. A client
  opens a \<^verbatim>\<open>ParseEbcdic\<close> stream, sends a record layout, then the bytes of the file in chunks, and
  receives the compiled layout, one event per decoded record, on request one Document with a table per
  record type, and a trailer of counts.

  \<^bold>\<open>How the parts interact.\<close> \<^verbatim>\<open>src/service.rs\<close> admits a call, reads its options, resolves the code
  page (\<^verbatim>\<open>src/codec.rs\<close>) and the layout (\<^verbatim>\<open>src/layout.rs\<close>, which takes a protobuf form, a JSON
  form, or COBOL copybook source compiled by \<^verbatim>\<open>src/copybook.rs\<close>), and drives the record walker
  (\<^verbatim>\<open>src/stream.rs\<close>), which decodes fields with \<^verbatim>\<open>src/decode.rs\<close>. Every event is shown to the document
  fold (\<^verbatim>\<open>src/document_fold.rs\<close>) when there is one and sent on a channel; the trailer guard stands between
  that channel and the transport. \<^verbatim>\<open>src/main.rs\<close> configures the service from the environment.

  \<^bold>\<open>Theories.\<close> Prelude: machine types, fallible computations (\<open>'e + 'a\<close>) with the collections
  \<open>result_simps\<close> and \<open>result_elims\<close>, slices, checked arithmetic. Rust_Text: strings as lists of code
  points, trimming, case, integer printing and parsing. Wire: the messages of the contract.
  Transition_Systems: reachable states; locales \<open>invariant_system\<close>, interpreted on the frames of a parse,
  the trailer guard and admission, and \<open>consuming_system\<close>, which every record source is.

  \<^item> Codepages, Codec: the seven code page tables and \<^verbatim>\<open>codec.rs\<close>. Locale \<open>text_codec\<close>, interpreted on
    the carried pages, and \<open>bijective_codec\<close> on the one-to-one ones.
  \<^item> Errors: \<^verbatim>\<open>error.rs\<close>. A message is a list of literal and interpolated parts.
  \<^item> Decode: \<^verbatim>\<open>decode.rs\<close> on 128-bit words, with the packed, zoned and binary formats proved exact.
    Number_Formats: locale \<open>number_format\<close>, a writer of numbers and the decoder that reads them back,
    interpreted on the four formats.
  \<^item> Layout, Layout_Correct: \<^verbatim>\<open>layout.rs\<close>. \<open>wf_layout\<close> is the contract of a validated layout and
    \<open>validate_exact\<close> says that the validator returns exactly the layouts that meet it.
  \<^item> Picture, Copybook_Lexer, Copybook_Items, Copybook: \<^verbatim>\<open>copybook.rs\<close>. Copybook_Correct relates the
    compiler to the level tree of the items, Copybook_Roundtrip prints items and compiles them back,
    Copybook_Properties holds the claims.
  \<^item> Record_Stream: \<^verbatim>\<open>stream.rs\<close>, the walker with its buffer, its cursors and its counters, and the
    loops that feed it. Stream_Reference: a walk over a whole input that knows nothing of buffers and
    chunks. Record_Source: locale \<open>record_source\<close>, what a caller of the walker relies on; interpreted
    in Stream_Correct, which proves the refinement. Stream_Properties, Cell_Properties: the claims.
    Extracts: a reference writer of whole extracts, and that a parse reads back what it writes.
  \<^item> Document, Document_Fold: \<^verbatim>\<open>document_fold.rs\<close>, the messages, the link check, the fold.
    Document_Links: every document passes the link check. Document_Tables: a table shows the first rows
    of its record type, within the caps.
  \<^item> Service: \<^verbatim>\<open>service.rs\<close> and \<^verbatim>\<open>metrics.rs\<close>. \<open>parse_ebcdic\<close> is one call: its arguments are what the
    request stream delivers (\<open>inbound\<close>: a frame, a failure, nothing for the idle timeout) and what the
    client does with the n-th event (\<open>client\<close>: take it, be gone, take nothing for the timeout).
    Event_Channel: locale \<open>event_channel\<close>, what a parse relies on when it sends, interpreted on the sink.
    Service_Correct, Call_Counters, Service_Properties: a call streams the reference parse of its
    upload, and its counters agree with what its stream carries.
    Endless_Requests: the frame loop over a request stream that never ends.
  \<^item> Trailer_Guard: \<^verbatim>\<open>TrailerGuard\<close> of \<^verbatim>\<open>service.rs\<close>; sends, the end of the sender and polls interleave
    as the steps of \<open>guard_run\<close>. Guarded_Calls: what a caller receives from the parse and the guard
    together.
  \<^item> Admission: concurrent calls over the semaphore and the counters, as a step relation.
  \<^item> Copybook_Calls: a copybook as text and values under its tree, through the whole call and back.
    Document_Extracts: the same values in the tables of the Document.
  \<^item> Layout_Forms: the layout a call reports, sent back in the protobuf or the JSON form.
  \<^item> Server: the configuration read by \<^verbatim>\<open>main.rs\<close>, how a run can end, and the routes of
    \<^verbatim>\<open>server.rs\<close>.

  \<^bold>\<open>What the lemmas show.\<close> A call whose request ends returns, and its stream carries the response to
  the upload as the reference parse defines it, however the upload is cut, or no trailer and a prefix
  of the reference rows (\<open>response_refines_reference\<close>, \<open>call_delivers_reference\<close>); after the guard, that
  prefix is followed by exactly one error (\<open>ended_call_is_complete_or_failed\<close>), and an ended stream
  hands over all it owes (\<open>ended_stream_drains\<close>). A call whose request never ends returns too, unless
  the request goes on without a byte (\<open>endless_request_ends\<close>). The rows of the reference
  tile the data, decode the bytes they span, and hold the exact numbers of the storage formats: values
  written into an extract come back from it (\<open>extract_roundtrip\<close>), also through a call whose layout is
  copybook text (\<open>copybook_call_roundtrip\<close>), and in the tables of its Document
  (\<open>document_shows_values\<close>). The layout the walk uses is well formed whichever form it came from,
  and what the layout event says of it is enough to decode the file again
  (\<open>layout_event_decodes_again\<close>); a compiled copybook is its level tree. The Document shows
  the rows that were sent, exactly as many as its caps allow, which \<open>kept_rows\<close> states over the rows
  alone. Buffers, batches, documents, bytes read and concurrent calls stay within
  their bounds, and what a call counts is what its stream and its request hold (\<open>call_counters_exact\<close>).

  \<^bold>\<open>Loops, fuel and bounds.\<close> No definition takes fuel. The loops that have no bound of their own
  (\<open>drain\<close>, \<open>drain_to\<close>) are \<open>partial_function (option)\<close>, and that they return is proved: every record uses
  up input. \<open>read_endless\<close> is one too, and when it returns is the property about it. Printing of numbers, the reference walk and \<open>gather\<close> terminate by measure; all else is
  structural.

  \<^bold>\<open>How values are modelled.\<close> Integers that the code computes with are words or carry their range checks
  (\<open>checked_add_u32\<close>, \<open>saturating_add_u64\<close>, \<open>to_i64\<close>). The byte and row counters of a stream are natural
  numbers: they are 64 bits wide in the code, and no input reaches that. \<^verbatim>\<open>usize\<close> is 64 bits wide.
  The counters of \<open>metrics\<close> are 64-bit words and wrap. A declared record length near the least
  128-bit integer follows the release build, which wraps. A double is the rational it denotes, rounded
  to nearest, ties to even; the values that reach it are far from the limits of the exponent. Case
  mapping is exact on the characters Rust_Text lists and the identity on others.

  \<^bold>\<open>Parameters.\<close> The JSON parser of serde_json (a function from bytes to a JSON layout or an error text),
  prost's \<^verbatim>\<open>encoded_len\<close>, the package version, the environment, and at the start what the libraries
  decide: whether the address parses, how many permits a semaphore holds, whether the runtime can be
  built and the descriptors decode, and whether the transport listens and runs to its shutdown.

  \<^bold>\<open>Not modelled.\<close> The runtime, the sockets, HTTP/2, the answers of health and reflection, the drain at
  shutdown and the signals, which are calls into tokio and tonic; the code generated from the
  protobuf files; the clock of the ticker that prints the metrics line; wake-ups (a poll is a step, when
  it happens is not modelled); the capacity of the event channel, which appears as the client taking an
  event or not. The unit tests, the imports and the comments of the modelled files have no counterpart here.
\<close>

end
